(* ===== verification/Prelude.thy ===== *)
theory Prelude
  imports Main "HOL-Library.Word"
begin

unbundle bit_operations_syntax

text \<open>
  Shared ground of the development: the machine types of the Go source, the
  two's-complement reading of \<open>int64\<close>, little-endian decoding
  (\<open>encoding/binary\<close>), slices and \<open>copy\<close>, the Adler-32 checksum
  (\<open>hash/adler32\<close>) and the result type of operations that may panic.
  Unsigned Go integers are words of their width. \<open>int\<close> and \<open>int64\<close> (both
  64 bits wide on the supported platforms) are HOL integers, with the wrap-around
  written out by \<open>i64\<close> wherever an operation can leave the range.
\<close>

named_theorems go_defs \<open>definitions of small Go helpers, to be unfolded\<close>
named_theorems len_simps \<open>lengths of buffers and decoded pieces\<close>

section \<open>Machine types\<close>

type_synonym u8 = "8 word"
type_synonym u16 = "16 word"
type_synonym u32 = "32 word"
type_synonym u64 = "64 word"
type_synonym bytes = "u8 list"

text \<open>The value an \<open>int64\<close> holds after a computation whose exact result is the argument.\<close>

definition i64 :: "int \<Rightarrow> int" where
  "i64 x = (x + 2 ^ 63) mod 2 ^ 64 - 2 ^ 63"

definition max_int64 :: int where
  [go_defs]: "max_int64 = 9223372036854775807"

definition is_i64 :: "int \<Rightarrow> bool" where
  "is_i64 x \<longleftrightarrow> - 9223372036854775808 \<le> x \<and> x \<le> max_int64"

lemma i64_id [simp]: "is_i64 x \<Longrightarrow> i64 x = x"
  by (simp add: i64_def is_i64_def max_int64_def)

lemma i64_nonneg_id: "0 \<le> x \<Longrightarrow> x \<le> 9223372036854775807 \<Longrightarrow> i64 x = x"
  by (simp add: is_i64_def max_int64_def)

lemma is_i64_i64 [simp]: "is_i64 (i64 x)"
proof -
  have "0 \<le> (x + 2 ^ 63) mod 2 ^ 64" and "(x + 2 ^ 63) mod 2 ^ 64 < 2 ^ 64"
    by simp_all
  then show ?thesis
    by (simp add: i64_def is_i64_def max_int64_def)
qed

text \<open>The conversions \<open>int64(u)\<close>, \<open>uint64(i)\<close> of the source.\<close>

definition int64_of :: "u64 \<Rightarrow> int" where
  "int64_of w = i64 (uint w)"

definition uint64_of :: "int \<Rightarrow> u64" where
  "uint64_of x = word_of_int x"

lemma is_i64_int64_of [simp]: "is_i64 (int64_of w)"
  by (simp add: int64_of_def)

lemma int64_of_small: "uint w \<le> 9223372036854775807 \<Longrightarrow> int64_of w = uint w"
  by (simp add: int64_of_def is_i64_def max_int64_def order_trans [OF _ uint_ge_0])

lemma uint_uint64_of: "0 \<le> x \<Longrightarrow> is_i64 x \<Longrightarrow> uint (uint64_of x) = x"
  by (simp add: uint64_of_def is_i64_def max_int64_def uint_word_of_int take_bit_int_eq_self)

lemma uint_u64_id: "0 \<le> x \<Longrightarrow> x < 18446744073709551616 \<Longrightarrow> uint (word_of_int x :: u64) = x"
  by (simp add: uint_word_of_int take_bit_int_eq_self)

lemma uint_u32_id: "0 \<le> x \<Longrightarrow> x < 4294967296 \<Longrightarrow> uint (word_of_int x :: u32) = x"
  by (simp add: uint_word_of_int take_bit_int_eq_self)

lemma u64_add: "word_of_int a + word_of_int b = (word_of_int (a + b) :: u64)"
  by simp

lemma u64_diff: "word_of_int a - word_of_int b = (word_of_int (a - b) :: u64)"
  by simp

section \<open>Operations that may panic\<close>

text \<open>
  A Go panic (an index or subslice bound out of range) is not an error value: no
  caller of the library recovers from it. It is a branch of its own.
\<close>

datatype 'a go = Returns 'a | Panics

fun go_bind :: "'a go \<Rightarrow> ('a \<Rightarrow> 'b go) \<Rightarrow> 'b go" where
  "go_bind Panics f = Panics"
| "go_bind (Returns x) f = f x"

lemma go_bind_Returns_iff:
  "go_bind m f = Returns y \<longleftrightarrow> (\<exists>x. m = Returns x \<and> f x = Returns y)"
  by (cases m) auto

section \<open>Slices and buffers\<close>

text \<open>
  \<open>subslice xs a b\<close> is Go's \<open>xs[a:b]\<close> where the code has established
  \<open>a \<le> b \<le> len(xs)\<close>; \<open>slice_go\<close> is the checked form, for the places where it has not.
\<close>

definition subslice :: "'a list \<Rightarrow> nat \<Rightarrow> nat \<Rightarrow> 'a list" where
  "subslice xs a b = take (b - a) (drop a xs)"

definition slice_go :: "'a list \<Rightarrow> int \<Rightarrow> int \<Rightarrow> 'a list go" where
  "slice_go xs a b =
     (if 0 \<le> a \<and> a \<le> b \<and> b \<le> int (length xs) then Returns (subslice xs (nat a) (nat b)) else Panics)"

lemma length_subslice [simp, len_simps]:
  "length (subslice xs a b) = min (b - a) (length xs - a)"
  by (simp add: subslice_def)

lemma subslice_append_mid:
  "a = length xs \<Longrightarrow> b = length xs + length ys \<Longrightarrow> subslice (xs @ ys @ zs) a b = ys"
  by (simp add: subslice_def)

lemma subslice_whole: "subslice xs 0 (length xs) = xs"
  by (simp add: subslice_def)

lemma nth_subslice: "i < b - a \<Longrightarrow> a + i < length xs \<Longrightarrow> subslice xs a b ! i = xs ! (a + i)"
  by (simp add: subslice_def)

lemma subslice_eq_map_nth:
  "a \<le> b \<Longrightarrow> b \<le> length xs \<Longrightarrow> subslice xs a b = map ((!) xs) [a..<b]"
  by (auto intro!: nth_equalityI simp: nth_subslice)

lemma subslice_app_left: "b \<le> length xs \<Longrightarrow> subslice (xs @ ys) a b = subslice xs a b"
  by (auto simp: subslice_def)

lemma subslice_app_right:
  "length xs \<le> a \<Longrightarrow> subslice (xs @ ys) a b = subslice ys (a - length xs) (b - length xs)"
  by (simp add: subslice_def)

lemma subslice_all: "length xs \<le> b \<Longrightarrow> subslice xs 0 b = xs"
  by (simp add: subslice_def)

lemma subslice_Cons: "0 < a \<Longrightarrow> subslice (x # xs) a b = subslice xs (a - 1) (b - 1)"
  by (cases a) (simp_all add: subslice_def)

lemmas subslice_split = subslice_app_left subslice_app_right subslice_all subslice_Cons

text \<open>The contents of a fresh buffer of length \<open>n\<close> after \<open>bs\<close> was stored at its start.\<close>

definition fill_buf :: "nat \<Rightarrow> bytes \<Rightarrow> bytes" where
  "fill_buf n bs = take n bs @ replicate (n - length bs) 0"

lemma length_fill_buf [simp, len_simps]: "length (fill_buf n bs) = n"
  by (simp add: fill_buf_def)

lemma fill_buf_exact [simp]: "length bs = n \<Longrightarrow> fill_buf n bs = bs"
  by (simp add: fill_buf_def)

text \<open>\<open>copy(p[at:], src)\<close> where all of \<open>src\<close> fits.\<close>

definition copy_at :: "'a list \<Rightarrow> nat \<Rightarrow> 'a list \<Rightarrow> 'a list" where
  "copy_at p pos src = take pos p @ take (length p - pos) src @ drop (pos + length src) p"

lemma length_copy_at [simp, len_simps]:
  "pos \<le> length p \<Longrightarrow> length (copy_at p pos src) = length p"
  by (simp add: copy_at_def)

section \<open>Little-endian integers\<close>

fun le_int :: "bytes \<Rightarrow> int" where
  "le_int [] = 0"
| "le_int (b # bs) = uint b + 256 * le_int bs"

definition le16 :: "bytes \<Rightarrow> u16" where "le16 bs = word_of_int (le_int (take 2 bs))"
definition le32 :: "bytes \<Rightarrow> u32" where "le32 bs = word_of_int (le_int (take 4 bs))"
definition le64 :: "bytes \<Rightarrow> u64" where "le64 bs = word_of_int (le_int (take 8 bs))"

fun int_le :: "nat \<Rightarrow> int \<Rightarrow> bytes" where
  "int_le 0 n = []"
| "int_le (Suc k) n = word_of_int (n mod 256) # int_le k (n div 256)"

lemma length_int_le [simp, len_simps]: "length (int_le k n) = k"
  by (induction k arbitrary: n) auto

lemma uint_u8_less: "uint (b :: u8) < 256"
  using uint_lt2p [of b] by simp

lemma unat_u8_less: "unat (b :: u8) < 256"
  using unsigned_less [of b, where 'a = nat] by simp

lemma uint_u16_less: "uint (b :: u16) < 65536"
  using uint_lt2p [of b] by simp

lemma uint_u32_less: "uint (b :: u32) < 4294967296"
  using uint_lt2p [of b] by simp

lemma uint_u64_less: "uint (b :: u64) < 18446744073709551616"
  using uint_lt2p [of b] by simp

lemma le_int_nonneg [simp]: "0 \<le> le_int bs"
  by (induction bs) auto

lemma le_int_bound: "le_int bs < 256 ^ length bs"
proof (induction bs)
  case (Cons b bs)
  have "uint b + 256 * le_int bs < 256 + 256 * le_int bs"
    using uint_u8_less [of b] by simp
  also have "\<dots> \<le> 256 * 256 ^ length bs"
    using Cons.IH by simp
  finally show ?case by simp
qed simp

lemma le_int_int_le: "le_int (int_le k n) = n mod 256 ^ k"
proof (induction k arbitrary: n)
  case (Suc k)
  have "uint (word_of_int (n mod 256) :: u8) = n mod 256"
    by (simp add: uint_word_of_int take_bit_int_eq_self)
  then show ?case
    using Suc.IH [of "n div 256"] by (simp add: zmod_zmult2_eq)
qed simp

lemma int_le_le_int: "length bs = k \<Longrightarrow> int_le k (le_int bs) = bs"
proof (induction k arbitrary: bs)
  case (Suc k)
  then obtain b cs where "bs = b # cs" "length cs = k"
    by (auto simp: length_Suc_conv)
  with Suc.IH [of cs] uint_u8_less [of b] show ?case by simp
qed simp

definition put16 :: "u16 \<Rightarrow> bytes" where "put16 w = int_le 2 (uint w)"
definition put32 :: "u32 \<Rightarrow> bytes" where "put32 w = int_le 4 (uint w)"
definition put64 :: "u64 \<Rightarrow> bytes" where "put64 w = int_le 8 (uint w)"

lemma length_put [simp, len_simps]:
  "length (put16 a) = 2" "length (put32 b) = 4" "length (put64 c) = 8"
  by (simp_all add: put16_def put32_def put64_def)

lemma le16_put16 [simp]: "le16 (put16 w) = w"
  using uint_u16_less [of w] by (simp add: le16_def put16_def le_int_int_le)

lemma le32_put32 [simp]: "le32 (put32 w) = w"
  using uint_u32_less [of w] by (simp add: le32_def put32_def le_int_int_le)

lemma le64_put64 [simp]: "le64 (put64 w) = w"
  using uint_u64_less [of w] by (simp add: le64_def put64_def le_int_int_le)

lemma uint_le32: "length bs = 4 \<Longrightarrow> uint (le32 bs) = le_int bs"
  using le_int_bound [of bs] by (simp add: le32_def uint_word_of_int take_bit_int_eq_self)

lemma uint_le64: "length bs = 8 \<Longrightarrow> uint (le64 bs) = le_int bs"
  using le_int_bound [of bs] by (simp add: le64_def uint_word_of_int take_bit_int_eq_self)

lemma put32_le32: "length bs = 4 \<Longrightarrow> put32 (le32 bs) = bs"
  by (simp add: put32_def uint_le32 int_le_le_int)

lemma put64_le64: "length bs = 8 \<Longrightarrow> put64 (le64 bs) = bs"
  by (simp add: put64_def uint_le64 int_le_le_int)

section \<open>Adler-32\<close>

text \<open>
  \<open>adler32.Checksum\<close>: two running sums modulo 65521. The library delays the
  reduction over blocks of bytes, which does not change the residues.
\<close>

definition adler_step :: "u8 \<Rightarrow> int \<times> int \<Rightarrow> int \<times> int" where
  "adler_step b s = (let s1 = (fst s + uint b) mod 65521 in (s1, (snd s + s1) mod 65521))"

definition adler32 :: "bytes \<Rightarrow> u32" where
  "adler32 bs = (let s = fold adler_step bs (1, 0) in word_of_int (snd s * 65536 + fst s))"

end
