(* ===== verification/Ewf_Errors.thy ===== *)
theory Ewf_Errors
  imports Prelude
begin

text \<open>
  The error values of the library (\<open>ewferr/errors.go\<close>): the sentinels, the two
  structured errors, and the ways Go code wraps them. \<open>fmt.Errorf\<close> with a
  \<open>%w\<close> verb is \<open>Wrapped\<close>, without one it is \<open>Plain\<close>; the string they carry is
  the fixed part of the message. \<open>errors.Is\<close> follows the \<open>Unwrap\<close> chain.
  \<open>io.EOF\<close> is a value of its own, and errors of the operating system or of a
  decompressor are \<open>Plain\<close>.
\<close>

datatype sentinel =
    ErrNotImplemented
  | ErrUnsupportedFormat
  | ErrCorruptImage
  | ErrInvalidOffset
  | ErrEncrypted
  | ErrMissingSegment
  | ErrIncompleteSegmentSet
  | ErrChecksumMismatch

datatype gerr =
    Sentinel sentinel
  | EOF
  | Plain string
  | Wrapped string gerr
  | SegmentError u32 nat string gerr
  | MissingSegmentsError string "u32 list" "u32 list" "string list"
  | Joined "gerr list"

text \<open>\<open>SegmentError.Unwrap\<close> and \<open>MissingSegmentsError.Unwrap\<close>, beside the library's own.\<close>

fun unwrap_err :: "gerr \<Rightarrow> gerr list" where
  "unwrap_err (Wrapped m e) = [e]"
| "unwrap_err (SegmentError n i p e) = [e]"
| "unwrap_err (MissingSegmentsError p ms ps es) = [Sentinel ErrMissingSegment]"
| "unwrap_err (Joined es) = es"
| "unwrap_err e = []"

fun errors_is :: "gerr \<Rightarrow> gerr \<Rightarrow> bool" where
  "errors_is (Wrapped m e) t = (Wrapped m e = t \<or> errors_is e t)"
| "errors_is (SegmentError n i p e) t = (SegmentError n i p e = t \<or> errors_is e t)"
| "errors_is (MissingSegmentsError p ms ps es) t =
     (MissingSegmentsError p ms ps es = t \<or> Sentinel ErrMissingSegment = t)"
| "errors_is (Joined es) t = (Joined es = t \<or> list_ex (\<lambda>e. errors_is e t) es)"
| "errors_is e t = (e = t)"

abbreviation is_sentinel :: "gerr \<Rightarrow> sentinel \<Rightarrow> bool" where
  "is_sentinel e s \<equiv> errors_is e (Sentinel s)"

abbreviation wraps :: "string \<Rightarrow> sentinel \<Rightarrow> gerr" where
  "wraps m s \<equiv> Wrapped m (Sentinel s)"

lemma errors_is_unwrap:
  "errors_is e t \<longleftrightarrow> e = t \<or> (\<exists>e' \<in> set (unwrap_err e). errors_is e' t)"
  by (cases e) (auto simp: list_ex_iff)

section \<open>Messages\<close>

function dec_of_nat :: "nat \<Rightarrow> string" where
  "dec_of_nat n =
     (if n < 10 then [char_of (48 + n)] else dec_of_nat (n div 10) @ [char_of (48 + n mod 10)])"
  by pat_completeness auto
termination by (relation "measure id") auto

declare dec_of_nat.simps [simp del]

fun join_strings :: "string \<Rightarrow> string list \<Rightarrow> string" where
  "join_strings sep [] = []"
| "join_strings sep [s] = s"
| "join_strings sep (s # t # us) = s @ sep @ join_strings sep (t # us)"

fun sentinel_text :: "sentinel \<Rightarrow> string" where
  "sentinel_text ErrNotImplemented = ''libewf: not implemented''"
| "sentinel_text ErrUnsupportedFormat = ''libewf: unsupported format''"
| "sentinel_text ErrCorruptImage = ''libewf: corrupt image''"
| "sentinel_text ErrInvalidOffset = ''libewf: invalid offset''"
| "sentinel_text ErrEncrypted = ''libewf: image is encrypted''"
| "sentinel_text ErrMissingSegment = ''libewf: missing segment''"
| "sentinel_text ErrIncompleteSegmentSet = ''libewf: incomplete segment set''"
| "sentinel_text ErrChecksumMismatch = ''libewf: checksum mismatch''"

definition max_listed_segments :: nat where
  "max_listed_segments = 10"

definition list_segments :: "string list \<Rightarrow> string" where
  "list_segments items =
     (if length items \<le> max_listed_segments then join_strings '', '' items
      else join_strings '', '' (take max_listed_segments items) @ '' and ''
           @ dec_of_nat (length items - max_listed_segments) @ '' more'')"

definition missing_segments_text :: "string \<Rightarrow> u32 list \<Rightarrow> u32 list \<Rightarrow> string list \<Rightarrow> string" where
  "missing_segments_text path missing present expected =
     (let numbers = map (\<lambda>n. dec_of_nat (unat n)) missing in
      ''libewf: segment set '' @ path @ '' is incomplete: segment''
      @ (if length missing \<noteq> 1 then ''s'' else '''')
      @ '' '' @ list_segments numbers @ '' missing''
      @ (if length expected > 0 then '' (expected '' @ list_segments expected @ '')'' else '''')
      @ ''; '' @ dec_of_nat (length present) @ '' of ''
      @ dec_of_nat (length present + length missing) @ '' present'')"

definition segment_error_text :: "u32 \<Rightarrow> nat \<Rightarrow> string \<Rightarrow> string \<Rightarrow> string" where
  "segment_error_text segment index op inner =
     (if segment \<noteq> 0
      then ''libewf: segment '' @ dec_of_nat (unat segment) @ '' (index '' @ dec_of_nat index
           @ ''): '' @ op @ '': '' @ inner
      else ''libewf: segment at index '' @ dec_of_nat index @ '': '' @ op @ '': '' @ inner)"

fun err_text :: "gerr \<Rightarrow> string" where
  "err_text (Sentinel s) = sentinel_text s"
| "err_text EOF = ''EOF''"
| "err_text (Plain m) = m"
| "err_text (Wrapped m e) = m @ '': '' @ err_text e"
| "err_text (SegmentError n i p e) = segment_error_text n i p (err_text e)"
| "err_text (MissingSegmentsError p ms ps es) = missing_segments_text p ms ps es"
| "err_text (Joined es) = join_strings [CHR 0x0A] (map err_text es)"

end
