(* ===== verification/Source_IO.thy ===== *)
theory Source_IO
  imports Ewf_Errors
begin

text \<open>
  Random-access sources and the checked reads of \<open>internal/binaryutil/read.go\<close>.
  A source is an \<open>io.ReaderAt\<close>: \<open>src_read s n off\<close> is the call \<open>ReadAt(p, off)\<close>
  with \<open>len(p) = n\<close>, giving the bytes it stored at the start of \<open>p\<close> and its error.
  Sources are pure functions: the evidence does not change while it is read.
  \<open>src_probe\<close> says which of the size methods \<open>sourceSize\<close> looks for the
  concrete type has.
\<close>

datatype size_probe =
    SizeMethod int
  | LenMethod int
  | StatMethod "gerr + int"
  | NoSizeMethod

record io_source =
  src_read :: "nat \<Rightarrow> int \<Rightarrow> bytes \<times> gerr option"
  src_probe :: size_probe

section \<open>Checked reads\<close>

definition max_read_size :: int where
  [go_defs]: "max_read_size = 1073741824"

definition read_slice :: "io_source \<Rightarrow> int \<Rightarrow> int \<Rightarrow> gerr + bytes" where
  "read_slice r off n =
     (if n < 0 then Inl (Plain ''binaryutil: negative size'')
      else if max_read_size < n then Inl (Plain ''binaryutil: read size exceeds maximum'')
      else if off < 0 then Inl (Plain ''binaryutil: negative offset'')
      else case src_read r (nat n) off of
             (bs, Some e) \<Rightarrow> Inl e
           | (bs, None) \<Rightarrow> Inr (fill_buf (nat n) bs))"

datatype byte_order = LittleEndian | BigEndian

fun order16 :: "byte_order \<Rightarrow> bytes \<Rightarrow> u16" where
  "order16 LittleEndian bs = le16 bs"
| "order16 BigEndian bs = le16 (rev (take 2 bs))"

fun order32 :: "byte_order \<Rightarrow> bytes \<Rightarrow> u32" where
  "order32 LittleEndian bs = le32 bs"
| "order32 BigEndian bs = le32 (rev (take 4 bs))"

fun order64 :: "byte_order \<Rightarrow> bytes \<Rightarrow> u64" where
  "order64 LittleEndian bs = le64 bs"
| "order64 BigEndian bs = le64 (rev (take 8 bs))"

definition read_uint16 :: "io_source \<Rightarrow> int \<Rightarrow> byte_order \<Rightarrow> gerr + u16" where
  "read_uint16 r off ord =
     (case read_slice r off 2 of Inl e \<Rightarrow> Inl e | Inr buf \<Rightarrow> Inr (order16 ord buf))"

definition read_uint32 :: "io_source \<Rightarrow> int \<Rightarrow> byte_order \<Rightarrow> gerr + u32" where
  "read_uint32 r off ord =
     (case read_slice r off 4 of Inl e \<Rightarrow> Inl e | Inr buf \<Rightarrow> Inr (order32 ord buf))"

definition read_uint64 :: "io_source \<Rightarrow> int \<Rightarrow> byte_order \<Rightarrow> gerr + u64" where
  "read_uint64 r off ord =
     (case read_slice r off 8 of Inl e \<Rightarrow> Inl e | Inr buf \<Rightarrow> Inr (order64 ord buf))"

text \<open>A \<open>StructDecoder\<close> is its two methods; the decoded value is the receiver afterwards.\<close>

record 'a struct_decoder =
  binary_size :: int
  decode_binary :: "bytes \<Rightarrow> byte_order \<Rightarrow> gerr + 'a"

definition read_struct :: "io_source \<Rightarrow> int \<Rightarrow> byte_order \<Rightarrow> 'a struct_decoder \<Rightarrow> gerr + 'a" where
  "read_struct r off ord out =
     (let size = binary_size out in
      if size < 0 then Inl (Plain ''binaryutil: negative struct size'')
      else case read_slice r off size of
             Inl e \<Rightarrow> Inl e
           | Inr buf \<Rightarrow> decode_binary out buf ord)"

text \<open>\<open>sourceSize\<close> of \<open>reader/sections.go\<close>: the methods are tried in this order.\<close>

definition source_size :: "io_source \<Rightarrow> gerr + int" where
  "source_size s =
     (case src_probe s of
        SizeMethod n \<Rightarrow> Inr n
      | LenMethod n \<Rightarrow> Inr n
      | StatMethod (Inl e) \<Rightarrow> Inl e
      | StatMethod (Inr n) \<Rightarrow> Inr n
      | NoSizeMethod \<Rightarrow> Inl (Plain ''unsupported ReaderAt type''))"

lemma read_slice_length: "read_slice r off n = Inr bs \<Longrightarrow> 0 \<le> n \<and> length bs = nat n"
  by (auto simp: read_slice_def split: if_splits prod.splits option.splits)

lemma read_slice_args:
  "read_slice r off n = Inr bs \<Longrightarrow> 0 \<le> n \<and> n \<le> max_read_size \<and> 0 \<le> off"
  by (auto simp: read_slice_def split: if_splits)

section \<open>The contract of a source\<close>

text \<open>
  What \<open>io.ReaderAt\<close> promises of a source whose contents are \<open>content\<close>: a call
  without error filled the whole buffer from the contents, and a call that ends
  strictly inside the contents has no error. At the exact end the interface leaves
  it open whether \<open>io.EOF\<close> is returned; \<open>eager_source\<close> adds that it is not.
\<close>

locale source_of =
  fixes src :: io_source
    and content :: bytes
  assumes read_none:
    "src_read src n off = (bs, None) \<Longrightarrow> 0 \<le> off \<Longrightarrow>
       nat off + n \<le> length content \<and> bs = subslice content (nat off) (nat off + n)"
    and read_inside:
    "0 \<le> off \<Longrightarrow> 0 < n \<Longrightarrow> nat off + n < length content \<Longrightarrow> snd (src_read src n off) = None"
begin

lemma read_slice_content:
  assumes "read_slice src off n = Inr bs"
  shows "bs = subslice content (nat off) (nat off + nat n) \<and> nat off + nat n \<le> length content"
proof -
  have off: "0 \<le> off" and n: "0 \<le> n" using read_slice_args [OF assms] by auto
  from assms obtain bs' where r: "src_read src (nat n) off = (bs', None)"
    and bs: "bs = fill_buf (nat n) bs'"
    by (auto simp: read_slice_def split: if_splits prod.splits option.splits)
  have c: "nat off + nat n \<le> length content" and b: "bs' = subslice content (nat off) (nat off + nat n)"
    using read_none [OF r off] by auto
  then have "length bs' = nat n" by simp
  with bs b c show ?thesis by simp
qed

lemma read_slice_inside:
  assumes "0 \<le> off" "0 < n" "n \<le> max_read_size" "off + n < int (length content)"
  shows "read_slice src off n = Inr (subslice content (nat off) (nat off + nat n))"
proof -
  have lt: "nat off + nat n < length content" using assms by linarith
  then have "snd (src_read src (nat n) off) = None"
    using read_inside assms by simp
  then obtain bs where "src_read src (nat n) off = (bs, None)"
    by (cases "src_read src (nat n) off") auto
  then have "read_slice src off n = Inr (fill_buf (nat n) bs)"
    using assms by (simp add: read_slice_def)
  with read_slice_content [OF this] show ?thesis by simp
qed

end

locale eager_source = source_of +
  assumes read_to_end:
    "0 \<le> off \<Longrightarrow> 0 < n \<Longrightarrow> nat off + n = length content \<Longrightarrow> snd (src_read src n off) = None"
begin

lemma read_slice_ok:
  assumes "0 \<le> off" "0 < n" "n \<le> max_read_size" "off + n \<le> int (length content)"
  shows "read_slice src off n = Inr (subslice content (nat off) (nat off + nat n))"
proof (cases "off + n < int (length content)")
  case True
  with assms show ?thesis by (intro read_slice_inside) auto
next
  case False
  then have "nat off + nat n = length content" using assms by linarith
  then have "snd (src_read src (nat n) off) = None"
    using read_to_end assms by simp
  then obtain bs where "src_read src (nat n) off = (bs, None)"
    by (cases "src_read src (nat n) off") auto
  then have "read_slice src off n = Inr (fill_buf (nat n) bs)"
    using assms by (simp add: read_slice_def)
  with read_slice_content [OF this] show ?thesis by simp
qed

lemma read_slice_ok_iff:
  assumes "0 < n"
  shows "(\<exists>bs. read_slice src off n = Inr bs) \<longleftrightarrow>
    0 \<le> off \<and> n \<le> max_read_size \<and> off + n \<le> int (length content)"
proof
  assume "\<exists>bs. read_slice src off n = Inr bs"
  then obtain bs where r: "read_slice src off n = Inr bs" ..
  show "0 \<le> off \<and> n \<le> max_read_size \<and> off + n \<le> int (length content)"
    using read_slice_args [OF r] read_slice_content [OF r] by auto
qed (use assms read_slice_ok in blast)

end

section \<open>A byte slice as a source\<close>

text \<open>\<open>bytes.Reader.ReadAt\<close> and \<open>Size\<close> over the given contents; a file behaves the same.\<close>

definition bytes_read :: "bytes \<Rightarrow> nat \<Rightarrow> int \<Rightarrow> bytes \<times> gerr option" where
  "bytes_read c n off =
     (if off < 0 then ([], Some (Plain ''bytes.Reader.ReadAt: negative offset''))
      else if int (length c) \<le> off then ([], Some EOF)
      else let bs = take n (drop (nat off) c) in
           (bs, if length bs < n then Some EOF else None))"

definition bytes_source :: "bytes \<Rightarrow> io_source" where
  "bytes_source c = \<lparr>src_read = bytes_read c, src_probe = SizeMethod (int (length c))\<rparr>"

interpretation bytes_src: eager_source "bytes_source c" c for c
  by unfold_locales
     (auto simp: bytes_source_def bytes_read_def subslice_def Let_def split: if_splits)

lemma source_size_bytes [simp]: "source_size (bytes_source c) = Inr (int (length c))"
  by (simp add: source_size_def bytes_source_def)

lemmas read_bytes_source = bytes_src.read_slice_ok

lemma read_slice_mid:
  assumes "off = int (length pre)" "n = int (length mid)" "0 < n" "n \<le> max_read_size"
  shows "read_slice (bytes_source (pre @ mid @ post)) off n = Inr mid"
proof -
  have "read_slice (bytes_source (pre @ mid @ post)) off n =
      Inr (subslice (pre @ mid @ post) (nat off) (nat off + nat n))"
    using assms by (intro read_bytes_source) auto
  then show ?thesis using assms by (simp add: subslice_append_mid)
qed

lemmas read_slice_prefix = read_slice_mid [where pre = "[]", simplified]

section \<open>Properties\<close>

text \<open>
  A read of a positive number of bytes from a file of known contents succeeds
  exactly when the offset is not negative, the size is within the allocation bound
  and the range lies in the file; the value is then exactly that range.
\<close>

theorem read_slice_exact:
  assumes "0 < n"
  shows "read_slice (bytes_source c) off n =
     (if max_read_size < n then Inl (Plain ''binaryutil: read size exceeds maximum'')
      else if off < 0 then Inl (Plain ''binaryutil: negative offset'')
      else if off + n \<le> int (length c) then Inr (subslice c (nat off) (nat (off + n)))
      else Inl EOF)"
proof (cases "max_read_size < n \<or> off < 0 \<or> off + n \<le> int (length c)")
  case True
  then show ?thesis
    using assms bytes_src.read_slice_ok [of off n c]
    by (auto simp: read_slice_def nat_add_distrib)
next
  case False
  then have "length (take (nat n) (drop (nat off) c)) < nat n"
    using assms by (simp, linarith)
  with False assms show ?thesis
    by (auto simp: read_slice_def bytes_source_def bytes_read_def Let_def)
qed

theorem read_slice_exact_witness:
  "read_slice (bytes_source [1, 2, 3, 4]) 1 2 = Inr [2, 3] \<and>
   read_slice (bytes_source [1, 2, 3, 4]) 3 2 = Inl EOF"
  using read_slice_exact [of 2 "[1, 2, 3, 4]" 1] read_slice_exact [of 2 "[1, 2, 3, 4]" 3]
  by (simp add: max_read_size_def subslice_def)

text \<open>
  A source may report \<open>io.EOF\<close> together with a full buffer when the range ends at
  the end of its contents. \<open>ReadSlice\<close> then discards the bytes it was given.
\<close>

lemma read_slice_discards_full_read:
  assumes "src_read s (nat n) off = (bs, Some EOF)" "0 \<le> n" "n \<le> max_read_size" "0 \<le> off"
  shows "read_slice s off n = Inl EOF"
  using assms by (simp add: read_slice_def)

end
