(* ===== verification/Ewf_Types.thy ===== *)
theory Ewf_Types
  imports Source_IO
begin

text \<open>
  The on-disk vocabulary of the package \<open>types\<close>: signatures, enumerations and the
  fixed-layout structures with their accessors. A fixed-size byte array is a byte
  list of that length.
\<close>

section \<open>Signatures and enumerations\<close>

definition signature_evf_v1 :: bytes where
  "signature_evf_v1 = [0x45, 0x56, 0x46, 0x09, 0x0d, 0x0a, 0xff, 0x00]"
definition signature_lvf_v1 :: bytes where
  "signature_lvf_v1 = [0x4c, 0x56, 0x46, 0x09, 0x0d, 0x0a, 0xff, 0x00]"
definition signature_evf_v2 :: bytes where
  "signature_evf_v2 = [0x45, 0x56, 0x46, 0x32, 0x0d, 0x0a, 0x81, 0x00]"
definition signature_lef_v2 :: bytes where
  "signature_lef_v2 = [0x4c, 0x45, 0x46, 0x32, 0x0d, 0x0a, 0x81, 0x00]"

definition format_unknown :: u8 where [go_defs]: "format_unknown = 0x00"
definition format_encase1 :: u8 where [go_defs]: "format_encase1 = 0x01"
definition format_encase2 :: u8 where [go_defs]: "format_encase2 = 0x02"
definition format_encase3 :: u8 where [go_defs]: "format_encase3 = 0x03"
definition format_encase4 :: u8 where [go_defs]: "format_encase4 = 0x04"
definition format_encase5 :: u8 where [go_defs]: "format_encase5 = 0x05"
definition format_encase6 :: u8 where [go_defs]: "format_encase6 = 0x06"
definition format_encase7 :: u8 where [go_defs]: "format_encase7 = 0x07"
definition format_smart :: u8 where [go_defs]: "format_smart = 0x0e"
definition format_ftkimager :: u8 where [go_defs]: "format_ftkimager = 0x0f"
definition format_logical_encase5 :: u8 where [go_defs]: "format_logical_encase5 = 0x10"
definition format_logical_encase6 :: u8 where [go_defs]: "format_logical_encase6 = 0x11"
definition format_logical_encase7 :: u8 where [go_defs]: "format_logical_encase7 = 0x12"
definition format_linen5 :: u8 where [go_defs]: "format_linen5 = 0x25"
definition format_linen6 :: u8 where [go_defs]: "format_linen6 = 0x26"
definition format_linen7 :: u8 where [go_defs]: "format_linen7 = 0x27"
definition format_v2_encase7 :: u8 where [go_defs]: "format_v2_encase7 = 0x37"
definition format_v2_logical_encase :: u8 where [go_defs]: "format_v2_logical_encase = 0x47"
definition format_ewf :: u8 where [go_defs]: "format_ewf = 0x70"
definition format_ewfx :: u8 where [go_defs]: "format_ewfx = 0x71"

definition compression_none :: u16 where [go_defs]: "compression_none = 0"
definition compression_deflate :: u16 where [go_defs]: "compression_deflate = 1"
definition compression_bzip2 :: u16 where [go_defs]: "compression_bzip2 = 2"

definition media_type_removable :: u8 where [go_defs]: "media_type_removable = 0x00"
definition media_type_fixed :: u8 where [go_defs]: "media_type_fixed = 0x01"
definition media_type_optical :: u8 where [go_defs]: "media_type_optical = 0x03"
definition media_type_single_files :: u8 where [go_defs]: "media_type_single_files = 0x0e"
definition media_type_memory :: u8 where [go_defs]: "media_type_memory = 0x10"

definition media_flag_physical :: u8 where [go_defs]: "media_flag_physical = 0x02"
definition media_flag_fastbloc :: u8 where [go_defs]: "media_flag_fastbloc = 0x04"
definition media_flag_tableau :: u8 where [go_defs]: "media_flag_tableau = 0x08"

text \<open>The section type codes, as an enumeration and as the numbers stored on disk.\<close>

datatype section_type =
    DeviceInformation | CaseData | SectorData | SectorTable | ErrorTable | SessionTable
  | IncrementData | MD5Hash | SHA1Hash | RestartData | EncryptionKeys | MemoryExtents
  | NextSection | FinalInformation | DoneSection | AnalyticalData | SingleFilesData

fun section_code :: "section_type \<Rightarrow> u32" where
  "section_code DeviceInformation = 0x01"
| "section_code CaseData = 0x02"
| "section_code SectorData = 0x03"
| "section_code SectorTable = 0x04"
| "section_code ErrorTable = 0x05"
| "section_code SessionTable = 0x06"
| "section_code IncrementData = 0x07"
| "section_code MD5Hash = 0x08"
| "section_code SHA1Hash = 0x09"
| "section_code RestartData = 0x0a"
| "section_code EncryptionKeys = 0x0b"
| "section_code MemoryExtents = 0x0c"
| "section_code NextSection = 0x0d"
| "section_code FinalInformation = 0x0e"
| "section_code DoneSection = 0x0f"
| "section_code AnalyticalData = 0x10"
| "section_code SingleFilesData = 0x20"

definition section_flag_integrity_hash :: u32 where
  [go_defs]: "section_flag_integrity_hash = 0x1"
definition section_flag_encrypted :: u32 where
  [go_defs]: "section_flag_encrypted = 0x2"

definition chunk_flag_compressed :: u32 where [go_defs]: "chunk_flag_compressed = 0x1"
definition chunk_flag_checksum :: u32 where [go_defs]: "chunk_flag_checksum = 0x2"
definition chunk_flag_pattern :: u32 where [go_defs]: "chunk_flag_pattern = 0x4"

section \<open>File headers\<close>

record file_header_v1 =
  fh1_signature :: bytes
  fh1_fields_start :: u8
  fh1_segment_number :: bytes
  fh1_fields_end :: bytes

definition fh1_segment_number_value :: "file_header_v1 \<Rightarrow> byte_order \<Rightarrow> u16" where
  "fh1_segment_number_value h ord = order16 ord (fh1_segment_number h)"

record file_header_v2 =
  fh2_signature :: bytes
  fh2_major_version :: u8
  fh2_minor_version :: u8
  fh2_compression_method :: bytes
  fh2_segment_number :: bytes
  fh2_set_identifier :: bytes

definition fh2_compression_method_value :: "file_header_v2 \<Rightarrow> byte_order \<Rightarrow> u16" where
  "fh2_compression_method_value h ord = order16 ord (fh2_compression_method h)"

definition fh2_segment_number_value :: "file_header_v2 \<Rightarrow> byte_order \<Rightarrow> u32" where
  "fh2_segment_number_value h ord = order32 ord (fh2_segment_number h)"

section \<open>Section descriptors\<close>

record section_descriptor_v1 =
  sd1_type_string :: bytes
  sd1_next_offset :: bytes
  sd1_size :: bytes
  sd1_padding :: bytes
  sd1_checksum :: bytes

definition sd1_next_offset_value :: "section_descriptor_v1 \<Rightarrow> byte_order \<Rightarrow> u64" where
  [go_defs]: "sd1_next_offset_value d ord = order64 ord (sd1_next_offset d)"
definition sd1_size_value :: "section_descriptor_v1 \<Rightarrow> byte_order \<Rightarrow> u64" where
  [go_defs]: "sd1_size_value d ord = order64 ord (sd1_size d)"
definition sd1_checksum_value :: "section_descriptor_v1 \<Rightarrow> byte_order \<Rightarrow> u32" where
  [go_defs]: "sd1_checksum_value d ord = order32 ord (sd1_checksum d)"

record section_descriptor_v2 =
  sd2_type :: bytes
  sd2_data_flags :: bytes
  sd2_previous_offset :: bytes
  sd2_data_size :: bytes
  sd2_descriptor_size :: bytes
  sd2_padding_size :: bytes
  sd2_data_integrity_hash :: bytes
  sd2_padding :: bytes
  sd2_checksum :: bytes

definition sd2_type_value :: "section_descriptor_v2 \<Rightarrow> byte_order \<Rightarrow> u32" where
  [go_defs]: "sd2_type_value d ord = order32 ord (sd2_type d)"
definition sd2_data_flags_value :: "section_descriptor_v2 \<Rightarrow> byte_order \<Rightarrow> u32" where
  [go_defs]: "sd2_data_flags_value d ord = order32 ord (sd2_data_flags d)"
definition sd2_previous_offset_value :: "section_descriptor_v2 \<Rightarrow> byte_order \<Rightarrow> u64" where
  [go_defs]: "sd2_previous_offset_value d ord = order64 ord (sd2_previous_offset d)"
definition sd2_data_size_value :: "section_descriptor_v2 \<Rightarrow> byte_order \<Rightarrow> u64" where
  [go_defs]: "sd2_data_size_value d ord = order64 ord (sd2_data_size d)"
definition sd2_descriptor_size_value :: "section_descriptor_v2 \<Rightarrow> byte_order \<Rightarrow> u32" where
  [go_defs]: "sd2_descriptor_size_value d ord = order32 ord (sd2_descriptor_size d)"
definition sd2_padding_size_value :: "section_descriptor_v2 \<Rightarrow> byte_order \<Rightarrow> u32" where
  [go_defs]: "sd2_padding_size_value d ord = order32 ord (sd2_padding_size d)"
definition sd2_checksum_value :: "section_descriptor_v2 \<Rightarrow> byte_order \<Rightarrow> u32" where
  [go_defs]: "sd2_checksum_value d ord = order32 ord (sd2_checksum d)"

section \<open>Chunk tables\<close>

record table_header_v1 =
  th1_number_of_entries :: bytes
  th1_padding1 :: bytes
  th1_base_offset :: bytes
  th1_padding2 :: bytes
  th1_checksum :: bytes

definition th1_number_of_entries_value :: "table_header_v1 \<Rightarrow> byte_order \<Rightarrow> u32" where
  [go_defs]: "th1_number_of_entries_value h ord = order32 ord (th1_number_of_entries h)"
definition th1_base_offset_value :: "table_header_v1 \<Rightarrow> byte_order \<Rightarrow> u64" where
  [go_defs]: "th1_base_offset_value h ord = order64 ord (th1_base_offset h)"
definition th1_checksum_value :: "table_header_v1 \<Rightarrow> byte_order \<Rightarrow> u32" where
  [go_defs]: "th1_checksum_value h ord = order32 ord (th1_checksum h)"

record table_entry_v1 =
  te1_chunk_data_offset :: bytes

definition te1_chunk_data_offset_value :: "table_entry_v1 \<Rightarrow> byte_order \<Rightarrow> u32" where
  [go_defs]: "te1_chunk_data_offset_value e ord = order32 ord (te1_chunk_data_offset e)"

record table_header_v2 =
  th2_first_chunk_number :: bytes
  th2_number_of_entries :: bytes
  th2_unknown1 :: bytes
  th2_checksum :: bytes
  th2_padding :: bytes

definition th2_first_chunk_number_value :: "table_header_v2 \<Rightarrow> byte_order \<Rightarrow> u64" where
  [go_defs]: "th2_first_chunk_number_value h ord = order64 ord (th2_first_chunk_number h)"
definition th2_number_of_entries_value :: "table_header_v2 \<Rightarrow> byte_order \<Rightarrow> u32" where
  [go_defs]: "th2_number_of_entries_value h ord = order32 ord (th2_number_of_entries h)"
definition th2_checksum_value :: "table_header_v2 \<Rightarrow> byte_order \<Rightarrow> u32" where
  [go_defs]: "th2_checksum_value h ord = order32 ord (th2_checksum h)"

record table_entry_v2 =
  te2_chunk_data_offset :: bytes
  te2_chunk_data_size :: bytes
  te2_chunk_data_flags :: bytes

definition te2_chunk_data_offset_value :: "table_entry_v2 \<Rightarrow> byte_order \<Rightarrow> u64" where
  [go_defs]: "te2_chunk_data_offset_value e ord = order64 ord (te2_chunk_data_offset e)"
definition te2_chunk_data_size_value :: "table_entry_v2 \<Rightarrow> byte_order \<Rightarrow> u32" where
  [go_defs]: "te2_chunk_data_size_value e ord = order32 ord (te2_chunk_data_size e)"
definition te2_chunk_data_flags_value :: "table_entry_v2 \<Rightarrow> byte_order \<Rightarrow> u32" where
  [go_defs]: "te2_chunk_data_flags_value e ord = order32 ord (te2_chunk_data_flags e)"

lemma section_code_inject [simp]: "section_code a = section_code b \<longleftrightarrow> a = b"
  by (cases a; cases b) simp_all

lemma signatures_distinct:
  "distinct [signature_evf_v1, signature_lvf_v1, signature_evf_v2, signature_lef_v2]"
  by (simp add: signature_evf_v1_def signature_lvf_v1_def signature_evf_v2_def signature_lef_v2_def)

end
