(* ===== verification/Compression.thy ===== *)
theory Compression
  imports Ewf_Errors Ewf_Types
begin

text \<open>
  \<open>compression/decompress.go\<close>. The decompressors of the standard library are the
  fields of a record, a parameter of the model: opening a stream (the zlib header may
  be refused) and reading it to its end.
\<close>

record codecs =
  zlib_new_reader :: "bytes \<Rightarrow> gerr option"
  zlib_read_all :: "bytes \<Rightarrow> gerr + bytes"
  bzip2_read_all :: "bytes \<Rightarrow> gerr + bytes"

definition decompress_zlib :: "codecs \<Rightarrow> bytes \<Rightarrow> gerr + bytes" where
  "decompress_zlib cs data =
     (case zlib_new_reader cs data of
        Some e \<Rightarrow> Inl (Wrapped ''compression: zlib reader'' e)
      | None \<Rightarrow>
          (case zlib_read_all cs data of
             Inl e \<Rightarrow> Inl (Wrapped ''compression: zlib decompress'' e)
           | Inr out \<Rightarrow> Inr out))"

definition decompress_bzip2 :: "codecs \<Rightarrow> bytes \<Rightarrow> gerr + bytes" where
  "decompress_bzip2 cs data =
     (case bzip2_read_all cs data of
        Inl e \<Rightarrow> Inl (Wrapped ''compression: bzip2 decompress'' e)
      | Inr out \<Rightarrow> Inr out)"

definition decompress :: "codecs \<Rightarrow> bytes \<Rightarrow> u16 \<Rightarrow> gerr + bytes" where
  "decompress cs data method =
     (if method = compression_none then Inr data
      else if method = compression_deflate then decompress_zlib cs data
      else if method = compression_bzip2 then decompress_bzip2 cs data
      else Inl (Plain ''compression: unsupported method''))"

lemma decompress_methods [simp]:
  "decompress cs data compression_none = Inr data"
  "decompress cs data compression_deflate = decompress_zlib cs data"
  "decompress cs data compression_bzip2 = decompress_bzip2 cs data"
  by (simp_all add: decompress_def go_defs)

end
