(* ===== verification/Go_Text.thy ===== *)
theory Go_Text
  imports Ewf_Errors "HOL-Library.Sublist"
begin

text \<open>
  The part of Go's text library the source uses. A Go string is a sequence of
  bytes, here a HOL string (one character per byte). White space is the set of
  UTF-8 encodings of the runes \<open>unicode.IsSpace\<close> accepts; no encoding starts or
  ends inside another one, so trimming and splitting on bytes agree with
  \<open>strings.TrimSpace\<close> and \<open>strings.Fields\<close> on every byte sequence.
\<close>

section \<open>Bytes and characters\<close>

definition char_byte :: "u8 \<Rightarrow> char" where
  "char_byte b = char_of (unat b)"

definition byte_char :: "char \<Rightarrow> u8" where
  "byte_char c = of_nat (of_char c)"

definition string_of_bytes :: "bytes \<Rightarrow> string" where
  "string_of_bytes bs = map char_byte bs"

definition bytes_of_string :: "string \<Rightarrow> bytes" where
  "bytes_of_string s = map byte_char s"

lemma char_byte_byte_char [simp]: "char_byte (byte_char c) = c"
proof -
  have "unat (of_nat (of_char c) :: u8) = of_char c"
    by (simp add: unat_of_nat)
  then show ?thesis by (simp add: char_byte_def byte_char_def)
qed

lemma byte_char_char_byte [simp]: "byte_char (char_byte b) = b"
  by (simp add: char_byte_def byte_char_def unat_u8_less)

lemma string_of_bytes_of_string [simp]: "string_of_bytes (bytes_of_string s) = s"
  by (simp add: string_of_bytes_def bytes_of_string_def comp_def)

lemma length_string_of_bytes [simp, len_simps]: "length (string_of_bytes bs) = length bs"
  by (simp add: string_of_bytes_def)

lemma length_bytes_of_string [simp, len_simps]: "length (bytes_of_string s) = length s"
  by (simp add: bytes_of_string_def)

section \<open>White space\<close>

definition ws_encodings :: "string list" where
  "ws_encodings =
     [[CHR 0x20], [CHR 0x09], [CHR 0x0A], [CHR 0x0B], [CHR 0x0C], [CHR 0x0D],
      [CHR 0xC2, CHR 0x85], [CHR 0xC2, CHR 0xA0], [CHR 0xE1, CHR 0x9A, CHR 0x80],
      [CHR 0xE2, CHR 0x80, CHR 0x80], [CHR 0xE2, CHR 0x80, CHR 0x81],
      [CHR 0xE2, CHR 0x80, CHR 0x82], [CHR 0xE2, CHR 0x80, CHR 0x83],
      [CHR 0xE2, CHR 0x80, CHR 0x84], [CHR 0xE2, CHR 0x80, CHR 0x85],
      [CHR 0xE2, CHR 0x80, CHR 0x86], [CHR 0xE2, CHR 0x80, CHR 0x87],
      [CHR 0xE2, CHR 0x80, CHR 0x88], [CHR 0xE2, CHR 0x80, CHR 0x89],
      [CHR 0xE2, CHR 0x80, CHR 0x8A], [CHR 0xE2, CHR 0x80, CHR 0xA8],
      [CHR 0xE2, CHR 0x80, CHR 0xA9], [CHR 0xE2, CHR 0x80, CHR 0xAF],
      [CHR 0xE2, CHR 0x81, CHR 0x9F], [CHR 0xE3, CHR 0x80, CHR 0x80]]"

lemma ws_nonempty: "w \<in> set ws_encodings \<Longrightarrow> w \<noteq> []"
  by (auto simp: ws_encodings_def)

text \<open>Drop the white space at the start, at the end, at both ends of a string.\<close>

function trim_left :: "string \<Rightarrow> string" where
  "trim_left s = (case find (\<lambda>w. prefix w s) ws_encodings of
                    None \<Rightarrow> s
                  | Some w \<Rightarrow> trim_left (drop (length w) s))"
  by pat_completeness auto
termination
proof (relation "measure length")
  fix s w
  assume "find (\<lambda>w. prefix w s) ws_encodings = Some w"
  then have "w \<in> set ws_encodings" and "prefix w s"
    by (auto simp: find_Some_iff)
  then have "0 < length w" and "length w \<le> length s"
    using ws_nonempty prefix_length_le by auto
  then show "(drop (length w) s, s) \<in> measure length"
    by (simp only: in_measure length_drop)
qed simp

declare trim_left.simps [simp del]

function trim_right :: "string \<Rightarrow> string" where
  "trim_right s = (case find (\<lambda>w. suffix w s) ws_encodings of
                     None \<Rightarrow> s
                   | Some w \<Rightarrow> trim_right (take (length s - length w) s))"
  by pat_completeness auto
termination
proof (relation "measure length")
  fix s w
  assume "find (\<lambda>w. suffix w s) ws_encodings = Some w"
  then have "w \<in> set ws_encodings" and "suffix w s"
    by (auto simp: find_Some_iff)
  then have "0 < length w" and "length w \<le> length s"
    using ws_nonempty suffix_length_le by auto
  then show "(take (length s - length w) s, s) \<in> measure length"
    by (simp only: in_measure length_take)
qed simp

declare trim_right.simps [simp del]

definition trim_space :: "string \<Rightarrow> string" where
  "trim_space s = trim_right (trim_left s)"

fun take_word :: "string \<Rightarrow> string \<times> string" where
  "take_word [] = ([], [])"
| "take_word (x # xs) =
     (if find (\<lambda>w. prefix w (x # xs)) ws_encodings \<noteq> None then ([], x # xs)
      else (let r = take_word xs in (x # fst r, snd r)))"

lemma take_word_append: "fst (take_word s) @ snd (take_word s) = s"
  by (induction s) (auto simp: Let_def)

lemma length_take_word: "length (snd (take_word s)) \<le> length s"
  by (induction s) (auto simp: Let_def)

lemma length_trim_left: "length (trim_left s) \<le> length s"
proof (induction s rule: trim_left.induct)
  case (1 s)
  then show ?case
    by (subst trim_left.simps) (auto split: option.split intro: order_trans)
qed

lemma trim_left_fixed: "find (\<lambda>w. prefix w (trim_left s)) ws_encodings = None"
proof (induction s rule: trim_left.induct)
  case (1 s)
  then show ?case
    by (subst trim_left.simps) (auto split: option.split)
qed

text \<open>\<open>strings.Fields\<close>\<close>

function split_fields :: "string \<Rightarrow> string list" where
  "split_fields s =
     (let t = trim_left s in
      if t = [] then [] else fst (take_word t) # split_fields (snd (take_word t)))"
  by pat_completeness auto
termination
proof (relation "measure length")
  fix s t :: string
  assume t: "t = trim_left s" and ne: "t \<noteq> []"
  obtain x xs where x: "t = x # xs" using ne by (cases t) auto
  have "find (\<lambda>w. prefix w t) ws_encodings = None"
    unfolding t by (rule trim_left_fixed)
  then have "length (snd (take_word t)) < length t"
    using length_take_word [of xs] by (simp add: x Let_def)
  also have "\<dots> \<le> length s" unfolding t by (rule length_trim_left)
  finally show "(snd (take_word t), s) \<in> measure length" by simp
qed simp

declare split_fields.simps [simp del]

section \<open>Splitting and replacing\<close>

text \<open>\<open>strings.Split(s, c)\<close> for a one-byte separator, and the inverse \<open>strings.Join\<close>.\<close>

fun split_on :: "char \<Rightarrow> string \<Rightarrow> string list" where
  "split_on c [] = [[]]"
| "split_on c (x # xs) =
     (if x = c then [] # split_on c xs
      else (case split_on c xs of [] \<Rightarrow> [[x]] | y # ys \<Rightarrow> (x # y) # ys))"

lemma split_on_nonempty: "split_on c s \<noteq> []"
  by (cases s) (auto split: list.splits)

lemma split_on_plain: "c \<notin> set s \<Longrightarrow> split_on c s = [s]"
  by (induction s) auto

lemma split_on_append:
  "c \<notin> set s \<Longrightarrow> split_on c (s @ c # t) = s # split_on c t"
  by (induction s) auto

lemma split_on_join:
  "ss \<noteq> [] \<Longrightarrow> (\<And>s. s \<in> set ss \<Longrightarrow> c \<notin> set s) \<Longrightarrow> split_on c (join_strings [c] ss) = ss"
  by (induction "[c]" ss rule: join_strings.induct)
     (auto simp: split_on_plain split_on_append)

lemma split_on_no_sep: "s' \<in> set (split_on c s) \<Longrightarrow> c \<notin> set s'"
  by (induction c s arbitrary: s' rule: split_on.induct) (auto split: list.splits if_splits)

text \<open>\<open>strings.ReplaceAll(s, "\r\n", "\n")\<close>\<close>

fun crlf_to_lf :: "string \<Rightarrow> string" where
  "crlf_to_lf [] = []"
| "crlf_to_lf [x] = [x]"
| "crlf_to_lf (x # y # zs) =
     (if x = CHR 0x0D \<and> y = CHR 0x0A then CHR 0x0A # crlf_to_lf zs else x # crlf_to_lf (y # zs))"

lemma crlf_to_lf_id: "CHR 0x0D \<notin> set s \<Longrightarrow> crlf_to_lf s = s"
  by (induction s rule: crlf_to_lf.induct) auto

section \<open>Numbers\<close>

definition is_dec_digit :: "char \<Rightarrow> bool" where
  "is_dec_digit c \<longleftrightarrow> 48 \<le> (of_char c :: nat) \<and> (of_char c :: nat) \<le> 57"

fun dec_value :: "nat \<Rightarrow> string \<Rightarrow> nat" where
  "dec_value acc [] = acc"
| "dec_value acc (c # cs) = dec_value (10 * acc + (of_char c - 48)) cs"

text \<open>\<open>strconv.ParseUint(s, 10, 64)\<close>: no sign, no underscore, no overflow.\<close>

definition parse_uint64 :: "string \<Rightarrow> u64 option" where
  "parse_uint64 s =
     (if s \<noteq> [] \<and> list_all is_dec_digit s \<and> dec_value 0 s < 2 ^ 64
      then Some (of_nat (dec_value 0 s)) else None)"

text \<open>\<open>strconv.ParseInt(s, 10, 64)\<close>, which \<open>strconv.Atoi\<close> is on a 64-bit platform.\<close>

definition parse_int64 :: "string \<Rightarrow> int option" where
  "parse_int64 s =
     (case s of
        [] \<Rightarrow> None
      | c # cs \<Rightarrow>
          (let neg = (c = CHR ''-'');
               digits = (if c = CHR ''+'' \<or> c = CHR ''-'' then cs else s) in
           case parse_uint64 digits of
             None \<Rightarrow> None
           | Some u \<Rightarrow>
               (if \<not> neg \<and> 2 ^ 63 \<le> uint u then None
                else if neg \<and> 2 ^ 63 < uint u then None
                else Some (if neg then - uint u else uint u))))"

section \<open>Unicode\<close>

text \<open>\<open>utf8.EncodeRune\<close>, as \<open>WriteRune\<close> and \<open>string(runes)\<close> use it.\<close>

definition utf8_encode :: "int \<Rightarrow> string" where
  "utf8_encode r0 =
     (let r = (if r0 < 0 \<or> 0x10FFFF < r0 \<or> (0xD800 \<le> r0 \<and> r0 < 0xE000) then 0xFFFD else r0) in
      if r < 0x80 then [char_of r]
      else if r < 0x800 then [char_of (0xC0 + r div 64), char_of (0x80 + r mod 64)]
      else if r < 0x10000
        then [char_of (0xE0 + r div 4096), char_of (0x80 + r div 64 mod 64), char_of (0x80 + r mod 64)]
      else [char_of (0xF0 + r div 262144), char_of (0x80 + r div 4096 mod 64),
            char_of (0x80 + r div 64 mod 64), char_of (0x80 + r mod 64)])"

text \<open>\<open>utf16.Decode\<close>\<close>

fun utf16_runes :: "int list \<Rightarrow> int list" where
  "utf16_runes [] = []"
| "utf16_runes [u] = [if 0xD800 \<le> u \<and> u < 0xE000 then 0xFFFD else u]"
| "utf16_runes (u # v # us) =
     (if u < 0xD800 \<or> 0xE000 \<le> u then u # utf16_runes (v # us)
      else if u < 0xDC00 \<and> 0xDC00 \<le> v \<and> v < 0xE000
        then ((u - 0xD800) * 1024 + (v - 0xDC00) + 0x10000) # utf16_runes us
      else 0xFFFD # utf16_runes (v # us))"

section \<open>Paths\<close>

text \<open>\<open>path/filepath\<close> on Unix: \<open>Clean\<close>, \<open>Dir\<close>, \<open>Base\<close>, \<open>Ext\<close>, \<open>Join\<close>.\<close>

fun clean_components :: "bool \<Rightarrow> string list \<Rightarrow> string list \<Rightarrow> string list" where
  "clean_components rooted out [] = rev out"
| "clean_components rooted out (c # cs) =
     (if c = [] \<or> c = ''.'' then clean_components rooted out cs
      else if c = ''..'' then
        (case out of
           [] \<Rightarrow> clean_components rooted (if rooted then [] else [''..'']) cs
         | d # ds \<Rightarrow> clean_components rooted (if d = ''..'' then ''..'' # d # ds else ds) cs)
      else clean_components rooted (c # out) cs)"

definition path_clean :: "string \<Rightarrow> string" where
  "path_clean p =
     (let rooted = (p \<noteq> [] \<and> hd p = CHR ''/'');
          body = join_strings ''/'' (clean_components rooted [] (split_on (CHR ''/'') p)) in
      if rooted then CHR ''/'' # body else if body = [] then ''.'' else body)"

definition after_last_slash :: "string \<Rightarrow> string" where
  "after_last_slash p = rev (takeWhile (\<lambda>c. c \<noteq> CHR ''/'') (rev p))"

definition path_dir :: "string \<Rightarrow> string" where
  "path_dir p = path_clean (take (length p - length (after_last_slash p)) p)"

definition path_base :: "string \<Rightarrow> string" where
  "path_base p =
     (if p = [] then ''.''
      else let q = rev (dropWhile (\<lambda>c. c = CHR ''/'') (rev p)) in
           if q = [] then ''/'' else after_last_slash q)"

definition path_ext :: "string \<Rightarrow> string" where
  "path_ext p =
     (let in_ext = (\<lambda>c. c \<noteq> CHR ''.'' \<and> c \<noteq> CHR ''/'') in
      case dropWhile in_ext (rev p) of
        [] \<Rightarrow> []
      | c # _ \<Rightarrow> if c = CHR ''.'' then CHR ''.'' # rev (takeWhile in_ext (rev p)) else [])"

definition path_join :: "string \<Rightarrow> string \<Rightarrow> string" where
  "path_join d n =
     (if d \<noteq> [] then path_clean (d @ ''/'' @ n) else if n \<noteq> [] then path_clean n else [])"

text \<open>\<open>strings.TrimSuffix\<close>\<close>

definition trim_suffix :: "string \<Rightarrow> string \<Rightarrow> string" where
  "trim_suffix s t = (if suffix t s then take (length s - length t) s else s)"

lemma trim_suffix_append [simp]: "trim_suffix (s @ t) t = s"
  by (simp add: trim_suffix_def suffix_def)

lemma suffix_path_ext: "suffix (path_ext p) p"
proof -
  let ?P = "\<lambda>c. c \<noteq> CHR ''.'' \<and> c \<noteq> CHR ''/''"
  have split: "rev p = takeWhile ?P (rev p) @ dropWhile ?P (rev p)"
    by simp
  show ?thesis
  proof (cases "dropWhile ?P (rev p)")
    case Nil
    then show ?thesis unfolding path_ext_def Let_def Nil by simp
  next
    case (Cons c cs)
    with split have "rev (rev p) = rev (takeWhile ?P (rev p) @ c # cs)"
      by metis
    then have "p = rev cs @ c # rev (takeWhile ?P (rev p))"
      by simp
    then show ?thesis
      unfolding path_ext_def Let_def Cons by (auto simp: suffix_def)
  qed
qed

lemma stem_ext: "trim_suffix p (path_ext p) @ path_ext p = p"
proof -
  obtain zs where zs: "p = zs @ path_ext p"
    using suffix_path_ext [of p] by (auto simp: suffix_def)
  then have "trim_suffix p (path_ext p) = zs"
    by (metis trim_suffix_append)
  with zs show ?thesis by simp
qed

end
