(* ===== verification/Section_Chain.thy ===== *)
theory Section_Chain
  imports Ewf_Types Go_Text
begin

text \<open>
  \<open>reader/sections.go\<close>: reading one section descriptor, and walking the descriptor
  chain of a segment, forwards from offset 13 for EWF v1 and backwards from the end
  of the file for EWF v2. The loops are bounded by \<open>1 << 16\<close> iterations in the code,
  which is the count the recursive functions run down from.
\<close>

record section_info =
  si_offset :: int
  si_descriptor_size :: u32
  si_type :: u32
  si_type_string :: string
  si_data_flags :: u32
  si_size :: u64
  si_data_offset :: int
  si_data_size :: u64
  si_padding_size :: u32

definition section_descriptor_v1_size :: int where
  [go_defs]: "section_descriptor_v1_size = 76"
definition section_descriptor_v2_size :: int where
  [go_defs]: "section_descriptor_v2_size = 64"

section \<open>Section types and names\<close>

definition parse_type_string :: "bytes \<Rightarrow> string" where
  "parse_type_string raw = trim_space (string_of_bytes (takeWhile (\<lambda>b. b \<noteq> 0) raw))"

definition map_v1_type_string :: "string \<Rightarrow> u32" where
  "map_v1_type_string s =
     (if s = ''next'' then section_code NextSection
      else if s = ''done'' then section_code DoneSection
      else if s = ''table'' \<or> s = ''table2'' then section_code SectorTable
      else if s = ''sectors'' then section_code SectorData
      else if s = ''error'' \<or> s = ''error2'' then section_code ErrorTable
      else if s = ''session'' then section_code SessionTable
      else if s = ''digest'' \<or> s = ''hash'' then section_code MD5Hash
      else if s = ''disk'' \<or> s = ''volume'' \<or> s = ''data'' then section_code DeviceInformation
      else 0)"

definition map_section_type_to_string :: "u32 \<Rightarrow> string" where
  "map_section_type_to_string t =
     (if t = section_code DeviceInformation then ''device_information''
      else if t = section_code CaseData then ''case_data''
      else if t = section_code SectorData then ''sector_data''
      else if t = section_code SectorTable then ''sector_table''
      else if t = section_code ErrorTable then ''error_table''
      else if t = section_code SessionTable then ''session_table''
      else if t = section_code IncrementData then ''increment_data''
      else if t = section_code MD5Hash then ''md5_hash''
      else if t = section_code SHA1Hash then ''sha1_hash''
      else if t = section_code RestartData then ''restart_data''
      else if t = section_code EncryptionKeys then ''encryption_keys''
      else if t = section_code MemoryExtents then ''memory_extents''
      else if t = section_code NextSection then ''next''
      else if t = section_code FinalInformation then ''final_information''
      else if t = section_code DoneSection then ''done''
      else if t = section_code AnalyticalData then ''analytical_data''
      else if t = section_code SingleFilesData then ''single_files_data''
      else ''unknown'')"

definition terminal_section :: "section_info \<Rightarrow> bool" where
  "terminal_section s \<longleftrightarrow> si_type s = section_code NextSection \<or> si_type s = section_code DoneSection"

section \<open>Reading a descriptor\<close>

definition raw_descriptor_v1 :: "bytes \<Rightarrow> section_descriptor_v1" where
  "raw_descriptor_v1 data =
     \<lparr>sd1_type_string = subslice data 0 16, sd1_next_offset = subslice data 16 24,
      sd1_size = subslice data 24 32, sd1_padding = subslice data 32 72,
      sd1_checksum = subslice data 72 76\<rparr>"

definition section_of_raw_v1 :: "int \<Rightarrow> section_descriptor_v1 \<Rightarrow> section_info" where
  "section_of_raw_v1 offset raw =
     (let next_offset = sd1_next_offset_value raw LittleEndian;
          stored_size = sd1_size_value raw LittleEndian;
          section_size = (if stored_size = 0 \<and> uint64_of offset < next_offset
                          then next_offset - uint64_of offset else stored_size);
          data_size = (if 76 \<le> section_size then section_size - 76 else 0);
          type_string = parse_type_string (sd1_type_string raw) in
      \<lparr>si_offset = offset, si_descriptor_size = 76,
       si_type = map_v1_type_string type_string, si_type_string = type_string,
       si_data_flags = 0, si_size = section_size,
       si_data_offset = i64 (offset + section_descriptor_v1_size),
       si_data_size = data_size, si_padding_size = 0\<rparr>)"

definition read_section_descriptor_v1 :: "io_source \<Rightarrow> int \<Rightarrow> gerr + section_info" where
  "read_section_descriptor_v1 src offset =
     (case read_slice src offset section_descriptor_v1_size of
        Inl e \<Rightarrow> Inl e
      | Inr data \<Rightarrow> Inr (section_of_raw_v1 offset (raw_descriptor_v1 data)))"

definition raw_descriptor_v2 :: "bytes \<Rightarrow> section_descriptor_v2" where
  "raw_descriptor_v2 data =
     \<lparr>sd2_type = subslice data 0 4, sd2_data_flags = subslice data 4 8,
      sd2_previous_offset = subslice data 8 16, sd2_data_size = subslice data 16 24,
      sd2_descriptor_size = subslice data 24 28, sd2_padding_size = subslice data 28 32,
      sd2_data_integrity_hash = subslice data 32 48, sd2_padding = subslice data 48 60,
      sd2_checksum = subslice data 60 64\<rparr>"

definition section_of_raw_v2 :: "int \<Rightarrow> section_descriptor_v2 \<Rightarrow> gerr + section_info" where
  "section_of_raw_v2 offset raw =
     (let previous_offset = sd2_previous_offset_value raw LittleEndian;
          typ = sd2_type_value raw LittleEndian;
          result = (\<lambda>data_offset section_size.
            \<lparr>si_offset = offset, si_descriptor_size = 64,
             si_type = typ, si_type_string = map_section_type_to_string typ,
             si_data_flags = sd2_data_flags_value raw LittleEndian, si_size = section_size,
             si_data_offset = data_offset, si_data_size = sd2_data_size_value raw LittleEndian,
             si_padding_size = sd2_padding_size_value raw LittleEndian\<rparr>) in
      if previous_offset = 0 then Inr (result 32 (uint64_of offset + 32))
      else if uint64_of offset < previous_offset then Inl (Plain ''reader: invalid previous offset'')
      else Inr (result (i64 (int64_of previous_offset + section_descriptor_v2_size))
                       (uint64_of offset - previous_offset)))"

definition read_section_descriptor_v2 :: "io_source \<Rightarrow> int \<Rightarrow> gerr + section_info" where
  "read_section_descriptor_v2 src offset =
     (case read_slice src offset section_descriptor_v2_size of
        Inl e \<Rightarrow> Inl e
      | Inr data \<Rightarrow> section_of_raw_v2 offset (raw_descriptor_v2 data))"

lemma si_offset_v1: "read_section_descriptor_v1 src offset = Inr d \<Longrightarrow> si_offset d = offset"
  by (auto simp: read_section_descriptor_v1_def section_of_raw_v1_def Let_def split: sum.splits)

lemma si_offset_v2: "read_section_descriptor_v2 src offset = Inr d \<Longrightarrow> si_offset d = offset"
  by (auto simp: read_section_descriptor_v2_def section_of_raw_v2_def Let_def
           split: sum.splits if_splits)

section \<open>Walking the chain\<close>

definition max_sections :: int where
  "max_sections = 65536"

definition next_offset_v1 :: "section_info \<Rightarrow> int" where
  "next_offset_v1 d = i64 (si_offset d + int64_of (si_size d))"

function walk_v1 :: "int \<Rightarrow> io_source \<Rightarrow> int \<Rightarrow> section_info list \<Rightarrow> gerr + section_info list" where
  "walk_v1 n src offset acc =
     (if n \<le> 0 then Inl (Plain ''reader: missing next or done section in v1 descriptor chain'')
      else case read_section_descriptor_v1 src offset of
             Inl e \<Rightarrow>
               Inl (Wrapped (if acc = [] then ''reader: unable to read first v1 section descriptor''
                             else ''reader: unable to read v1 section descriptor'') e)
           | Inr d \<Rightarrow>
               (if terminal_section d then Inr (acc @ [d])
                else walk_v1 (n - 1) src (i64 (offset + int64_of (si_size d))) (acc @ [d])))"
  by pat_completeness auto
termination by (relation "measure (\<lambda>(n, src, offset, acc). nat n)") auto

declare walk_v1.simps [simp del]

definition parse_sections_v1 :: "io_source \<Rightarrow> gerr + section_info list" where
  "parse_sections_v1 src = walk_v1 max_sections src 13 []"

function walk_v2 ::
  "int \<Rightarrow> io_source \<Rightarrow> int \<Rightarrow> int \<Rightarrow> section_info list \<Rightarrow> bool \<Rightarrow> gerr + section_info list \<times> bool" where
  "walk_v2 n src file_size offset acc found =
     (if n \<le> 0 \<or> \<not> (0 < offset \<and> offset < file_size) then Inr (acc, found)
      else case read_section_descriptor_v2 src offset of
             Inl e \<Rightarrow> Inl (Wrapped ''reader: unable to read v2 section descriptor'' e)
           | Inr d \<Rightarrow>
               walk_v2 (n - 1) src file_size (i64 (offset - int64_of (si_size d))) (acc @ [d])
                 (found \<or> length (acc @ [d]) = 1 \<and> terminal_section d))"
  by pat_completeness auto
termination by (relation "measure (\<lambda>(n, src, file_size, offset, acc, found). nat n)") auto

declare walk_v2.simps [simp del]

text \<open>\<open>reverseSections\<close> swaps in place from both ends.\<close>

function swap_ends :: "nat \<Rightarrow> nat \<Rightarrow> 'a list \<Rightarrow> 'a list" where
  "swap_ends i j xs = (if i < j then swap_ends (i + 1) (j - 1) (xs[i := xs ! j, j := xs ! i]) else xs)"
  by pat_completeness auto
termination by (relation "measure (\<lambda>(i, j, xs). j - i)") auto

declare swap_ends.simps [simp del]

definition reverse_sections :: "'a list \<Rightarrow> 'a list" where
  "reverse_sections xs = swap_ends 0 (length xs - 1) xs"

definition parse_sections_v2 :: "io_source \<Rightarrow> gerr + section_info list" where
  "parse_sections_v2 src =
     (case source_size src of
        Inl e \<Rightarrow> Inl (Wrapped ''reader: unable to determine v2 segment size'' e)
      | Inr file_size \<Rightarrow>
          (if file_size < section_descriptor_v2_size
           then Inl (Plain ''reader: v2 segment file too small'')
           else case walk_v2 max_sections src file_size (file_size - section_descriptor_v2_size) [] False of
                  Inl e \<Rightarrow> Inl e
                | Inr (sections, found) \<Rightarrow>
                    (if \<not> found
                     then Inl (Plain ''reader: missing next or done section in v2 descriptor chain'')
                     else Inr (reverse_sections sections))))"

definition parse_section_descriptors :: "io_source \<Rightarrow> u8 \<Rightarrow> gerr + section_info list" where
  "parse_section_descriptors src major_version =
     (if major_version = 1 then parse_sections_v1 src
      else if major_version = 2 then parse_sections_v2 src
      else Inl (Plain ''reader: unsupported major version for sections''))"

section \<open>The reversal loop\<close>

lemma swap_ends_nth:
  "j < length xs \<Longrightarrow> k < length xs \<Longrightarrow>
   swap_ends i j xs ! k = (if i \<le> k \<and> k \<le> j then xs ! (i + j - k) else xs ! k)"
proof (induction i j xs rule: swap_ends.induct)
  case (1 i j xs)
  show ?case
  proof (cases "i < j")
    case True
    let ?ys = "xs[i := xs ! j, j := xs ! i]"
    have IH: "swap_ends (i + 1) (j - 1) ?ys ! k =
        (if i + 1 \<le> k \<and> k \<le> j - 1 then ?ys ! (i + 1 + (j - 1) - k) else ?ys ! k)"
      using "1.IH" [OF True] "1.prems" by simp
    have "swap_ends i j xs = swap_ends (i + 1) (j - 1) ?ys"
      using True by (subst swap_ends.simps) simp
    with IH True "1.prems" show ?thesis
      by (auto simp: nth_list_update)
  next
    case False
    then have "swap_ends i j xs = xs" by (subst swap_ends.simps) simp
    moreover have "i + j - k = k" if "i \<le> k" "k \<le> j" using that False by arith
    ultimately show ?thesis by simp
  qed
qed

lemma length_swap_ends [simp, len_simps]: "length (swap_ends i j xs) = length xs"
proof (induction i j xs rule: swap_ends.induct)
  case (1 i j xs)
  then show ?case by (subst swap_ends.simps) simp
qed

lemma reverse_sections_rev: "reverse_sections xs = rev xs"
proof (cases "xs = []")
  case True
  then show ?thesis by (simp add: reverse_sections_def swap_ends.simps)
next
  case False
  then have "length xs - 1 < length xs" by simp
  then show ?thesis
    unfolding reverse_sections_def
    by (intro nth_equalityI) (auto simp: swap_ends_nth rev_nth)
qed

section \<open>The v1 chain\<close>

text \<open>
  The chain the code follows: the descriptor at an offset, then the one at the sum of
  its offset and size, up to the first \<open>next\<close> or \<open>done\<close> section.
\<close>

inductive v1_chain :: "io_source \<Rightarrow> int \<Rightarrow> section_info list \<Rightarrow> bool" for src where
  v1_last: "read_section_descriptor_v1 src off = Inr d \<Longrightarrow> terminal_section d \<Longrightarrow>
     v1_chain src off [d]"
| v1_step: "read_section_descriptor_v1 src off = Inr d \<Longrightarrow> \<not> terminal_section d \<Longrightarrow>
     v1_chain src (next_offset_v1 d) ds \<Longrightarrow> v1_chain src off (d # ds)"

inductive_simps v1_chain_unfold: "v1_chain src off ds"
inductive_simps v1_chain_Nil [simp]: "v1_chain src off []"

lemma v1_chain_error: "read_section_descriptor_v1 src off = Inl e \<Longrightarrow> \<not> v1_chain src off ds"
  by (simp add: v1_chain_unfold [of src off])

lemma v1_chain_terminal:
  "read_section_descriptor_v1 src off = Inr d \<Longrightarrow> terminal_section d \<Longrightarrow>
   v1_chain src off ds \<longleftrightarrow> ds = [d]"
  by (auto simp: v1_chain_unfold [of src off])

lemma v1_chain_inner:
  "read_section_descriptor_v1 src off = Inr d \<Longrightarrow> \<not> terminal_section d \<Longrightarrow>
   v1_chain src off ds \<longleftrightarrow> (\<exists>es. ds = d # es \<and> v1_chain src (next_offset_v1 d) es)"
  by (auto simp: v1_chain_unfold [of src off])

lemmas v1_chain_cases = v1_chain_error v1_chain_terminal v1_chain_inner

lemma walk_v1_chain:
  "walk_v1 n src off acc = Inr ss \<longleftrightarrow> (\<exists>ds. ss = acc @ ds \<and> int (length ds) \<le> n \<and> v1_chain src off ds)"
proof (induction "nat n" arbitrary: n off acc)
  case 0
  then have "\<not> (int (length ds) \<le> n \<and> v1_chain src off ds)" for ds
    by (cases ds) auto
  with 0 show ?case by (auto simp: walk_v1.simps [of n])
next
  case (Suc k)
  then have n: "0 < n" "k = nat (n - 1)" by auto
  show ?case
  proof (cases "read_section_descriptor_v1 src off")
    case (Inl e)
    then show ?thesis
      using n by (simp add: walk_v1.simps [of n src off] v1_chain_error)
  next
    case (Inr d)
    show ?thesis
    proof (cases "terminal_section d")
      case True
      with Inr n show ?thesis
        by (auto simp: walk_v1.simps [of n src off] v1_chain_terminal)
    next
      case False
      have "walk_v1 n src off acc = walk_v1 (n - 1) src (next_offset_v1 d) (acc @ [d])"
        using Inr False n
        by (simp add: walk_v1.simps [of n src off] next_offset_v1_def si_offset_v1 [OF Inr])
      then show ?thesis
        using Inr False Suc.hyps(1) [OF n(2)] by (auto simp: v1_chain_inner)
    qed
  qed
qed

text \<open>
  C28. Reading the descriptors of an EWF v1 segment succeeds exactly when the chain that
  starts at offset 13 reaches a \<open>next\<close> or \<open>done\<close> section within 65536 descriptors, and
  the value is that chain: every inner descriptor is not terminal, the last one is, and
  each is read at the sum of its predecessor's offset and size.
\<close>

theorem parse_sections_v1_iff:
  "parse_sections_v1 src = Inr ss \<longleftrightarrow> v1_chain src 13 ss \<and> length ss \<le> 65536"
  by (auto simp: parse_sections_v1_def max_sections_def walk_v1_chain)

section \<open>The v2 chain\<close>

definition previous_offset_v2 :: "section_info \<Rightarrow> int" where
  "previous_offset_v2 d = i64 (si_offset d - int64_of (si_size d))"

text \<open>Where the backward walk goes from a descriptor: to the one it links to, or out.\<close>

lemma previous_offset_v2_cases:
  assumes "read_section_descriptor_v2 src off = Inr d" "0 < off" "is_i64 off"
  shows "previous_offset_v2 d = - 32 \<or> 0 < previous_offset_v2 d \<and> previous_offset_v2 d \<le> off"
proof -
  have u: "uint (uint64_of off) = off" using assms by (intro uint_uint64_of) auto
  from assms obtain raw where s: "section_of_raw_v2 off raw = Inr d"
    by (auto simp: read_section_descriptor_v2_def split: sum.splits)
  define p where "p = sd2_previous_offset_value raw LittleEndian"
  show ?thesis
  proof (cases "p = 0")
    case True
    with s have d: "si_size d = uint64_of off + 32" "si_offset d = off"
      by (auto simp: section_of_raw_v2_def Let_def p_def)
    have "uint (uint64_of off + 32) = off + 32"
      using assms u by (simp add: uint_plus_if' is_i64_def max_int64_def)
    then have "int64_of (si_size d) = i64 (off + 32)"
      by (simp add: int64_of_def d)
    then have "previous_offset_v2 d = i64 (off - i64 (off + 32))"
      by (simp add: previous_offset_v2_def d)
    also have "\<dots> = - 32"
      by (simp add: i64_def) (simp add: mod_simps)
    finally show ?thesis ..
  next
    case False
    with s have le: "p \<le> uint64_of off" and d: "si_size d = uint64_of off - p" "si_offset d = off"
      by (auto simp: section_of_raw_v2_def Let_def p_def [symmetric] split: if_splits)
    have pp: "0 < uint p" "uint p \<le> off"
      using False le u by (simp_all add: word_le_def word_neq_0_conv [symmetric] order_less_le uint_0_iff)
    have sz: "uint (si_size d) = off - uint p"
      using le u by (simp add: d uint_sub_if' word_le_def)
    then have "int64_of (si_size d) = off - uint p"
      using assms pp by (intro trans [OF int64_of_small]) (auto simp: is_i64_def max_int64_def)
    then have "previous_offset_v2 d = i64 (uint p)"
      by (simp add: previous_offset_v2_def d)
    also have "\<dots> = uint p"
      using pp assms by (intro i64_id) (auto simp: is_i64_def)
    finally show ?thesis using pp by simp
  qed
qed

text \<open>The descriptors a backward walk of at most \<open>n\<close> steps visits, last one of the file first.\<close>

inductive v2_walk :: "io_source \<Rightarrow> int \<Rightarrow> int \<Rightarrow> int \<Rightarrow> section_info list \<Rightarrow> bool" for src file_size where
  v2_stop: "n \<le> 0 \<or> \<not> (0 < off \<and> off < file_size) \<Longrightarrow> v2_walk src file_size n off []"
| v2_step: "0 < n \<Longrightarrow> 0 < off \<Longrightarrow> off < file_size \<Longrightarrow> read_section_descriptor_v2 src off = Inr d \<Longrightarrow>
     v2_walk src file_size (n - 1) (previous_offset_v2 d) ds \<Longrightarrow> v2_walk src file_size n off (d # ds)"

inductive_simps v2_walk_unfold: "v2_walk src fs n off ds"

lemma walk_v2_walk:
  "walk_v2 n src fs off acc found = Inr (ss, f) \<longleftrightarrow>
     (\<exists>ds. ss = acc @ ds \<and> v2_walk src fs n off ds \<and>
           f = (found \<or> acc = [] \<and> ds \<noteq> [] \<and> terminal_section (hd ds)))"
proof (induction "nat n" arbitrary: n off acc found)
  case 0
  then show ?case by (auto simp: walk_v2.simps [of n] v2_walk_unfold [of src fs n])
next
  case (Suc k)
  then have n: "0 < n" "k = nat (n - 1)" by auto
  show ?case
  proof (cases "0 < off \<and> off < fs")
    case False
    then show ?thesis by (auto simp: walk_v2.simps [of n src fs off] v2_walk_unfold [of src fs n off])
  next
    case inside: True
    show ?thesis
    proof (cases "read_section_descriptor_v2 src off")
      case (Inl e)
      with inside n show ?thesis
        by (simp add: walk_v2.simps [of n src fs off] v2_walk_unfold [of src fs n off])
    next
      case (Inr d)
      have "walk_v2 n src fs off acc found =
          walk_v2 (n - 1) src fs (previous_offset_v2 d) (acc @ [d]) (found \<or> acc = [] \<and> terminal_section d)"
        using Inr inside n
        by (simp add: walk_v2.simps [of n src fs off] previous_offset_v2_def si_offset_v2 [OF Inr])
      then show ?thesis
        using Inr inside n Suc.hyps(1) [OF n(2)] by (auto simp: v2_walk_unfold [of src fs n off])
    qed
  qed
qed

lemma v2_walk_offsets:
  "v2_walk src fs n off ds \<Longrightarrow> is_i64 off \<Longrightarrow>
     sorted_wrt (\<ge>) (map si_offset ds) \<and>
     (\<forall>d \<in> set ds. 0 < si_offset d \<and> si_offset d \<le> off \<and> si_offset d < fs \<and>
        read_section_descriptor_v2 src (si_offset d) = Inr d)"
proof (induction rule: v2_walk.induct)
  case (v2_stop n off)
  then show ?case by simp
next
  case (v2_step n off d ds)
  have o: "si_offset d = off" using v2_step.hyps by (intro si_offset_v2)
  have "previous_offset_v2 d \<le> off"
    using previous_offset_v2_cases [OF v2_step.hyps(4,2) v2_step.prems] v2_step.hyps(2) by auto
  moreover have "is_i64 (previous_offset_v2 d)" by (simp add: previous_offset_v2_def)
  ultimately show ?case using v2_step.IH v2_step.hyps o by (force intro: order_trans)
qed

lemma v2_walk_length: "v2_walk src fs n off ds \<Longrightarrow> length ds \<le> nat n"
  by (induction rule: v2_walk.induct) auto

lemma v2_walk_hd: "v2_walk src fs n off ds \<Longrightarrow> ds \<noteq> [] \<Longrightarrow> si_offset (hd ds) = off"
  by (induction rule: v2_walk.induct) (auto simp: si_offset_v2)

lemma v2_walk_linked:
  "v2_walk src fs n off ds \<Longrightarrow> Suc i < length ds \<Longrightarrow>
     si_offset (ds ! Suc i) = previous_offset_v2 (ds ! i)"
proof (induction arbitrary: i rule: v2_walk.induct)
  case (v2_step n off d ds)
  show ?case
  proof (cases i)
    case 0
    with v2_step.prems v2_walk_hd [OF v2_step.hyps(5)] show ?thesis
      by (cases ds) auto
  next
    case (Suc k)
    with v2_step show ?thesis by simp
  qed
qed simp

text \<open>
  C30. The descriptors of an EWF v2 segment, when reading them succeeds: the last one is
  the terminal descriptor in the last 64 bytes of the file, offsets do not decrease and
  stay inside the file, every element is the descriptor stored at its offset, and each
  one is the predecessor its successor links to.
\<close>

theorem parse_sections_v2_sound:
  assumes parse: "parse_sections_v2 src = Inr ss" and size: "source_size src = Inr fs"
    and fs: "is_i64 fs"
  shows "ss \<noteq> [] \<and> length ss \<le> 65536
    \<and> terminal_section (last ss) \<and> si_offset (last ss) = fs - 64
    \<and> sorted (map si_offset ss)
    \<and> (\<forall>d \<in> set ss. 0 < si_offset d \<and> si_offset d \<le> fs - 64 \<and>
         read_section_descriptor_v2 src (si_offset d) = Inr d)
    \<and> (\<forall>i. Suc i < length ss \<longrightarrow> si_offset (ss ! i) = previous_offset_v2 (ss ! Suc i))"
proof -
  from parse size obtain ds where ge: "64 \<le> fs" and w: "v2_walk src fs 65536 (fs - 64) ds"
    and ne: "ds \<noteq> []" and t: "terminal_section (hd ds)" and ss: "ss = rev ds"
    by (auto simp: parse_sections_v2_def section_descriptor_v2_size_def max_sections_def
          walk_v2_walk reverse_sections_rev split: if_splits sum.splits prod.splits)
  have "is_i64 (fs - 64)" using fs ge by (simp add: is_i64_def)
  note offs = v2_walk_offsets [OF w this]
  have "si_offset (ss ! i) = previous_offset_v2 (ss ! Suc i)" if "Suc i < length ss" for i
  proof -
    let ?k = "length ds - Suc (Suc i)"
    have "Suc ?k < length ds" and "Suc ?k = length ds - Suc i" using that ss by simp_all
    with v2_walk_linked [OF w, of ?k] show ?thesis
      using that by (simp add: ss rev_nth)
  qed
  moreover have "sorted (map si_offset ss)"
    using offs by (simp add: ss rev_map [symmetric] sorted_wrt_rev)
  ultimately show ?thesis
    using offs ne t v2_walk_length [OF w] v2_walk_hd [OF w ne] by (auto simp: ss last_rev)
qed

definition encode_descriptor_v2 :: "u32 \<Rightarrow> u32 \<Rightarrow> u64 \<Rightarrow> u64 \<Rightarrow> u32 \<Rightarrow> bytes" where
  "encode_descriptor_v2 typ flags previous data_size padding =
     (let body = put32 typ @ put32 flags @ put64 previous @ put64 data_size @ put32 64 @ put32 padding
                 @ replicate 28 0 in
      body @ put32 (adler32 body))"

theorem parse_sections_v2_sound_witness:
  "let src = bytes_source (replicate 32 0 @ encode_descriptor_v2 0x0f 0 0 0 0) in
   \<exists>ss. parse_sections_v2 src = Inr ss \<and> si_offset (last ss) = 32 \<and> sorted (map si_offset ss)"
proof -
  let ?src = "bytes_source (replicate 32 0 @ encode_descriptor_v2 0x0f 0 0 0 0)"
  have "\<not> isl (parse_sections_v2 ?src)" and size: "source_size ?src = Inr 96" by code_simp+
  then obtain ss where ss: "parse_sections_v2 ?src = Inr ss" by (cases "parse_sections_v2 ?src") auto
  from parse_sections_v2_sound [OF ss size] ss show ?thesis
    by (auto simp: is_i64_def max_int64_def Let_def)
qed

text \<open>
  A descriptor that links to itself is not refused: the walk visits it again until the
  iteration bound ends it.
\<close>

lemma v2_self_link:
  assumes "read_section_descriptor_v2 src off = Inr d" "previous_offset_v2 d = off"
    and "0 < off" "off < file_size"
  shows "v2_walk src file_size (int n) off (replicate n d)"
proof (induction n)
  case 0
  show ?case by (simp add: v2_walk.v2_stop)
next
  case (Suc n)
  with assms show ?case by (auto intro: v2_walk.v2_step)
qed

section \<open>Stored descriptors are read back\<close>

definition encode_descriptor_v1 :: "string \<Rightarrow> u64 \<Rightarrow> u64 \<Rightarrow> bytes" where
  "encode_descriptor_v1 name next_offset sz =
     (let body = fill_buf 16 (bytes_of_string name) @ put64 next_offset @ put64 sz @ replicate 40 0 in
      body @ put32 (adler32 body))"

lemma length_encode_descriptor_v1 [simp, len_simps]: "length (encode_descriptor_v1 name nxt sz) = 76"
  by (simp add: encode_descriptor_v1_def Let_def)

lemma raw_encode_descriptor_v1:
  "sd1_type_string (raw_descriptor_v1 (encode_descriptor_v1 name nxt sz)) = fill_buf 16 (bytes_of_string name)"
  "sd1_next_offset (raw_descriptor_v1 (encode_descriptor_v1 name nxt sz)) = put64 nxt"
  "sd1_size (raw_descriptor_v1 (encode_descriptor_v1 name nxt sz)) = put64 sz"
  by (simp_all add: raw_descriptor_v1_def encode_descriptor_v1_def Let_def subslice_split)

lemma bytes_of_string_no_nul: "CHR 0x00 \<notin> set s \<Longrightarrow> 0 \<notin> set (bytes_of_string s)"
proof -
  have char_byte_0: "char_byte 0 = CHR 0x00" by code_simp
  have "byte_char c = 0 \<Longrightarrow> c = CHR 0x00" for c
    using char_byte_byte_char [of c] char_byte_0 by simp
  then show "CHR 0x00 \<notin> set s \<Longrightarrow> 0 \<notin> set (bytes_of_string s)"
    by (auto simp: bytes_of_string_def)
qed

lemma parse_type_string_padded:
  assumes "length name \<le> k" "CHR 0x00 \<notin> set name"
  shows "parse_type_string (fill_buf k (bytes_of_string name)) = trim_space name"
proof -
  have "takeWhile (\<lambda>b. b \<noteq> 0) (bytes_of_string name @ replicate m 0) = bytes_of_string name" for m
  proof -
    have "\<forall>b \<in> set (bytes_of_string name). b \<noteq> 0"
      using bytes_of_string_no_nul [OF assms(2)] by blast
    then show ?thesis by (subst takeWhile_append2) (simp_all add: takeWhile_eq_Nil_iff)
  qed
  then show ?thesis
    using assms by (simp add: parse_type_string_def fill_buf_def)
qed

lemma read_encode_descriptor_v1:
  assumes name: "length name \<le> 16" "CHR 0x00 \<notin> set name"
    and sz: "76 \<le> sz" and pre: "length pre < 1000000000000"
  shows "read_section_descriptor_v1 (bytes_source (pre @ encode_descriptor_v1 name nxt sz @ post))
      (int (length pre)) =
    Inr \<lparr>si_offset = int (length pre), si_descriptor_size = 76,
         si_type = map_v1_type_string (trim_space name), si_type_string = trim_space name,
         si_data_flags = 0, si_size = sz, si_data_offset = int (length pre) + 76,
         si_data_size = sz - 76, si_padding_size = 0\<rparr>"
proof -
  let ?d = "encode_descriptor_v1 name nxt sz"
  have r: "read_slice (bytes_source (pre @ ?d @ post)) (int (length pre)) 76 = Inr ?d"
    by (intro read_slice_mid) (simp_all add: max_read_size_def)
  have "sz \<noteq> 0" using sz by auto
  then show ?thesis
    using pre sz parse_type_string_padded [OF name]
    by (simp add: read_section_descriptor_v1_def section_descriptor_v1_size_def r
          section_of_raw_v1_def raw_encode_descriptor_v1 go_defs Let_def i64_nonneg_id)
qed

text \<open>
  A v1 section descriptor written with a type name, a next offset and a non-zero size,
  wherever it lies in a file, is read back with that name (trimmed), the type code of the
  name, the size, and a body that follows the 76 bytes of the descriptor.
\<close>

theorem descriptor_v1_roundtrip:
  assumes name: "length name \<le> 16" "CHR 0x00 \<notin> set name"
    and sz: "76 \<le> sz" and pre: "length pre < 1000000000000"
  shows "read_section_descriptor_v1 (bytes_source (pre @ encode_descriptor_v1 name nxt sz @ post))
      (int (length pre)) =
    Inr \<lparr>si_offset = int (length pre), si_descriptor_size = 76,
         si_type = map_v1_type_string (trim_space name), si_type_string = trim_space name,
         si_data_flags = 0, si_size = sz, si_data_offset = int (length pre) + 76,
         si_data_size = sz - 76, si_padding_size = 0\<rparr>"
  using assms by (rule read_encode_descriptor_v1)

theorem descriptor_v1_roundtrip_witness:
  "si_type_string (projr (read_section_descriptor_v1
     (bytes_source (replicate 13 0 @ encode_descriptor_v1 ''volume'' 0 170 @ [])) 13)) = ''volume''"
proof -
  have t: "trim_space ''volume'' = ''volume''" by code_simp
  show ?thesis
    using descriptor_v1_roundtrip [of "''volume''" 170 "replicate 13 0" 0 "[]"]
    by (simp add: t word_le_def)
qed

lemma map_v1_not_encryption: "map_v1_type_string s \<noteq> section_code EncryptionKeys"
  by (simp add: map_v1_type_string_def)

end
