(* ===== verification/File_Header.thy ===== *)
theory File_Header
  imports Ewf_Types
begin

text \<open>
  The segment file header: signature detection and the two header layouts
  (\<open>detectSegmentFileType\<close>, \<open>parseFileHeader\<close>, \<open>parseFileHeaderV1\<close>,
  \<open>parseFileHeaderV2\<close> of \<open>reader/open.go\<close>).
\<close>

datatype segment_file_type = FileUnknown | FileEWF1 | FileEWF1Logical | FileEWF2 | FileEWF2Logical

record header_info =
  hi_signature :: bytes
  hi_major_version :: u8
  hi_minor_version :: u8
  hi_compression_method :: u16
  hi_segment_number :: u32

text \<open>The zero value of the struct.\<close>

definition empty_header :: header_info where
  "empty_header =
     \<lparr>hi_signature = replicate 8 0, hi_major_version = 0, hi_minor_version = 0,
      hi_compression_method = 0, hi_segment_number = 0\<rparr>"

definition detect_segment_file_type :: "bytes \<Rightarrow> gerr + segment_file_type" where
  "detect_segment_file_type signature =
     (if signature = signature_evf_v1 then Inr FileEWF1
      else if signature = signature_lvf_v1 then Inr FileEWF1Logical
      else if signature = signature_evf_v2 then Inr FileEWF2
      else if signature = signature_lef_v2 then Inr FileEWF2Logical
      else Inl (wraps ''reader: unsupported segment signature'' ErrUnsupportedFormat))"

definition parse_file_header_v1 :: "io_source \<Rightarrow> gerr + header_info" where
  "parse_file_header_v1 src =
     (case read_slice src 0 13 of
        Inl e \<Rightarrow> Inl (Wrapped ''reader: unable to read v1 file header'' e)
      | Inr data \<Rightarrow>
          (if data ! 8 \<noteq> 0x01
           then Inl (wraps ''reader: invalid v1 header fields_start'' ErrCorruptImage)
           else if data ! 11 \<noteq> 0x00 \<or> data ! 12 \<noteq> 0x00
           then Inl (wraps ''reader: invalid v1 header fields_end'' ErrCorruptImage)
           else Inr \<lparr>hi_signature = subslice data 0 8, hi_major_version = 1, hi_minor_version = 0,
                     hi_compression_method = compression_none,
                     hi_segment_number = ucast (le16 (subslice data 9 11))\<rparr>))"

definition parse_file_header_v2 :: "io_source \<Rightarrow> gerr + header_info" where
  "parse_file_header_v2 src =
     (case read_slice src 0 32 of
        Inl e \<Rightarrow> Inl (Wrapped ''reader: unable to read v2 file header'' e)
      | Inr data \<Rightarrow>
          Inr \<lparr>hi_signature = subslice data 0 8, hi_major_version = data ! 8,
               hi_minor_version = data ! 9,
               hi_compression_method = le16 (subslice data 10 12),
               hi_segment_number = le32 (subslice data 12 16)\<rparr>)"

definition parse_file_header :: "io_source \<Rightarrow> segment_file_type \<Rightarrow> gerr + header_info" where
  "parse_file_header src t =
     (case t of
        FileEWF1 \<Rightarrow> parse_file_header_v1 src
      | FileEWF1Logical \<Rightarrow> parse_file_header_v1 src
      | FileEWF2 \<Rightarrow> parse_file_header_v2 src
      | FileEWF2Logical \<Rightarrow> parse_file_header_v2 src
      | FileUnknown \<Rightarrow> Inl (wraps ''reader: cannot parse header for segment type'' ErrUnsupportedFormat))"

section \<open>Written headers are read back\<close>

definition file_signature :: "segment_file_type \<Rightarrow> bytes" where
  "file_signature t =
     (case t of
        FileEWF1 \<Rightarrow> signature_evf_v1
      | FileEWF1Logical \<Rightarrow> signature_lvf_v1
      | FileEWF2 \<Rightarrow> signature_evf_v2
      | FileEWF2Logical \<Rightarrow> signature_lef_v2
      | FileUnknown \<Rightarrow> replicate 8 0)"

lemmas signature_defs =
  signature_evf_v1_def signature_lvf_v1_def signature_evf_v2_def signature_lef_v2_def

lemma length_file_signature [simp, len_simps]: "length (file_signature t) = 8"
  by (cases t) (simp_all add: file_signature_def signature_defs)

definition encode_header_v1 :: "segment_file_type \<Rightarrow> u16 \<Rightarrow> bytes" where
  "encode_header_v1 t n = file_signature t @ [1] @ put16 n @ [0, 0]"

definition encode_header_v2 :: "segment_file_type \<Rightarrow> u8 \<Rightarrow> u8 \<Rightarrow> u16 \<Rightarrow> u32 \<Rightarrow> bytes \<Rightarrow> bytes" where
  "encode_header_v2 t major minor method n set_id =
     file_signature t @ [major, minor] @ put16 method @ put32 n @ set_id"

lemma detect_iff:
  "detect_segment_file_type s = Inr t \<longleftrightarrow> t \<noteq> FileUnknown \<and> s = file_signature t"
  using signatures_distinct
  by (cases t) (auto simp: detect_segment_file_type_def file_signature_def)

text \<open>
  A segment file is recognised as a type exactly when it starts with the signature of
  that type, and any other signature is refused as unsupported.
\<close>

theorem detect_segment_file_type_exact:
  "(detect_segment_file_type s = Inr t \<longleftrightarrow> t \<noteq> FileUnknown \<and> s = file_signature t) \<and>
   ((\<nexists>t. t \<noteq> FileUnknown \<and> s = file_signature t) \<longleftrightarrow>
     detect_segment_file_type s = Inl (wraps ''reader: unsupported segment signature'' ErrUnsupportedFormat))"
proof -
  have "(\<exists>t. detect_segment_file_type s = Inr t) \<or>
      detect_segment_file_type s = Inl (wraps ''reader: unsupported segment signature'' ErrUnsupportedFormat)"
    by (auto simp: detect_segment_file_type_def)
  then show ?thesis using detect_iff [of s] by (metis sum.distinct(1))
qed

lemma nth_app_right: "length xs \<le> i \<Longrightarrow> (xs @ ys) ! i = ys ! (i - length xs)"
  by (simp add: nth_append)

lemma parse_encode_header_v1:
  "parse_file_header_v1 (bytes_source (encode_header_v1 t n @ rest)) =
     Inr \<lparr>hi_signature = file_signature t, hi_major_version = 1, hi_minor_version = 0,
          hi_compression_method = 0, hi_segment_number = ucast n\<rparr>"
proof -
  have "length (encode_header_v1 t n) = 13" by (simp add: encode_header_v1_def)
  then have "read_slice (bytes_source (encode_header_v1 t n @ rest)) 0 13 = Inr (encode_header_v1 t n)"
    by (intro read_slice_prefix) (simp_all add: max_read_size_def)
  then show ?thesis
    by (simp add: parse_file_header_v1_def encode_header_v1_def subslice_split nth_append go_defs)
qed

lemma parse_encode_header_v2:
  "parse_file_header_v2 (bytes_source (encode_header_v2 t major minor method m (replicate 16 x) @ rest)) =
     Inr \<lparr>hi_signature = file_signature t, hi_major_version = major, hi_minor_version = minor,
          hi_compression_method = method, hi_segment_number = m\<rparr>"
proof -
  let ?h = "encode_header_v2 t major minor method m (replicate 16 x)"
  have "length ?h = 32" by (simp add: encode_header_v2_def)
  then have "read_slice (bytes_source (?h @ rest)) 0 32 = Inr ?h"
    by (intro read_slice_prefix) (simp_all add: max_read_size_def)
  then show ?thesis
    by (simp add: parse_file_header_v2_def encode_header_v2_def subslice_split nth_append)
qed

text \<open>
  The headers a writer stores are parsed back: type, version, compression method and
  segment number, for every 16-bit (v1) and 32-bit (v2) segment number.
\<close>

theorem file_header_roundtrip:
  "parse_file_header_v1 (bytes_source (encode_header_v1 t n @ rest)) =
     Inr \<lparr>hi_signature = file_signature t, hi_major_version = 1, hi_minor_version = 0,
          hi_compression_method = 0, hi_segment_number = ucast n\<rparr> \<and>
   parse_file_header_v2 (bytes_source (encode_header_v2 t major minor method m (replicate 16 x) @ rest)) =
     Inr \<lparr>hi_signature = file_signature t, hi_major_version = major, hi_minor_version = minor,
          hi_compression_method = method, hi_segment_number = m\<rparr>"
  by (intro conjI parse_encode_header_v1 parse_encode_header_v2)

end
