(* ===== verification/Metadata_Model.thy ===== *)
theory Metadata_Model
  imports Section_Chain File_Header
begin

text \<open>
  The image metadata (\<open>metadata/model.go\<close>) and the summary of the section
  descriptors (\<open>reader/metadata.go\<close>). A pointer that may be nil is an option; the
  Go map of header values is a list of pairs with distinct keys, because the code
  ranges over it; the map of section counts is a partial function.
\<close>

section \<open>The model\<close>

text \<open>
  A \<open>time.Time\<close> is kept by the way it was made: the zero time, \<open>time.Unix\<close> of a
  number of seconds, \<open>time.Date\<close> of six numbers in the local zone, or the result of
  \<open>time.ParseInLocation\<close> for a layout and a text.
\<close>

datatype gtime =
    ZeroTime
  | UnixTime int
  | LocalDate int int int int int int
  | LayoutTime string string

type_synonym go_map = "(string \<times> string) list"

record acquisition =
  acq_case_number :: string
  acq_evidence_number :: string
  acq_description :: string
  acq_examiner_name :: string
  acq_notes :: string
  acq_model :: string
  acq_serial_number :: string
  acq_device_label :: string
  acq_software_version :: string
  acq_operating_system :: string
  acq_compression_type :: string
  acq_password_hash :: string
  acq_process_identifier :: string
  acq_acquiry_date :: gtime
  acq_system_date :: gtime
  acq_acquiry_date_raw :: string
  acq_system_date_raw :: string
  acq_values :: go_map
  acq_source :: string

definition empty_acquisition :: acquisition where
  "empty_acquisition =
     \<lparr>acq_case_number = [], acq_evidence_number = [], acq_description = [],
      acq_examiner_name = [], acq_notes = [], acq_model = [], acq_serial_number = [],
      acq_device_label = [], acq_software_version = [], acq_operating_system = [],
      acq_compression_type = [], acq_password_hash = [], acq_process_identifier = [],
      acq_acquiry_date = ZeroTime, acq_system_date = ZeroTime, acq_acquiry_date_raw = [],
      acq_system_date_raw = [], acq_values = [], acq_source = []\<rparr>"

record section_summary =
  ss_offset :: int
  ss_type :: u32
  ss_type_name :: string
  ss_data_flags :: u32
  ss_size :: u64
  ss_data_offset :: int
  ss_data_size :: u64
  ss_padding :: u32
  ss_descriptor :: u32

record session_entry =
  se_flags :: u32
  se_start_sector :: u64

record acquisition_error =
  ae_start_sector :: u64
  ae_number_of_sectors :: u32

record media_info =
  mi_media_type :: u8
  mi_number_of_chunks :: u64
  mi_sectors_per_chunk :: u32
  mi_bytes_per_sector :: u32
  mi_number_of_sectors :: u64
  mi_media_flags :: u8
  mi_compression_level :: u8
  mi_error_granularity :: u32
  mi_set_identifier :: bytes

definition empty_media :: media_info where
  "empty_media =
     \<lparr>mi_media_type = 0, mi_number_of_chunks = 0, mi_sectors_per_chunk = 0,
      mi_bytes_per_sector = 0, mi_number_of_sectors = 0, mi_media_flags = 0,
      mi_compression_level = 0, mi_error_granularity = 0, mi_set_identifier = replicate 16 0\<rparr>"

record info =
  inf_major_version :: u8
  inf_minor_version :: u8
  inf_compression_method :: u16
  inf_segment_number :: u32
  inf_section_count :: nat
  inf_has_next :: bool
  inf_has_done :: bool
  inf_is_encrypted :: bool
  inf_has_integrity_blocks :: bool
  inf_type_counts :: "u32 \<rightharpoonup> nat"
  inf_sections :: "section_summary list"
  inf_media :: "media_info option"
  inf_has_md5 :: bool
  inf_md5 :: bytes
  inf_has_sha1 :: bool
  inf_sha1 :: bytes
  inf_sessions :: "session_entry list"
  inf_errors :: "acquisition_error list"
  inf_observed_chunks :: u64
  inf_tables_recovered :: nat
  inf_tables_invalid :: nat
  inf_acquisition :: "acquisition option"

section \<open>The summary of the descriptors\<close>

definition summary_of :: "section_info \<Rightarrow> section_summary" where
  "summary_of s =
     \<lparr>ss_offset = si_offset s, ss_type = si_type s, ss_type_name = si_type_string s,
      ss_data_flags = si_data_flags s, ss_size = si_size s, ss_data_offset = si_data_offset s,
      ss_data_size = si_data_size s, ss_padding = si_padding_size s,
      ss_descriptor = si_descriptor_size s\<rparr>"

text \<open>\<open>m[k] += n\<close> on a map of counters.\<close>

definition count_add :: "'k \<Rightarrow> nat \<Rightarrow> ('k \<rightharpoonup> nat) \<Rightarrow> ('k \<rightharpoonup> nat)" where
  "count_add k n m = m(k \<mapsto> (case m k of None \<Rightarrow> 0 | Some i \<Rightarrow> i) + n)"

definition apply_section_summary :: "section_info \<Rightarrow> info \<Rightarrow> info" where
  "apply_section_summary s nfo =
     (let inf1 = nfo\<lparr>inf_sections := inf_sections nfo @ [summary_of s],
                    inf_type_counts := count_add (si_type s) 1 (inf_type_counts nfo)\<rparr>;
          inf2 = (if si_type s = section_code NextSection then inf1\<lparr>inf_has_next := True\<rparr>
                  else if si_type s = section_code DoneSection then inf1\<lparr>inf_has_done := True\<rparr>
                  else if si_type s = section_code EncryptionKeys then inf1\<lparr>inf_is_encrypted := True\<rparr>
                  else inf1);
          inf3 = (if si_data_flags s AND section_flag_integrity_hash \<noteq> 0
                  then inf2\<lparr>inf_has_integrity_blocks := True\<rparr> else inf2) in
      if si_data_flags s AND section_flag_encrypted \<noteq> 0
      then inf3\<lparr>inf_is_encrypted := True\<rparr> else inf3)"

definition initial_info :: "header_info \<Rightarrow> section_info list \<Rightarrow> info" where
  "initial_info header sections =
     \<lparr>inf_major_version = hi_major_version header, inf_minor_version = hi_minor_version header,
      inf_compression_method = hi_compression_method header,
      inf_segment_number = hi_segment_number header, inf_section_count = length sections,
      inf_has_next = False, inf_has_done = False, inf_is_encrypted = False,
      inf_has_integrity_blocks = False, inf_type_counts = Map.empty, inf_sections = [],
      inf_media = None, inf_has_md5 = False, inf_md5 = replicate 16 0, inf_has_sha1 = False,
      inf_sha1 = replicate 20 0, inf_sessions = [], inf_errors = [], inf_observed_chunks = 0,
      inf_tables_recovered = 0, inf_tables_invalid = 0, inf_acquisition = None\<rparr>"

definition build_metadata :: "header_info \<Rightarrow> section_info list \<Rightarrow> info" where
  "build_metadata header sections = fold apply_section_summary sections (initial_info header sections)"

section \<open>What the summary says\<close>

definition encrypted_section :: "section_info \<Rightarrow> bool" where
  "encrypted_section s \<longleftrightarrow>
     si_type s = section_code EncryptionKeys \<or> si_data_flags s AND section_flag_encrypted \<noteq> 0"

definition has_type :: "section_type \<Rightarrow> section_info list \<Rightarrow> bool" where
  "has_type t sections \<longleftrightarrow> list_ex (\<lambda>s. si_type s = section_code t) sections"

definition type_count :: "u32 \<Rightarrow> section_info list \<Rightarrow> nat option" where
  "type_count t sections =
     (case length (filter (\<lambda>s. si_type s = t) sections) of 0 \<Rightarrow> None | Suc n \<Rightarrow> Some (Suc n))"

lemma apply_section_summary_fields [simp]:
  "inf_sections (apply_section_summary s nfo) = inf_sections nfo @ [summary_of s]"
  "inf_type_counts (apply_section_summary s nfo) = count_add (si_type s) 1 (inf_type_counts nfo)"
  "inf_has_next (apply_section_summary s nfo) \<longleftrightarrow> inf_has_next nfo \<or> si_type s = section_code NextSection"
  "inf_has_done (apply_section_summary s nfo) \<longleftrightarrow> inf_has_done nfo \<or> si_type s = section_code DoneSection"
  "inf_is_encrypted (apply_section_summary s nfo) \<longleftrightarrow> inf_is_encrypted nfo \<or> encrypted_section s"
  "inf_media (apply_section_summary s nfo) = inf_media nfo"
  "inf_section_count (apply_section_summary s nfo) = inf_section_count nfo"
  "inf_major_version (apply_section_summary s nfo) = inf_major_version nfo"
  "inf_segment_number (apply_section_summary s nfo) = inf_segment_number nfo"
  by (simp_all add: apply_section_summary_def encrypted_section_def Let_def)

lemma count_add_type_count:
  "(\<forall>t. m t = type_count t pre) \<Longrightarrow> \<forall>t. count_add (si_type s) 1 m t = type_count t (pre @ [s])"
  by (auto simp: count_add_def type_count_def split: nat.split)

lemma fold_summary:
  assumes "inf_sections i0 = map summary_of pre" "\<forall>t. inf_type_counts i0 t = type_count t pre"
    "inf_has_next i0 = has_type NextSection pre" "inf_has_done i0 = has_type DoneSection pre"
    "inf_is_encrypted i0 = list_ex encrypted_section pre"
  shows "let i = fold apply_section_summary ss i0 in
    inf_sections i = map summary_of (pre @ ss) \<and> (\<forall>t. inf_type_counts i t = type_count t (pre @ ss)) \<and>
    inf_has_next i = has_type NextSection (pre @ ss) \<and> inf_has_done i = has_type DoneSection (pre @ ss) \<and>
    inf_is_encrypted i = list_ex encrypted_section (pre @ ss) \<and> inf_media i = inf_media i0 \<and>
    inf_section_count i = inf_section_count i0 \<and> inf_segment_number i = inf_segment_number i0"
  using assms
proof (induction ss arbitrary: i0 pre)
  case (Cons s ss)
  have "let i = fold apply_section_summary ss (apply_section_summary s i0) in
    inf_sections i = map summary_of ((pre @ [s]) @ ss) \<and>
    (\<forall>t. inf_type_counts i t = type_count t ((pre @ [s]) @ ss)) \<and>
    inf_has_next i = has_type NextSection ((pre @ [s]) @ ss) \<and>
    inf_has_done i = has_type DoneSection ((pre @ [s]) @ ss) \<and>
    inf_is_encrypted i = list_ex encrypted_section ((pre @ [s]) @ ss) \<and>
    inf_media i = inf_media (apply_section_summary s i0) \<and>
    inf_section_count i = inf_section_count (apply_section_summary s i0) \<and>
    inf_segment_number i = inf_segment_number (apply_section_summary s i0)"
    by (rule Cons.IH) (use Cons.prems count_add_type_count in \<open>simp_all add: has_type_def\<close>)
  then show ?case by simp
qed simp

lemma build_metadata_fields:
  "inf_sections (build_metadata h ss) = map summary_of ss \<and>
   inf_section_count (build_metadata h ss) = length ss \<and>
   inf_type_counts (build_metadata h ss) t = type_count t ss \<and>
   inf_has_next (build_metadata h ss) = has_type NextSection ss \<and>
   inf_has_done (build_metadata h ss) = has_type DoneSection ss \<and>
   inf_is_encrypted (build_metadata h ss) = list_ex encrypted_section ss \<and>
   inf_segment_number (build_metadata h ss) = hi_segment_number h \<and>
   inf_media (build_metadata h ss) = None"
  using fold_summary [of "initial_info h ss" "[]" ss]
  by (simp add: build_metadata_def initial_info_def has_type_def type_count_def Let_def)

text \<open>
  The metadata of a segment summarises its descriptors: the sections are listed in
  order, the count of a type is the number of sections of that type (and the map has no
  entry for a type that does not occur), the terminator flags say which terminators
  occur, and the segment counts as encrypted exactly when it has a key section or a
  section that is flagged encrypted.
\<close>

theorem build_metadata_summary:
  "inf_sections (build_metadata h ss) = map summary_of ss \<and>
   inf_section_count (build_metadata h ss) = length ss \<and>
   inf_type_counts (build_metadata h ss) t = type_count t ss \<and>
   inf_has_next (build_metadata h ss) = has_type NextSection ss \<and>
   inf_has_done (build_metadata h ss) = has_type DoneSection ss \<and>
   inf_is_encrypted (build_metadata h ss) = list_ex encrypted_section ss \<and>
   inf_segment_number (build_metadata h ss) = hi_segment_number h \<and>
   inf_media (build_metadata h ss) = None"
  by (rule build_metadata_fields)

end
