(* ===== verification/Header_Text.thy ===== *)
theory Header_Text
  imports Compression Metadata_Model "HOL-Library.AList" "HOL-Library.Multiset"
begin

text \<open>
  The textual metadata sections: the v1 \<open>header\<close>, \<open>header2\<close>, \<open>xheader\<close> and
  \<open>xhash\<close> sections (\<open>reader/header.go\<close>, \<open>reader/xhash.go\<close>) and the v2
  \<open>device_information\<close> and \<open>case_data\<close> sections (\<open>reader/ewf2meta.go\<close>).
\<close>

text \<open>
  What the code takes from the standard library beside the decompressors: the token
  sequence of \<open>encoding/xml\<close> in non-strict mode (a balanced prefix, up to the end of
  the document or its first error), \<open>strings.ToLower\<close>, whether \<open>time.ParseInLocation\<close>
  accepts a text for a layout, and the order in which a \<open>range\<close> loop visits a map.
\<close>

datatype xml_token = StartElement string | EndElement | CharData string | OtherToken

record golib = codecs +
  xml_tokens :: "bytes \<Rightarrow> xml_token list"
  to_lower :: "string \<Rightarrow> string"
  layout_matches :: "string \<Rightarrow> string \<Rightarrow> bool"
  range_order :: "go_map \<Rightarrow> go_map"

abbreviation lib_codecs :: "golib \<Rightarrow> codecs" where
  "lib_codecs lib \<equiv> codecs.truncate lib"

section \<open>Maps of header values\<close>

definition go_put :: "string \<Rightarrow> string \<Rightarrow> go_map \<Rightarrow> go_map" where
  "go_put k v m = AList.update k v m"

definition go_get :: "go_map \<Rightarrow> string \<Rightarrow> string" where
  "go_get m k = (case map_of m k of None \<Rightarrow> [] | Some v \<Rightarrow> v)"

lemma map_of_go_put [simp]: "map_of (go_put k v m) = (map_of m)(k \<mapsto> v)"
  by (simp add: go_put_def update_conv')

lemma distinct_go_put [simp]: "distinct (map fst m) \<Longrightarrow> distinct (map fst (go_put k v m))"
  by (simp add: go_put_def distinct_update)

lemma go_put_not_Nil [simp]: "go_put k v m \<noteq> []"
  by (cases m) (auto simp: go_put_def)

section \<open>Text decoding\<close>

definition trim_prefix :: "'a list \<Rightarrow> 'a list \<Rightarrow> 'a list" where
  "trim_prefix p xs = (if prefix p xs then drop (length p) xs else xs)"

fun le_units :: "bytes \<Rightarrow> int list" where
  "le_units (a # b # bs) = (uint a + 256 * uint b) # le_units bs"
| "le_units _ = []"

definition decode_utf16le :: "bytes \<Rightarrow> string" where
  "decode_utf16le raw =
     concat (map utf8_encode (utf16_runes (le_units (trim_prefix [0xFF, 0xFE] raw))))"

definition decode_latin1 :: "bytes \<Rightarrow> string" where
  "decode_latin1 raw = concat (map (\<lambda>c. utf8_encode (uint c)) raw)"

section \<open>The main block\<close>

text \<open>Identifiers are paired with the values at the same position; missing values are empty.\<close>

fun pair_values :: "string list \<Rightarrow> string list \<Rightarrow> go_map \<Rightarrow> go_map" where
  "pair_values [] vs m = m"
| "pair_values (i # is) vs m =
     (let identifier = trim_space i;
          value = (case vs of [] \<Rightarrow> [] | v # _ \<Rightarrow> trim_space v) in
      pair_values is (drop 1 vs) (if identifier = [] then m else go_put identifier value m))"

fun main_block :: "string list \<Rightarrow> go_map" where
  "main_block [] = []"
| "main_block (line # rest) =
     (if trim_space line \<noteq> ''main'' then main_block rest
      else case rest of
             identifiers # values # _ \<Rightarrow>
               pair_values (split_on (CHR 0x09) identifiers) (split_on (CHR 0x09) values) []
           | _ \<Rightarrow> [])"

definition parse_header_main_block :: "string \<Rightarrow> go_map" where
  "parse_header_main_block t = main_block (split_on (CHR 0x0A) (crlf_to_lf t))"

definition decode_header_text :: "golib \<Rightarrow> bytes \<Rightarrow> bool \<Rightarrow> go_map" where
  "decode_header_text lib payload utf16le =
     (if payload = [] then []
      else let raw = (case decompress_zlib (lib_codecs lib) payload of Inl _ \<Rightarrow> payload | Inr out \<Rightarrow> out) in
           parse_header_main_block (if utf16le then decode_utf16le raw else decode_latin1 raw))"

section \<open>XML sections\<close>

definition inflate_xml :: "golib \<Rightarrow> bytes \<Rightarrow> bytes option" where
  "inflate_xml lib data =
     (case decompress_zlib (lib_codecs lib) data of
        Inr out \<Rightarrow> Some (trim_prefix [0xEF, 0xBB, 0xBF] out)
      | Inl _ \<Rightarrow> (if 0x3C \<in> set data then Some (trim_prefix [0xEF, 0xBB, 0xBF] data) else None))"

text \<open>\<open>Decoder.Skip\<close> and \<open>Decoder.DecodeElement\<close> into a string: the text directly inside.\<close>

fun skip_element :: "nat \<Rightarrow> xml_token list \<Rightarrow> xml_token list option" where
  "skip_element d [] = None"
| "skip_element d (StartElement n # ts) = skip_element (Suc d) ts"
| "skip_element d (EndElement # ts) = (case d of 0 \<Rightarrow> Some ts | Suc d' \<Rightarrow> skip_element d' ts)"
| "skip_element d (t # ts) = skip_element d ts"

lemma length_skip_element: "skip_element d ts = Some ts' \<Longrightarrow> length ts' < length ts"
  by (induction d ts rule: skip_element.induct) (auto split: nat.splits)

function decode_element :: "string \<Rightarrow> xml_token list \<Rightarrow> (string \<times> xml_token list) option" where
  "decode_element acc [] = None"
| "decode_element acc (StartElement n # ts) =
     (case skip_element 0 ts of None \<Rightarrow> None | Some ts' \<Rightarrow> decode_element acc ts')"
| "decode_element acc (EndElement # ts) = Some (acc, ts)"
| "decode_element acc (CharData s # ts) = decode_element (acc @ s) ts"
| "decode_element acc (OtherToken # ts) = decode_element acc ts"
  by pat_completeness auto
termination
  by (relation "measure (\<lambda>(acc, ts). length ts)") (auto dest: length_skip_element)

lemma length_decode_element: "decode_element acc ts = Some (v, ts') \<Longrightarrow> length ts' < length ts"
  by (induction acc ts rule: decode_element.induct)
     (auto split: option.splits dest: length_skip_element)

function xml_values :: "golib \<Rightarrow> string \<Rightarrow> xml_token list \<Rightarrow> go_map \<Rightarrow> go_map" where
  "xml_values lib root [] m = m"
| "xml_values lib root (StartElement n # ts) m =
     (let name = to_lower lib n in
      if name = to_lower lib root then xml_values lib root ts m
      else case decode_element [] ts of
             None \<Rightarrow> m
           | Some (v, ts') \<Rightarrow>
               (let value = trim_space v in
                xml_values lib root ts' (if value \<noteq> [] then go_put name value m else m)))"
| "xml_values lib root (EndElement # ts) m = xml_values lib root ts m"
| "xml_values lib root (CharData s # ts) m = xml_values lib root ts m"
| "xml_values lib root (OtherToken # ts) m = xml_values lib root ts m"
  by pat_completeness auto
termination
  by (relation "measure (\<lambda>(lib, root, ts, m). length ts)") (auto dest: length_decode_element)

definition extract_xml_values :: "golib \<Rightarrow> bytes \<Rightarrow> string \<Rightarrow> go_map" where
  "extract_xml_values lib doc root = xml_values lib root (xml_tokens lib doc) []"

definition extract_xml_digests :: "golib \<Rightarrow> bytes \<Rightarrow> string \<times> string" where
  "extract_xml_digests lib doc =
     (let values = extract_xml_values lib doc ''xhash'' in (go_get values ''md5'', go_get values ''sha1''))"

text \<open>\<open>hex.DecodeString\<close>\<close>

definition hex_digit :: "char \<Rightarrow> nat option" where
  "hex_digit c =
     (let n = of_char c :: nat in
      if 48 \<le> n \<and> n \<le> 57 then Some (n - 48)
      else if 97 \<le> n \<and> n \<le> 102 then Some (n - 87)
      else if 65 \<le> n \<and> n \<le> 70 then Some (n - 55)
      else None)"

fun hex_decode :: "string \<Rightarrow> bytes option" where
  "hex_decode [] = Some []"
| "hex_decode [c] = None"
| "hex_decode (c # d # cs) =
     (case (hex_digit c, hex_digit d, hex_decode cs) of
        (Some h, Some l, Some bs) \<Rightarrow> Some (of_nat (16 * h + l) # bs)
      | _ \<Rightarrow> None)"

definition parse_xhash_section :: "golib \<Rightarrow> bytes \<Rightarrow> info \<Rightarrow> info" where
  "parse_xhash_section lib data nfo =
     (case inflate_xml lib data of
        None \<Rightarrow> nfo
      | Some doc \<Rightarrow>
          (let (md5_hex, sha1_hex) = extract_xml_digests lib doc;
               nfo1 = (if \<not> inf_has_md5 nfo
                       then (case hex_decode md5_hex of
                               Some raw \<Rightarrow> (if length raw = 16 then nfo\<lparr>inf_md5 := raw, inf_has_md5 := True\<rparr> else nfo)
                             | None \<Rightarrow> nfo)
                       else nfo) in
           if \<not> inf_has_sha1 nfo1
           then (case hex_decode sha1_hex of
                   Some raw \<Rightarrow> (if length raw = 20 then nfo1\<lparr>inf_sha1 := raw, inf_has_sha1 := True\<rparr> else nfo1)
                 | None \<Rightarrow> nfo1)
           else nfo1))"

definition decode_xheader :: "golib \<Rightarrow> bytes \<Rightarrow> go_map" where
  "decode_xheader lib payload =
     (if payload = [] then []
      else case inflate_xml lib payload of
             None \<Rightarrow> []
           | Some doc \<Rightarrow> extract_xml_values lib doc ''xheader'')"

section \<open>Dates\<close>

definition header_time_layouts :: "string list" where
  "header_time_layouts =
     [''Mon Jan 2 15:04:05 2006 MST'', ''Mon Jan _2 15:04:05 2006 MST'',
      ''Mon Jan 2 15:04:05 2006'', ''Mon Jan _2 15:04:05 2006'', ''1/2/2006 15:04:05'',
      ''01/02/2006 15:04:05'', ''2006-01-02 15:04:05'', ''2006-01-02T15:04:05Z07:00'']"

definition parse_date_numbers :: "string \<Rightarrow> gtime option" where
  "parse_date_numbers raw =
     (case map parse_int64 (split_fields raw) of
        [Some y, Some mo, Some d, Some h, Some mi, Some s] \<Rightarrow> Some (LocalDate y mo d h mi s)
      | _ \<Rightarrow> None)"

definition parse_header_time :: "golib \<Rightarrow> string \<Rightarrow> gtime option" where
  "parse_header_time lib raw0 =
     (let raw = trim_space raw0 in
      if raw = [] then None
      else case parse_int64 raw of
             Some seconds \<Rightarrow> (if 100000000 < seconds then Some (UnixTime seconds) else None)
           | None \<Rightarrow>
               (case parse_date_numbers raw of
                  Some t \<Rightarrow> Some t
                | None \<Rightarrow>
                    (case find (\<lambda>layout. layout_matches lib layout raw) header_time_layouts of
                       Some layout \<Rightarrow> Some (LayoutTime layout raw)
                     | None \<Rightarrow> None)))"

section \<open>Acquisition fields\<close>

text \<open>
  The table \<open>headerFields\<close>: which field an identifier populates, and the setter of a
  field. \<open>setPasswordHash\<close> takes the value 0 for no password.
\<close>

datatype acq_field =
    CaseNumber | EvidenceNumber | Description | ExaminerName | Notes | DeviceModel
  | SerialNumber | DeviceLabel | SoftwareVersion | OperatingSystem | CompressionType | PasswordHash
  | ProcessIdentifier

definition field_of_key :: "string \<Rightarrow> acq_field option" where
  "field_of_key key =
     map_of
       [(''c'', CaseNumber), (''case_number'', CaseNumber),
        (''n'', EvidenceNumber), (''evidence_number'', EvidenceNumber),
        (''a'', Description), (''description'', Description),
        (''e'', ExaminerName), (''examiner_name'', ExaminerName),
        (''t'', Notes), (''notes'', Notes),
        (''md'', DeviceModel), (''model'', DeviceModel),
        (''sn'', SerialNumber), (''serial_number'', SerialNumber),
        (''l'', DeviceLabel), (''device_label'', DeviceLabel),
        (''av'', SoftwareVersion), (''acquiry_software_version'', SoftwareVersion),
        (''ov'', OperatingSystem), (''acquiry_operating_system'', OperatingSystem),
        (''r'', CompressionType), (''compression_type'', CompressionType),
        (''p'', PasswordHash), (''password'', PasswordHash),
        (''pid'', ProcessIdentifier), (''process_identifier'', ProcessIdentifier)] key"

definition set_password_hash :: "string \<Rightarrow> acquisition \<Rightarrow> acquisition" where
  "set_password_hash v a = (if v = ''0'' then a else a\<lparr>acq_password_hash := v\<rparr>)"

fun set_field :: "acq_field \<Rightarrow> string \<Rightarrow> acquisition \<Rightarrow> acquisition" where
  "set_field CaseNumber v a = a\<lparr>acq_case_number := v\<rparr>"
| "set_field EvidenceNumber v a = a\<lparr>acq_evidence_number := v\<rparr>"
| "set_field Description v a = a\<lparr>acq_description := v\<rparr>"
| "set_field ExaminerName v a = a\<lparr>acq_examiner_name := v\<rparr>"
| "set_field Notes v a = a\<lparr>acq_notes := v\<rparr>"
| "set_field DeviceModel v a = a\<lparr>acq_model := v\<rparr>"
| "set_field SerialNumber v a = a\<lparr>acq_serial_number := v\<rparr>"
| "set_field DeviceLabel v a = a\<lparr>acq_device_label := v\<rparr>"
| "set_field SoftwareVersion v a = a\<lparr>acq_software_version := v\<rparr>"
| "set_field OperatingSystem v a = a\<lparr>acq_operating_system := v\<rparr>"
| "set_field CompressionType v a = a\<lparr>acq_compression_type := v\<rparr>"
| "set_field PasswordHash v a = set_password_hash v a"
| "set_field ProcessIdentifier v a = a\<lparr>acq_process_identifier := v\<rparr>"

definition apply_field :: "string \<times> string \<Rightarrow> acquisition \<Rightarrow> acquisition" where
  "apply_field kv a =
     (case field_of_key (fst kv) of None \<Rightarrow> a | Some f \<Rightarrow> set_field f (snd kv) a)"

text \<open>The value of the first of the keys that is present and not empty.\<close>

fun first_value :: "go_map \<Rightarrow> string list \<Rightarrow> string option" where
  "first_value m [] = None"
| "first_value m (k # ks) = (if go_get m k \<noteq> [] then Some (go_get m k) else first_value m ks)"

definition set_acquiry_date :: "golib \<Rightarrow> string \<Rightarrow> acquisition \<Rightarrow> acquisition" where
  "set_acquiry_date lib raw a =
     (let a1 = a\<lparr>acq_acquiry_date_raw := raw\<rparr> in
      case parse_header_time lib raw of Some t \<Rightarrow> a1\<lparr>acq_acquiry_date := t\<rparr> | None \<Rightarrow> a1)"

definition set_system_date :: "golib \<Rightarrow> string \<Rightarrow> acquisition \<Rightarrow> acquisition" where
  "set_system_date lib raw a =
     (let a1 = a\<lparr>acq_system_date_raw := raw\<rparr> in
      case parse_header_time lib raw of Some t \<Rightarrow> a1\<lparr>acq_system_date := t\<rparr> | None \<Rightarrow> a1)"

definition apply_header_values :: "golib \<Rightarrow> acquisition \<Rightarrow> acquisition" where
  "apply_header_values lib a =
     (let a1 = fold apply_field (range_order lib (acq_values a)) a;
          a2 = (case first_value (acq_values a1) [''m'', ''acquiry_date''] of
                  Some raw \<Rightarrow> set_acquiry_date lib raw a1 | None \<Rightarrow> a1) in
      case first_value (acq_values a2) [''u'', ''system_date''] of
        Some raw \<Rightarrow> set_system_date lib raw a2 | None \<Rightarrow> a2)"

section \<open>Precedence of the header sections\<close>

record header_payloads =
  hp_header :: "bytes option"
  hp_header2 :: "bytes option"
  hp_xheader :: "bytes option"

definition no_payloads :: header_payloads where
  "no_payloads = \<lparr>hp_header = None, hp_header2 = None, hp_xheader = None\<rparr>"

definition payloads_empty :: "header_payloads \<Rightarrow> bool" where
  "payloads_empty h \<longleftrightarrow> hp_header h = None \<and> hp_header2 h = None \<and> hp_xheader h = None"

definition nil_bytes :: "bytes option \<Rightarrow> bytes" where
  "nil_bytes b = (case b of None \<Rightarrow> [] | Some bs \<Rightarrow> bs)"

definition header_candidates :: "golib \<Rightarrow> header_payloads \<Rightarrow> (string \<times> go_map) list" where
  "header_candidates lib h =
     filter (\<lambda>c. snd c \<noteq> [])
       [(''header2'', decode_header_text lib (nil_bytes (hp_header2 h)) True),
        (''header'', decode_header_text lib (nil_bytes (hp_header h)) False),
        (''xheader'', decode_xheader lib (nil_bytes (hp_xheader h)))]"

definition put_nonempty :: "string \<times> string \<Rightarrow> go_map \<Rightarrow> go_map" where
  "put_nonempty kv m = (if snd kv = [] then m else go_put (fst kv) (snd kv) m)"

definition merge_candidates :: "golib \<Rightarrow> (string \<times> go_map) list \<Rightarrow> go_map" where
  "merge_candidates lib cs = foldr (\<lambda>c. fold put_nonempty (range_order lib (snd c))) cs []"

definition resolve_acquisition :: "golib \<Rightarrow> header_payloads \<Rightarrow> info \<Rightarrow> info" where
  "resolve_acquisition lib h nfo =
     (if payloads_empty h then nfo
      else case header_candidates lib h of
             [] \<Rightarrow> nfo
           | c # cs \<Rightarrow>
               nfo\<lparr>inf_acquisition := Some (apply_header_values lib
                 (empty_acquisition\<lparr>acq_values := merge_candidates lib (c # cs),
                                    acq_source := fst c\<rparr>))\<rparr>)"

section \<open>Version 2 text sections\<close>

definition parse_uint :: "string \<Rightarrow> u64 option" where
  "parse_uint v = (if v = [] then None else parse_uint64 v)"

definition ewf2_media_type :: "string \<Rightarrow> u8 option" where
  "ewf2_media_type v =
     (if v = ''f'' then Some media_type_fixed
      else if v = ''r'' then Some media_type_removable
      else if v = ''c'' then Some media_type_optical
      else if v = ''l'' then Some media_type_single_files
      else if v = ''m'' then Some media_type_memory
      else None)"

definition ensure_media :: "info \<Rightarrow> media_info" where
  "ensure_media nfo = (case inf_media nfo of None \<Rightarrow> empty_media | Some m \<Rightarrow> m)"

definition ensure_acquisition :: "info \<Rightarrow> acquisition" where
  "ensure_acquisition nfo =
     (case inf_acquisition nfo of
        None \<Rightarrow> empty_acquisition\<lparr>acq_source := ''device_information''\<rparr>
      | Some a \<Rightarrow> a)"

definition set_if_empty :: "string \<Rightarrow> string \<Rightarrow> string" where
  "set_if_empty old v = (if old = [] \<and> v \<noteq> [] then v else old)"

definition put_missing :: "string \<times> string \<Rightarrow> go_map \<Rightarrow> go_map" where
  "put_missing kv m =
     (if snd kv = [] then m
      else case map_of m (fst kv) of None \<Rightarrow> go_put (fst kv) (snd kv) m | Some _ \<Rightarrow> m)"

definition merge_values :: "golib \<Rightarrow> go_map \<Rightarrow> acquisition \<Rightarrow> acquisition" where
  "merge_values lib values a =
     a\<lparr>acq_values := fold put_missing (range_order lib values) (acq_values a)\<rparr>"

definition device_media :: "go_map \<Rightarrow> media_info \<Rightarrow> media_info" where
  "device_media values m =
     (let m1 = (case parse_uint (go_get values ''bp'') of
                  Some v \<Rightarrow> m\<lparr>mi_bytes_per_sector := ucast v\<rparr> | None \<Rightarrow> m);
          m2 = (case parse_uint (go_get values ''ts'') of
                  Some v \<Rightarrow> m1\<lparr>mi_number_of_sectors := v\<rparr> | None \<Rightarrow> m1);
          m3 = (case ewf2_media_type (go_get values ''dt'') of
                  Some t \<Rightarrow> m2\<lparr>mi_media_type := t\<rparr> | None \<Rightarrow> m2) in
      if go_get values ''ph'' = ''1''
      then m3\<lparr>mi_media_flags := mi_media_flags m3 OR media_flag_physical\<rparr> else m3)"

definition parse_device_information_v2 :: "golib \<Rightarrow> bytes \<Rightarrow> info \<Rightarrow> info" where
  "parse_device_information_v2 lib data nfo =
     (let values = decode_header_text lib data True in
      if values = [] then nfo
      else let a = ensure_acquisition nfo;
               a1 = a\<lparr>acq_model := set_if_empty (acq_model a) (go_get values ''md''),
                      acq_serial_number := set_if_empty (acq_serial_number a) (go_get values ''sn''),
                      acq_device_label := set_if_empty (acq_device_label a) (go_get values ''lb''),
                      acq_process_identifier :=
                        set_if_empty (acq_process_identifier a) (go_get values ''pid'')\<rparr> in
           nfo\<lparr>inf_media := Some (device_media values (ensure_media nfo)),
               inf_acquisition := Some (merge_values lib values a1)\<rparr>)"

definition case_media :: "go_map \<Rightarrow> media_info \<Rightarrow> media_info" where
  "case_media values m =
     (let m1 = (case parse_uint (go_get values ''sb'') of
                  Some v \<Rightarrow> m\<lparr>mi_sectors_per_chunk := ucast v\<rparr> | None \<Rightarrow> m);
          m2 = (case parse_uint (go_get values ''tb'') of
                  Some v \<Rightarrow> m1\<lparr>mi_number_of_chunks := v\<rparr> | None \<Rightarrow> m1) in
      case parse_uint (go_get values ''gr'') of
        Some v \<Rightarrow> m2\<lparr>mi_error_granularity := ucast v\<rparr> | None \<Rightarrow> m2)"

definition case_acquisition :: "golib \<Rightarrow> go_map \<Rightarrow> acquisition \<Rightarrow> acquisition" where
  "case_acquisition lib values a =
     (let a1 = a\<lparr>acq_source := ''case_data'',
                 acq_description := set_if_empty (acq_description a) (go_get values ''nm''),
                 acq_case_number := set_if_empty (acq_case_number a) (go_get values ''cn''),
                 acq_evidence_number := set_if_empty (acq_evidence_number a) (go_get values ''en''),
                 acq_examiner_name := set_if_empty (acq_examiner_name a) (go_get values ''ex''),
                 acq_notes := set_if_empty (acq_notes a) (go_get values ''nt''),
                 acq_software_version := set_if_empty (acq_software_version a) (go_get values ''av''),
                 acq_operating_system := set_if_empty (acq_operating_system a) (go_get values ''os''),
                 acq_compression_type := set_if_empty (acq_compression_type a) (go_get values ''cp'')\<rparr>;
          a2 = (if go_get values ''at'' \<noteq> [] then set_acquiry_date lib (go_get values ''at'') a1 else a1);
          a3 = (if go_get values ''tt'' \<noteq> [] then set_system_date lib (go_get values ''tt'') a2 else a2) in
      merge_values lib values a3)"

definition parse_case_data_v2 :: "golib \<Rightarrow> bytes \<Rightarrow> info \<Rightarrow> info" where
  "parse_case_data_v2 lib data nfo =
     (let values = decode_header_text lib data True in
      if values = [] then nfo
      else nfo\<lparr>inf_media := Some (case_media values (ensure_media nfo)),
               inf_acquisition := Some (case_acquisition lib values (ensure_acquisition nfo))\<rparr>)"

section \<open>Written blocks are read back\<close>

definition clean_cell :: "string \<Rightarrow> bool" where
  "clean_cell s \<longleftrightarrow> trim_space s = s \<and> CHR 0x09 \<notin> set s \<and> CHR 0x0A \<notin> set s \<and> CHR 0x0D \<notin> set s"

lemma pair_values_zip:
  assumes "length vs = length is" "distinct (map fst m @ is)" "\<forall>i \<in> set is. clean_cell i \<and> i \<noteq> []"
    "\<forall>v \<in> set vs. clean_cell v"
  shows "pair_values is vs m = m @ zip is vs"
  using assms
proof (induction "is" vs m rule: pair_values.induct)
  case (2 i "is" vs m)
  then obtain v vs' where vs: "vs = v # vs'" "length vs' = length is"
    by (cases vs) auto
  have "map_of m i = None" using "2.prems"(2) by (auto simp: map_of_eq_None_iff)
  then have put: "go_put i v m = m @ [(i, v)]"
    unfolding go_put_def by (induction m) (auto split: if_splits)
  have "pair_values is vs' (m @ [(i, v)]) = (m @ [(i, v)]) @ zip is vs'"
    using "2.IH"[OF refl refl] "2.prems" vs put by (simp add: clean_cell_def)
  then show ?case using "2.prems" vs put by (simp add: clean_cell_def)
qed simp

lemma main_block_skip:
  "\<forall>l \<in> set pre. trim_space l \<noteq> ''main'' \<Longrightarrow> main_block (pre @ ls) = main_block ls"
  by (induction pre) auto

lemma set_join_strings: "set (join_strings sep ss) \<subseteq> set sep \<union> \<Union>(set ` set ss)"
  by (induction sep ss rule: join_strings.induct) auto

lemma trim_space_main: "trim_space ''main'' = ''main''"
  by code_simp

definition header_lines :: "string list \<Rightarrow> string list \<Rightarrow> string list \<Rightarrow> string list" where
  "header_lines pre ids vals =
     pre @ [''main'', join_strings [CHR 0x09] ids, join_strings [CHR 0x09] vals]"

definition header_text :: "string list \<Rightarrow> string list \<Rightarrow> string list \<Rightarrow> string list \<Rightarrow> string" where
  "header_text pre ids vals rest = join_strings [CHR 0x0A] (header_lines pre ids vals @ rest)"

lemma join_cells_chars:
  assumes "\<forall>s \<in> set ss. clean_cell s"
  shows "CHR 0x0A \<notin> set (join_strings [CHR 0x09] ss)" "CHR 0x0D \<notin> set (join_strings [CHR 0x09] ss)"
  using assms set_join_strings [of "[CHR 0x09]" ss] by (auto simp: clean_cell_def)

text \<open>
  C35. The \<open>main\<close> block a writer stores, tab-separated identifiers over tab-separated
  values, is read back as exactly those pairs, whatever lines precede the block (none of
  them named \<open>main\<close>) and whatever blocks follow it.
\<close>

theorem parse_header_main_block_roundtrip:
  assumes ids: "ids \<noteq> []" "distinct ids" "\<forall>i \<in> set ids. clean_cell i \<and> i \<noteq> []"
    and vals: "length vals = length ids" "\<forall>v \<in> set vals. clean_cell v"
    and lines: "\<forall>l \<in> set (pre @ rest). CHR 0x0A \<notin> set l \<and> CHR 0x0D \<notin> set l"
    and pre: "\<forall>l \<in> set pre. trim_space l \<noteq> ''main''"
  shows "parse_header_main_block (header_text pre ids vals rest) = zip ids vals"
proof -
  let ?lines = "header_lines pre ids vals @ rest"
  have no_break: "CHR 0x0A \<notin> set l \<and> CHR 0x0D \<notin> set l" if "l \<in> set ?lines" for l
    using that lines ids vals join_cells_chars [of ids] join_cells_chars [of vals]
    by (auto simp: header_lines_def)
  have "CHR 0x0D \<notin> set (header_text pre ids vals rest)"
    using set_join_strings [of "[CHR 0x0A]" ?lines] no_break by (auto simp: header_text_def)
  moreover have "split_on (CHR 0x0A) (header_text pre ids vals rest) = ?lines"
    unfolding header_text_def using no_break
    by (intro split_on_join) (auto simp: header_lines_def)
  ultimately have "parse_header_main_block (header_text pre ids vals rest) = main_block ?lines"
    by (simp add: parse_header_main_block_def crlf_to_lf_id)
  also have "\<dots> = pair_values (split_on (CHR 0x09) (join_strings [CHR 0x09] ids))
      (split_on (CHR 0x09) (join_strings [CHR 0x09] vals)) []"
    using main_block_skip [OF pre] by (simp add: header_lines_def trim_space_main)
  also have "split_on (CHR 0x09) (join_strings [CHR 0x09] ids) = ids"
    using ids by (intro split_on_join) (auto simp: clean_cell_def)
  also have "split_on (CHR 0x09) (join_strings [CHR 0x09] vals) = vals"
    using ids vals by (intro split_on_join) (auto simp: clean_cell_def)
  also have "pair_values ids vals [] = zip ids vals"
    using pair_values_zip [of vals ids "[]"] ids vals by simp
  finally show ?thesis .
qed

theorem parse_header_main_block_roundtrip_witness:
  "parse_header_main_block (header_text [''3''] [''c'', ''n''] [''case 7'', ''''] ['''', ''srce'']) =
     [(''c'', ''case 7''), (''n'', '''')]"
proof -
  have "clean_cell ''c''" "clean_cell ''n''" "clean_cell ''case 7''" "clean_cell ''''"
    "trim_space ''3'' \<noteq> ''main''" by code_simp+
  then show ?thesis
    using parse_header_main_block_roundtrip [of "[''c'', ''n'']" "[''case 7'', '''']" "[''3'']" "['''', ''srce'']"]
    by simp
qed

section \<open>UTF-16\<close>

definition is_scalar :: "int \<Rightarrow> bool" where
  "is_scalar r \<longleftrightarrow> 0 \<le> r \<and> r < 0xD800 \<or> 0xE000 \<le> r \<and> r \<le> 0x10FFFF"

text \<open>The UTF-16 code units of a rune, and their little-endian bytes.\<close>

definition utf16_units :: "int \<Rightarrow> int list" where
  "utf16_units r =
     (if r < 0x10000 then [r]
      else [0xD800 + (r - 0x10000) div 1024, 0xDC00 + (r - 0x10000) mod 1024])"

definition utf16le_bytes :: "int list \<Rightarrow> bytes" where
  "utf16le_bytes us = concat (map (\<lambda>u. [word_of_int (u mod 256), word_of_int (u div 256)]) us)"

lemma utf16_runes_units:
  assumes "is_scalar r"
  shows "utf16_runes (utf16_units r @ us) = r # utf16_runes us"
proof (cases "r < 0x10000")
  case True
  with assms show ?thesis by (cases us) (auto simp: is_scalar_def utf16_units_def)
next
  case False
  define q where "q = r - 0x10000"
  have "0 \<le> q" "q < 1048576" "r = q + 0x10000" using assms False by (auto simp: q_def is_scalar_def)
  then have "0 \<le> q div 1024" "q div 1024 < 1024" "0 \<le> q mod 1024" "q mod 1024 < 1024" by auto
  then show ?thesis
    using False \<open>r = q + 0x10000\<close> by (simp add: utf16_units_def q_def [symmetric])
qed

lemma utf16_runes_all:
  "\<forall>r \<in> set rs. is_scalar r \<Longrightarrow> utf16_runes (concat (map utf16_units rs)) = rs"
  by (induction rs) (auto simp: utf16_runes_units)

lemma utf16_units_small: "is_scalar r \<Longrightarrow> u \<in> set (utf16_units r) \<Longrightarrow> 0 \<le> u \<and> u < 65536"
  by (auto simp: utf16_units_def is_scalar_def split: if_splits)

lemma le_units_utf16le: "\<forall>u \<in> set us. 0 \<le> u \<and> u < 65536 \<Longrightarrow> le_units (utf16le_bytes us) = us"
proof (induction us)
  case (Cons u us)
  then have u: "0 \<le> u div 256" "u div 256 < 256" by auto
  then have "uint (word_of_int (u mod 256) :: u8) + 256 * uint (word_of_int (u div 256) :: u8) = u"
    by (simp add: uint_word_of_int take_bit_int_eq_self)
  with Cons show ?case by (simp add: utf16le_bytes_def)
qed (simp add: utf16le_bytes_def)


lemma le_units_app: "even (length bs) \<Longrightarrow> le_units (bs @ [x]) = le_units bs"
  by (induction bs rule: le_units.induct) auto

lemma even_utf16le_bytes: "even (length (utf16le_bytes us))"
  by (induction us) (auto simp: utf16le_bytes_def)

text \<open>
  UTF-16 text is decoded without loss: the byte-order mark is dropped, every rune
  comes back (surrogate pairs included) in UTF-8, and an odd byte at the end is ignored.
\<close>

theorem decode_utf16le_text:
  assumes "\<forall>r \<in> set rs. is_scalar r" "length odd_byte \<le> 1"
  shows "decode_utf16le ([0xFF, 0xFE] @ utf16le_bytes (concat (map utf16_units rs)) @ odd_byte) =
           concat (map utf8_encode rs)"
proof -
  let ?b = "utf16le_bytes (concat (map utf16_units rs))"
  have "le_units (?b @ odd_byte) = le_units ?b"
    using assms(2) le_units_app [OF even_utf16le_bytes] by (cases odd_byte) auto
  moreover have "le_units ?b = concat (map utf16_units rs)"
    using assms(1) utf16_units_small by (intro le_units_utf16le) auto
  ultimately show ?thesis
    using utf16_runes_all [OF assms(1)] by (simp add: decode_utf16le_def trim_prefix_def)
qed

theorem decode_utf16le_text_witness:
  "decode_utf16le [0xFF, 0xFE, 0x63, 0x00, 0x3D, 0xD8, 0x00, 0xDE, 0x0A] =
     concat (map utf8_encode [0x63, 0x1F600])"
  using decode_utf16le_text [of "[0x63, 0x1F600]" "[0x0A]"]
  by (simp add: is_scalar_def utf16_units_def utf16le_bytes_def)



section \<open>Precedence\<close>

text \<open>A \<open>range\<close> loop visits every pair of a map once, in an order of its own.\<close>

definition visits_all :: "golib \<Rightarrow> bool" where
  "visits_all lib \<longleftrightarrow> (\<forall>m. mset (range_order lib m) = mset m)"

lemma visits_all_set: "visits_all lib \<Longrightarrow> set (range_order lib m) = set m"
  unfolding visits_all_def by (metis set_mset_mset)

lemma visits_all_map_of:
  "visits_all lib \<Longrightarrow> distinct (map fst m) \<Longrightarrow> map_of (range_order lib m) = map_of m"
  unfolding visits_all_def
  by (rule map_of_inject_set [THEN iffD2]) (metis mset_eq_imp_distinct_iff mset_map, metis, metis set_mset_mset)

lemma visits_all_distinct:
  "visits_all lib \<Longrightarrow> distinct (map fst m) \<Longrightarrow> distinct (map fst (range_order lib m))"
  unfolding visits_all_def by (metis mset_eq_imp_distinct_iff mset_map)

lemma distinct_pair_values: "distinct (map fst m) \<Longrightarrow> distinct (map fst (pair_values is vs m))"
  by (induction "is" vs m rule: pair_values.induct) (simp_all add: Let_def)

lemma distinct_main_block: "distinct (map fst (main_block ls))"
  by (induction ls rule: main_block.induct) (auto split: list.splits intro: distinct_pair_values)

lemma distinct_header_text: "distinct (map fst (decode_header_text lib payload u))"
  by (simp add: decode_header_text_def parse_header_main_block_def distinct_main_block Let_def)

lemma distinct_xml_values: "distinct (map fst m) \<Longrightarrow> distinct (map fst (xml_values lib root ts m))"
  by (induction lib root ts m rule: xml_values.induct) (auto simp: Let_def split: option.splits)

lemma distinct_xheader: "distinct (map fst (decode_xheader lib payload))"
  by (simp add: decode_xheader_def extract_xml_values_def distinct_xml_values split: option.split)

definition nonempty_value :: "go_map \<Rightarrow> string \<Rightarrow> string option" where
  "nonempty_value m k = (case map_of m k of Some v \<Rightarrow> if v = [] then None else Some v | None \<Rightarrow> None)"

lemma map_of_put_nonempty:
  "distinct (map fst kvs) \<Longrightarrow>
   map_of (fold put_nonempty kvs m) k =
     (case nonempty_value kvs k of Some v \<Rightarrow> Some v | None \<Rightarrow> map_of m k)"
proof (induction kvs arbitrary: m)
  case (Cons kv kvs)
  have "map_of kvs (fst kv) = None"
    using Cons.prems by (simp add: map_of_eq_None_iff)
  with Cons show ?case
    by (cases kv) (auto simp: nonempty_value_def put_nonempty_def split: option.splits)
qed (simp add: nonempty_value_def)

lemma distinct_put_nonempty:
  "distinct (map fst m) \<Longrightarrow> distinct (map fst (fold put_nonempty kvs m))"
  by (induction kvs arbitrary: m) (auto simp: put_nonempty_def)

text \<open>The first of some optional values.\<close>

fun first_some :: "'a option list \<Rightarrow> 'a option" where
  "first_some [] = None"
| "first_some (None # xs) = first_some xs"
| "first_some (Some x # xs) = Some x"

lemma merge_candidates_value:
  assumes "visits_all lib" "\<forall>c \<in> set cs. distinct (map fst (snd c))"
  shows "map_of (merge_candidates lib cs) k = first_some (map (\<lambda>c. nonempty_value (snd c) k) cs)"
  using assms(2)
proof (induction cs)
  case (Cons c cs)
  have "nonempty_value (range_order lib (snd c)) k = nonempty_value (snd c) k"
    using visits_all_map_of [OF assms(1)] Cons.prems by (simp add: nonempty_value_def)
  with Cons assms(1) show ?case
    by (simp add: merge_candidates_def map_of_put_nonempty visits_all_distinct split: option.split)
qed (simp add: merge_candidates_def)

lemma distinct_merge_candidates: "distinct (map fst (merge_candidates lib cs))"
  by (induction cs) (simp_all add: merge_candidates_def distinct_put_nonempty)

lemma apply_field_values [simp]: "acq_values (apply_field kv a) = acq_values a"
proof -
  have "acq_values (set_field f v a) = acq_values a" for f v
    by (cases f) (simp_all add: set_password_hash_def)
  then show ?thesis by (simp add: apply_field_def split: option.split)
qed

lemma fold_apply_field_values [simp]: "acq_values (fold apply_field kvs a) = acq_values a"
  by (induction kvs arbitrary: a) auto

lemma apply_field_source [simp]: "acq_source (apply_field kv a) = acq_source a"
proof -
  have "acq_source (set_field f v a) = acq_source a" for f v
    by (cases f) (simp_all add: set_password_hash_def)
  then show ?thesis by (simp add: apply_field_def split: option.split)
qed

lemma fold_apply_field_source [simp]: "acq_source (fold apply_field kvs a) = acq_source a"
  by (induction kvs arbitrary: a) auto

lemma set_dates_simps [simp]:
  "acq_values (set_acquiry_date lib raw a) = acq_values a"
  "acq_source (set_acquiry_date lib raw a) = acq_source a"
  "acq_values (set_system_date lib raw a) = acq_values a"
  "acq_source (set_system_date lib raw a) = acq_source a"
  by (simp_all add: set_acquiry_date_def set_system_date_def Let_def split: option.split)

lemma apply_header_values_simps [simp]:
  "acq_values (apply_header_values lib a) = acq_values a"
  "acq_source (apply_header_values lib a) = acq_source a"
  by (simp_all add: apply_header_values_def Let_def split: option.split)

lemma candidate_value:
  "first_some (map (\<lambda>c. nonempty_value (snd c) k) (filter (\<lambda>c. snd c \<noteq> []) cs)) =
   first_some (map (\<lambda>c. nonempty_value (snd c) k) cs)"
  by (induction cs) (auto simp: nonempty_value_def split: option.split)

text \<open>
  C33. When a segment carries several header sections, every identifier takes its first
  non-empty value in the order \<open>header2\<close>, \<open>header\<close>, \<open>xheader\<close>, and the source named is the
  first section that yielded any pair, in whatever order the map loops run.
\<close>

theorem resolve_acquisition_precedence:
  assumes lib: "visits_all lib"
    and h2: "v2 = decode_header_text lib (nil_bytes (hp_header2 h)) True"
    and h1: "v1 = decode_header_text lib (nil_bytes (hp_header h)) False"
    and hx: "vx = decode_xheader lib (nil_bytes (hp_xheader h))"
    and some: "v2 \<noteq> [] \<or> v1 \<noteq> [] \<or> vx \<noteq> []"
  shows "\<exists>a. inf_acquisition (resolve_acquisition lib h nfo) = Some a \<and>
      acq_source a = (if v2 \<noteq> [] then ''header2'' else if v1 \<noteq> [] then ''header'' else ''xheader'') \<and>
      map_of (acq_values a) k =
        first_some [nonempty_value v2 k, nonempty_value v1 k, nonempty_value vx k]"
proof -
  let ?cs = "[(''header2'', v2), (''header'', v1), (''xheader'', vx)]"
  have cands: "header_candidates lib h = filter (\<lambda>c. snd c \<noteq> []) ?cs"
    by (simp add: header_candidates_def h2 h1 hx)
  have ne: "\<not> payloads_empty h"
  proof
    assume "payloads_empty h"
    then have "v2 = []" "v1 = []" "vx = []"
      by (simp_all add: payloads_empty_def h2 h1 hx nil_bytes_def decode_header_text_def decode_xheader_def)
    with some show False by simp
  qed
  have "\<exists>c cs. filter (\<lambda>c. snd c \<noteq> []) ?cs = c # cs \<and>
      fst c = (if v2 \<noteq> [] then ''header2'' else if v1 \<noteq> [] then ''header'' else ''xheader'')"
    using some by simp
  then obtain c cs where cc: "filter (\<lambda>c. snd c \<noteq> []) ?cs = c # cs"
    and src: "fst c = (if v2 \<noteq> [] then ''header2'' else if v1 \<noteq> [] then ''header'' else ''xheader'')"
    by blast
  have "\<forall>d \<in> set (c # cs). distinct (map fst (snd d))"
    unfolding cc [symmetric] by (auto simp: h2 h1 hx distinct_header_text distinct_xheader)
  from merge_candidates_value [OF lib this]
  have "map_of (merge_candidates lib (c # cs)) k =
      first_some (map (\<lambda>c. nonempty_value (snd c) k) ?cs)"
    unfolding cc [symmetric] candidate_value by simp
  moreover have "inf_acquisition (resolve_acquisition lib h nfo) = Some (apply_header_values lib
      (empty_acquisition\<lparr>acq_values := merge_candidates lib (c # cs), acq_source := fst c\<rparr>))"
    unfolding resolve_acquisition_def cands cc using ne by simp
  ultimately show ?thesis using src by simp
qed

section \<open>Iteration order\<close>

lemma set_field_commute:
  "f \<noteq> g \<Longrightarrow> set_field f v (set_field g w a) = set_field g w (set_field f v a)"
  by (cases f; cases g) (simp_all add: set_password_hash_def)

definition no_alias :: "go_map \<Rightarrow> bool" where
  "no_alias m \<longleftrightarrow> distinct (filter (\<lambda>f. f \<noteq> None) (map (\<lambda>kv. field_of_key (fst kv)) m))"

lemma apply_field_commute:
  assumes "no_alias m" "x \<in> set m" "y \<in> set m"
  shows "apply_field x \<circ> apply_field y = apply_field y \<circ> apply_field x"
proof (cases "x = y \<or> field_of_key (fst x) = None \<or> field_of_key (fst y) = None")
  case True
  then show ?thesis by (auto simp: apply_field_def fun_eq_iff split: option.split)
next
  case False
  then obtain f g where fg: "field_of_key (fst x) = Some f" "field_of_key (fst y) = Some g" by auto
  have "f \<noteq> g"
  proof
    assume "f = g"
    have "inj_on (\<lambda>kv. field_of_key (fst kv)) (set (filter (\<lambda>kv. field_of_key (fst kv) \<noteq> None) m))"
      using assms(1) by (simp add: no_alias_def filter_map comp_def distinct_map)
    then have "x = y"
      using assms(2,3) fg \<open>f = g\<close> by (elim inj_onD) auto
    then show False using False by simp
  qed
  then show ?thesis by (auto simp: apply_field_def fg fun_eq_iff set_field_commute)
qed

lemma parse_header_time_order [simp]:
  "parse_header_time (lib\<lparr>range_order := ord\<rparr>) = parse_header_time lib"
  by (simp add: parse_header_time_def fun_eq_iff Let_def cong: option.case_cong)

lemma set_dates_order [simp]:
  "set_acquiry_date (lib\<lparr>range_order := ord\<rparr>) = set_acquiry_date lib"
  "set_system_date (lib\<lparr>range_order := ord\<rparr>) = set_system_date lib"
  by (simp_all add: set_acquiry_date_def set_system_date_def fun_eq_iff)

text \<open>
  C34. Filling the acquisition record from the header values does not depend on the order in
  which Go visits the map, provided no field has two of its identifiers present.
\<close>

theorem apply_header_values_order:
  assumes "no_alias (acq_values a)"
    and "mset (ord (acq_values a)) = mset (acq_values a)"
    and "mset (ord' (acq_values a)) = mset (acq_values a)"
  shows "apply_header_values (lib\<lparr>range_order := ord\<rparr>) a =
    apply_header_values (lib\<lparr>range_order := ord'\<rparr>) a"
proof -
  have "fold apply_field (ord (acq_values a)) = fold apply_field (ord' (acq_values a))"
    using assms
    by (intro fold_multiset_equiv)
       (auto intro: apply_field_commute dest: mset_eq_setD)
  then show ?thesis
    by (simp add: apply_header_values_def cong: option.case_cong)
qed

definition plain_lib :: golib where
  "plain_lib =
     \<lparr>zlib_new_reader = (\<lambda>_. Some (Plain ''zlib: invalid header'')), zlib_read_all = (\<lambda>bs. Inr bs),
      bzip2_read_all = (\<lambda>bs. Inr bs), xml_tokens = (\<lambda>_. []), to_lower = (\<lambda>s. s),
      layout_matches = (\<lambda>_ _. False), range_order = (\<lambda>m. m)\<rparr>"

theorem apply_header_values_order_witness:
  "let a = empty_acquisition\<lparr>acq_values := [(''c'', ''case 7''), (''n'', ''12''), (''zz'', ''?'')]\<rparr> in
   apply_header_values (plain_lib\<lparr>range_order := (\<lambda>m. m)\<rparr>) a =
   apply_header_values (plain_lib\<lparr>range_order := rev\<rparr>) a"
proof -
  have "no_alias [(''c'', ''case 7''), (''n'', ''12''), (''zz'', ''?'')]" by code_simp
  then show ?thesis
    using apply_header_values_order
      [of "empty_acquisition\<lparr>acq_values := [(''c'', ''case 7''), (''n'', ''12''), (''zz'', ''?'')]\<rparr>"
        "\<lambda>m. m" rev plain_lib] by simp
qed

text \<open>
  With both spellings of an identifier present (a short one from \<open>header2\<close> and the long
  one from \<open>xheader\<close>), the order of the loop decides which section wins.
\<close>

lemma apply_header_values_alias_race:
  "let a = empty_acquisition\<lparr>acq_values := [(''case_number'', ''xheader''), (''c'', ''header2'')]\<rparr> in
   acq_case_number (apply_header_values (plain_lib\<lparr>range_order := (\<lambda>m. m)\<rparr>) a) = ''header2'' \<and>
   acq_case_number (apply_header_values (plain_lib\<lparr>range_order := rev\<rparr>) a) = ''xheader''"
  by code_simp

theorem resolve_acquisition_precedence_witness:
  "let h = \<lparr>hp_header = Some (bytes_of_string ''3'' @ [10] @ bytes_of_string ''main'' @ [10, 99, 10, 55]),
            hp_header2 = None, hp_xheader = None\<rparr> in
   \<exists>a. inf_acquisition (resolve_acquisition plain_lib h (initial_info empty_header [])) = Some a \<and>
       acq_source a = ''header'' \<and> map_of (acq_values a) ''c'' = Some ''7''"
proof -
  let ?h = "\<lparr>hp_header = Some (bytes_of_string ''3'' @ [10] @ bytes_of_string ''main'' @ [10, 99, 10, 55]),
            hp_header2 = None, hp_xheader = None\<rparr>"
  have v1: "decode_header_text plain_lib (nil_bytes (hp_header ?h)) False = [(''c'', ''7'')]"
    and vs: "decode_header_text plain_lib (nil_bytes (hp_header2 ?h)) True = []"
      "decode_xheader plain_lib (nil_bytes (hp_xheader ?h)) = []"
    by code_simp+
  have "visits_all plain_lib" by (simp add: visits_all_def plain_lib_def)
  from resolve_acquisition_precedence [OF this vs(1) [symmetric] v1 [symmetric] vs(2) [symmetric],
      of "initial_info empty_header []" "''c''"]
  show ?thesis by (simp add: nonempty_value_def Let_def)
qed

section \<open>Version 2 geometry\<close>

text \<open>The geometry is split over two sections; the order in which they are met does not matter.\<close>

text \<open>
  The geometry of a v2 image comes out of its two text sections whichever is met first:
  sector size and count from \<open>device_information\<close>, sectors per chunk from \<open>case_data\<close>.
\<close>

theorem v2_geometry:
  assumes dev: "decode_header_text lib dev_data True = dev" "dev \<noteq> []"
    and cas: "decode_header_text lib case_data True = cas" "cas \<noteq> []"
    and nums: "parse_uint (go_get dev ''bp'') = Some bp" "parse_uint (go_get dev ''ts'') = Some ts"
      "parse_uint (go_get cas ''sb'') = Some sb"
  shows "inf_media (parse_case_data_v2 lib case_data (parse_device_information_v2 lib dev_data nfo)) =
           inf_media (parse_device_information_v2 lib dev_data (parse_case_data_v2 lib case_data nfo)) \<and>
    (\<exists>m. inf_media (parse_case_data_v2 lib case_data (parse_device_information_v2 lib dev_data nfo)) = Some m \<and>
         mi_bytes_per_sector m = ucast bp \<and> mi_number_of_sectors m = ts \<and> mi_sectors_per_chunk m = ucast sb)"
  using assms
  by (cases "inf_media nfo")
     (simp_all add: parse_case_data_v2_def parse_device_information_v2_def Let_def ensure_media_def
       device_media_def case_media_def split: option.split)

definition ascii_utf16 :: "string \<Rightarrow> bytes" where
  "ascii_utf16 s = concat (map (\<lambda>c. [byte_char c, 0]) s)"

theorem v2_geometry_witness:
  "let dev = ascii_utf16 (header_text [] [''bp'', ''ts''] [''512'', ''64''] []);
       cas = ascii_utf16 (header_text [] [''sb''] [''8''] []) in
   \<exists>m. inf_media (parse_case_data_v2 plain_lib cas
            (parse_device_information_v2 plain_lib dev (initial_info empty_header []))) = Some m \<and>
       mi_bytes_per_sector m = 512 \<and> mi_number_of_sectors m = 64 \<and> mi_sectors_per_chunk m = 8"
proof -
  let ?dev = "ascii_utf16 (header_text [] [''bp'', ''ts''] [''512'', ''64''] [])"
  let ?cas = "ascii_utf16 (header_text [] [''sb''] [''8''] [])"
  have dev: "decode_header_text plain_lib ?dev True = [(''bp'', ''512''), (''ts'', ''64'')]" by code_simp
  have cas: "decode_header_text plain_lib ?cas True = [(''sb'', ''8'')]" by code_simp
  have nums: "parse_uint (go_get [(''bp'', ''512''), (''ts'', ''64'')] ''bp'') = Some 512"
    "parse_uint (go_get [(''bp'', ''512''), (''ts'', ''64'')] ''ts'') = Some 64"
    "parse_uint (go_get [(''sb'', ''8'')] ''sb'') = Some 8"
    by (simp_all add: parse_uint_def go_get_def parse_uint64_def is_dec_digit_def of_char_def)
  show ?thesis
    using conjunct2 [OF v2_geometry [OF dev _ cas _ nums, of "initial_info empty_header []"]]
    by (simp add: Let_def)
qed

end
