(* ===== verification/Payloads.thy ===== *)
theory Payloads
  imports Header_Text
begin

text \<open>
  \<open>reader/payload_parsing.go\<close>: the bodies of the metadata sections, and the pass over
  the sections of a segment that applies them to the image metadata.
\<close>

section \<open>Geometry and digests\<close>

definition max_section_payload :: int where
  [go_defs]: "max_section_payload = 67108864"

definition section_payload_size :: "section_info \<Rightarrow> u64" where
  "section_payload_size s =
     (if si_data_size s = 0 then 0
      else if 0 < si_padding_size s \<and> (ucast (si_padding_size s) :: u64) < si_data_size s
      then si_data_size s - ucast (si_padding_size s)
      else si_data_size s)"

definition parse_volume_section_e01 :: "bytes \<Rightarrow> info \<Rightarrow> info" where
  "parse_volume_section_e01 data nfo =
     nfo\<lparr>inf_media := Some
       \<lparr>mi_media_type = data ! 0,
        mi_number_of_chunks = ucast (le32 (subslice data 4 8)),
        mi_sectors_per_chunk = le32 (subslice data 8 12),
        mi_bytes_per_sector = le32 (subslice data 12 16),
        mi_number_of_sectors = le64 (subslice data 16 24),
        mi_media_flags = data ! 36,
        mi_compression_level = data ! 52,
        mi_error_granularity = le32 (subslice data 56 60),
        mi_set_identifier = subslice data 64 80\<rparr>\<rparr>"

definition parse_volume_section_s01 :: "bytes \<Rightarrow> info \<Rightarrow> info" where
  "parse_volume_section_s01 data nfo =
     nfo\<lparr>inf_media := Some ((ensure_media nfo)
       \<lparr>mi_number_of_chunks := ucast (le32 (subslice data 4 8)),
        mi_sectors_per_chunk := le32 (subslice data 8 12),
        mi_bytes_per_sector := le32 (subslice data 12 16),
        mi_number_of_sectors := ucast (le32 (subslice data 16 20))\<rparr>)\<rparr>"

definition parse_md5_like_section :: "u8 \<Rightarrow> bytes \<Rightarrow> info \<Rightarrow> info" where
  "parse_md5_like_section major data nfo =
     (if major = 1 then
        (if 80 \<le> length data
         then nfo\<lparr>inf_md5 := subslice data 0 16, inf_sha1 := subslice data 16 36,
                  inf_has_md5 := True, inf_has_sha1 := True\<rparr>
         else if 36 \<le> length data
         then nfo\<lparr>inf_md5 := subslice data 0 16, inf_has_md5 := True\<rparr>
         else nfo)
      else if 16 \<le> length data
      then nfo\<lparr>inf_md5 := subslice data 0 16, inf_has_md5 := True\<rparr>
      else nfo)"

definition parse_sha1_section :: "u8 \<Rightarrow> bytes \<Rightarrow> info \<Rightarrow> info" where
  "parse_sha1_section major data nfo =
     (if 20 \<le> length data
      then nfo\<lparr>inf_sha1 := subslice data 0 20, inf_has_sha1 := True\<rparr> else nfo)"

section \<open>Sessions and acquisition errors\<close>

text \<open>
  Both kinds of section are a header with a count, then fixed-size entries; the two
  versions differ in the sizes and in the entry layout. Nothing is taken from a section
  whose count is implausible or whose body is shorter than the count says.
\<close>

definition table_body :: "int \<Rightarrow> int \<Rightarrow> bytes \<Rightarrow> int option" where
  "table_body header_size entry_size data =
     (if int (length data) < header_size then None
      else let count = uint (le32 (subslice data 0 4)) in
           if count < 0 \<or> 1048576 < count then None
           else if int (length data) < header_size + count * entry_size then None
           else Some count)"

definition session_entry_v1 :: "bytes \<Rightarrow> session_entry" where
  "session_entry_v1 e =
     \<lparr>se_flags = le32 (subslice e 0 4), se_start_sector = ucast (le32 (subslice e 4 8))\<rparr>"

definition session_entry_v2 :: "bytes \<Rightarrow> session_entry" where
  "session_entry_v2 e =
     \<lparr>se_flags = le32 (subslice e 8 12), se_start_sector = le64 (subslice e 0 8)\<rparr>"

definition error_entry_v1 :: "bytes \<Rightarrow> acquisition_error" where
  "error_entry_v1 e =
     \<lparr>ae_start_sector = ucast (le32 (subslice e 0 4)), ae_number_of_sectors = le32 (subslice e 4 8)\<rparr>"

definition error_entry_v2 :: "bytes \<Rightarrow> acquisition_error" where
  "error_entry_v2 e =
     \<lparr>ae_start_sector = le64 (subslice e 0 8), ae_number_of_sectors = le32 (subslice e 8 12)\<rparr>"

definition entries_at :: "(bytes \<Rightarrow> 'e) \<Rightarrow> nat \<Rightarrow> nat \<Rightarrow> bytes \<Rightarrow> nat \<Rightarrow> 'e list" where
  "entries_at decode header_size entry_size data n =
     map (\<lambda>i. decode (subslice data (header_size + i * entry_size) (header_size + i * entry_size + entry_size)))
       [0..<n]"

definition parse_session_section :: "u8 \<Rightarrow> bytes \<Rightarrow> info \<Rightarrow> info" where
  "parse_session_section major data nfo =
     (if major = 1 then
        (case table_body 36 32 data of
           None \<Rightarrow> nfo
         | Some n \<Rightarrow> nfo\<lparr>inf_sessions := inf_sessions nfo @ entries_at session_entry_v1 36 32 data (nat n)\<rparr>)
      else
        (case table_body 32 32 data of
           None \<Rightarrow> nfo
         | Some n \<Rightarrow> nfo\<lparr>inf_sessions := inf_sessions nfo @ entries_at session_entry_v2 32 32 data (nat n)\<rparr>))"

definition parse_error_section :: "u8 \<Rightarrow> bytes \<Rightarrow> info \<Rightarrow> info" where
  "parse_error_section major data nfo =
     (if major = 1 then
        (case table_body 520 8 data of
           None \<Rightarrow> nfo
         | Some n \<Rightarrow> nfo\<lparr>inf_errors := inf_errors nfo @ entries_at error_entry_v1 520 8 data (nat n)\<rparr>)
      else
        (case table_body 32 16 data of
           None \<Rightarrow> nfo
         | Some n \<Rightarrow> nfo\<lparr>inf_errors := inf_errors nfo @ entries_at error_entry_v2 32 16 data (nat n)\<rparr>))"

section \<open>The pass over the sections\<close>

record payload_state =
  ps_session_parsed :: bool
  ps_errors_parsed :: bool
  ps_headers :: header_payloads
  ps_info :: info

definition parse_device_section :: "golib \<Rightarrow> u8 \<Rightarrow> bytes \<Rightarrow> info \<Rightarrow> info" where
  "parse_device_section lib major data nfo =
     (if major = 1
      then (if 1052 \<le> length data then parse_volume_section_e01 data nfo
            else if 94 \<le> length data then parse_volume_section_s01 data nfo
            else nfo)
      else parse_device_information_v2 lib data nfo)"

definition keep_first :: "bytes option \<Rightarrow> bytes \<Rightarrow> bytes option" where
  "keep_first old data = (case old of None \<Rightarrow> Some data | Some _ \<Rightarrow> old)"

definition apply_named_section :: "golib \<Rightarrow> string \<Rightarrow> bytes \<Rightarrow> payload_state \<Rightarrow> payload_state" where
  "apply_named_section lib name data st =
     (let h = ps_headers st in
      if name = ''xhash'' then st\<lparr>ps_info := parse_xhash_section lib data (ps_info st)\<rparr>
      else if name = ''header'' then st\<lparr>ps_headers := h\<lparr>hp_header := keep_first (hp_header h) data\<rparr>\<rparr>
      else if name = ''header2'' then st\<lparr>ps_headers := h\<lparr>hp_header2 := keep_first (hp_header2 h) data\<rparr>\<rparr>
      else if name = ''xheader'' then st\<lparr>ps_headers := h\<lparr>hp_xheader := keep_first (hp_xheader h) data\<rparr>\<rparr>
      else st)"

definition apply_section_body ::
  "golib \<Rightarrow> u8 \<Rightarrow> section_info \<Rightarrow> bytes \<Rightarrow> payload_state \<Rightarrow> payload_state" where
  "apply_section_body lib major s data st =
     (let nfo = ps_info st; t = si_type s in
      if t = section_code DeviceInformation
      then st\<lparr>ps_info := parse_device_section lib major data nfo\<rparr>
      else if t = section_code CaseData
      then (if major \<noteq> 1 then st\<lparr>ps_info := parse_case_data_v2 lib data nfo\<rparr> else st)
      else if t = section_code MD5Hash then st\<lparr>ps_info := parse_md5_like_section major data nfo\<rparr>
      else if t = section_code SHA1Hash then st\<lparr>ps_info := parse_sha1_section major data nfo\<rparr>
      else if t = section_code SessionTable
      then (if ps_session_parsed st then st
            else st\<lparr>ps_info := parse_session_section major data nfo, ps_session_parsed := True\<rparr>)
      else if t = section_code ErrorTable
      then (if ps_errors_parsed st then st
            else st\<lparr>ps_info := parse_error_section major data nfo, ps_errors_parsed := True\<rparr>)
      else if major \<noteq> 1 then st
      else apply_named_section lib (si_type_string s) data st)"

definition apply_section_payload ::
  "golib \<Rightarrow> io_source \<Rightarrow> u8 \<Rightarrow> section_info \<Rightarrow> payload_state \<Rightarrow> payload_state" where
  "apply_section_payload lib src major s st =
     (let n = uint (section_payload_size s) in
      if n = 0 \<or> max_section_payload < n then st
      else case read_slice src (si_data_offset s) n of
             Inl _ \<Rightarrow> st
           | Inr data \<Rightarrow> apply_section_body lib major s data st)"

definition populate_metadata ::
  "golib \<Rightarrow> io_source \<Rightarrow> header_info \<Rightarrow> section_info list \<Rightarrow> info \<Rightarrow> info" where
  "populate_metadata lib src header sections nfo =
     (let st = fold (apply_section_payload lib src (hi_major_version header)) sections
                 \<lparr>ps_session_parsed = False, ps_errors_parsed = False, ps_headers = no_payloads,
                  ps_info = nfo\<rparr> in
      resolve_acquisition lib (ps_headers st) (ps_info st))"

section \<open>Bodies do not change the summary\<close>

text \<open>The fields of the metadata that come from the descriptors alone.\<close>

definition same_summary :: "info \<Rightarrow> info \<Rightarrow> bool" where
  "same_summary x y \<longleftrightarrow>
     inf_major_version x = inf_major_version y \<and> inf_minor_version x = inf_minor_version y \<and>
     inf_compression_method x = inf_compression_method y \<and>
     inf_segment_number x = inf_segment_number y \<and> inf_section_count x = inf_section_count y \<and>
     inf_has_next x = inf_has_next y \<and> inf_has_done x = inf_has_done y \<and>
     inf_is_encrypted x = inf_is_encrypted y \<and>
     inf_has_integrity_blocks x = inf_has_integrity_blocks y \<and>
     inf_type_counts x = inf_type_counts y \<and> inf_sections x = inf_sections y"

lemma same_summary_refl [simp]: "same_summary x x"
  by (simp add: same_summary_def)

lemma same_summary_trans: "same_summary x y \<Longrightarrow> same_summary y z \<Longrightarrow> same_summary x z"
  by (simp add: same_summary_def)

named_theorems summary_frame \<open>operations that leave the descriptor summary alone\<close>

lemma volume_frame [summary_frame]:
  "same_summary (parse_volume_section_e01 data nfo) nfo"
  "same_summary (parse_volume_section_s01 data nfo) nfo"
  by (simp_all add: same_summary_def parse_volume_section_e01_def parse_volume_section_s01_def)

lemma digest_frame [summary_frame]:
  "same_summary (parse_md5_like_section major data nfo) nfo"
  "same_summary (parse_sha1_section major data nfo) nfo"
  by (simp_all add: same_summary_def parse_md5_like_section_def parse_sha1_section_def)

lemma list_frame [summary_frame]:
  "same_summary (parse_session_section major data nfo) nfo"
  "same_summary (parse_error_section major data nfo) nfo"
  by (simp_all add: same_summary_def parse_session_section_def parse_error_section_def split: option.split)

lemma text_frame [summary_frame]:
  "same_summary (parse_device_information_v2 lib data nfo) nfo"
  "same_summary (parse_case_data_v2 lib data nfo) nfo"
  by (simp_all add: same_summary_def parse_device_information_v2_def parse_case_data_v2_def Let_def)

lemma xhash_frame [summary_frame]: "same_summary (parse_xhash_section lib data nfo) nfo"
  by (auto simp: same_summary_def parse_xhash_section_def Let_def split: option.split prod.split)

lemma resolve_frame [summary_frame]: "same_summary (resolve_acquisition lib h nfo) nfo"
  by (simp add: same_summary_def resolve_acquisition_def split: list.split)

lemma device_frame [summary_frame]: "same_summary (parse_device_section lib major data nfo) nfo"
  by (simp add: parse_device_section_def summary_frame)

lemma named_frame: "same_summary (ps_info (apply_named_section lib name data st)) (ps_info st)"
  by (simp add: apply_named_section_def summary_frame Let_def)

lemma payload_frame: "same_summary (ps_info (apply_section_payload lib src major s st)) (ps_info st)"
  by (simp add: apply_section_payload_def apply_section_body_def summary_frame named_frame Let_def
      split: sum.split)

lemma fold_payload_frame:
  "same_summary (ps_info (fold (apply_section_payload lib src major) ss st)) (ps_info st)"
proof (induction ss arbitrary: st)
  case (Cons s ss)
  then show ?case
    using same_summary_trans [OF Cons.IH payload_frame] by simp
qed simp

lemma populate_metadata_frame [summary_frame]:
  "same_summary (populate_metadata lib src header ss nfo) nfo"
proof -
  let ?st = "\<lparr>ps_session_parsed = False, ps_errors_parsed = False, ps_headers = no_payloads,
    ps_info = nfo\<rparr>"
  have "same_summary (ps_info (fold (apply_section_payload lib src (hi_major_version header)) ss ?st)) nfo"
    using fold_payload_frame [of lib src "hi_major_version header" ss ?st] by simp
  then show ?thesis
    unfolding populate_metadata_def Let_def by (rule same_summary_trans [OF resolve_frame])
qed

section \<open>Well-formed metadata\<close>

definition info_ok :: "info \<Rightarrow> bool" where
  "info_ok nfo \<longleftrightarrow>
     length (inf_md5 nfo) = 16 \<and> length (inf_sha1 nfo) = 20 \<and>
     (case inf_media nfo of None \<Rightarrow> True | Some m \<Rightarrow> length (mi_set_identifier m) = 16) \<and>
     (case inf_acquisition nfo of None \<Rightarrow> True | Some a \<Rightarrow> distinct (map fst (acq_values a)))"

named_theorems info_ok_intros \<open>operations that keep the metadata well formed\<close>

lemma distinct_put_missing:
  "distinct (map fst m) \<Longrightarrow> distinct (map fst (fold put_missing kvs m))"
  by (induction kvs arbitrary: m) (auto simp: put_missing_def split: option.split)

lemma volume_ok [info_ok_intros]:
  "info_ok nfo \<Longrightarrow> 1052 \<le> length data \<Longrightarrow> info_ok (parse_volume_section_e01 data nfo)"
  "info_ok nfo \<Longrightarrow> info_ok (parse_volume_section_s01 data nfo)"
  by (auto simp: info_ok_def parse_volume_section_e01_def parse_volume_section_s01_def
      ensure_media_def empty_media_def split: option.splits)

lemma digest_ok [info_ok_intros]:
  "info_ok nfo \<Longrightarrow> info_ok (parse_md5_like_section major data nfo)"
  "info_ok nfo \<Longrightarrow> info_ok (parse_sha1_section major data nfo)"
  by (auto simp: info_ok_def parse_md5_like_section_def parse_sha1_section_def)

lemma list_ok [info_ok_intros]:
  "info_ok nfo \<Longrightarrow> info_ok (parse_session_section major data nfo)"
  "info_ok nfo \<Longrightarrow> info_ok (parse_error_section major data nfo)"
  by (auto simp: info_ok_def parse_session_section_def parse_error_section_def split: option.splits)

lemma xhash_ok [info_ok_intros]: "info_ok nfo \<Longrightarrow> info_ok (parse_xhash_section lib data nfo)"
  by (auto simp: info_ok_def parse_xhash_section_def Let_def split: option.split prod.split)

lemma ensure_ok:
  "info_ok nfo \<Longrightarrow> length (mi_set_identifier (ensure_media nfo)) = 16"
  "info_ok nfo \<Longrightarrow> distinct (map fst (acq_values (ensure_acquisition nfo)))"
  by (auto simp: info_ok_def ensure_media_def ensure_acquisition_def empty_media_def
      empty_acquisition_def split: option.splits)

lemma text_media_ok:
  "mi_set_identifier (device_media values m) = mi_set_identifier m"
  "mi_set_identifier (case_media values m) = mi_set_identifier m"
  by (simp_all add: device_media_def case_media_def Let_def split: option.split)

lemma text_ok [info_ok_intros]:
  "info_ok nfo \<Longrightarrow> info_ok (parse_device_information_v2 lib data nfo)"
  "info_ok nfo \<Longrightarrow> info_ok (parse_case_data_v2 lib data nfo)"
  using ensure_ok [of nfo]
  by (simp_all add: info_ok_def parse_device_information_v2_def parse_case_data_v2_def Let_def
      text_media_ok merge_values_def case_acquisition_def distinct_put_missing)

lemma resolve_ok [info_ok_intros]: "info_ok nfo \<Longrightarrow> info_ok (resolve_acquisition lib h nfo)"
  by (simp add: info_ok_def resolve_acquisition_def distinct_merge_candidates split: list.split)

lemma device_ok [info_ok_intros]: "info_ok nfo \<Longrightarrow> info_ok (parse_device_section lib major data nfo)"
  by (simp add: parse_device_section_def info_ok_intros)

lemma payload_ok:
  "info_ok (ps_info st) \<Longrightarrow> info_ok (ps_info (apply_section_payload lib src major s st))"
  by (simp add: apply_section_payload_def apply_section_body_def apply_named_section_def
      info_ok_intros Let_def split: sum.split)

lemma fold_payload_ok:
  "info_ok (ps_info st) \<Longrightarrow> info_ok (ps_info (fold (apply_section_payload lib src major) ss st))"
  by (induction ss arbitrary: st) (simp_all add: payload_ok)

lemma populate_metadata_ok [info_ok_intros]:
  "info_ok nfo \<Longrightarrow> info_ok (populate_metadata lib src header ss nfo)"
  by (simp add: populate_metadata_def Let_def resolve_ok fold_payload_ok)

lemma fold_summary_ok:
  "info_ok nfo \<Longrightarrow> info_ok (fold apply_section_summary ss nfo)"
  by (induction ss arbitrary: nfo) (simp_all add: info_ok_def apply_section_summary_def Let_def)

lemma build_metadata_ok [info_ok_intros]: "info_ok (build_metadata header ss)"
  unfolding build_metadata_def by (rule fold_summary_ok) (simp add: info_ok_def initial_info_def)

text \<open>
  Decoding the section bodies of a segment leaves everything the descriptors said as
  it was, the encryption flag and the terminator flags above all, and keeps the metadata
  well formed: digests and set identifier of their length, header keys distinct.
\<close>

theorem segment_metadata_sound:
  "let nfo = populate_metadata lib src header ss (build_metadata header ss) in
   info_ok nfo \<and> inf_section_count nfo = length ss \<and> inf_sections nfo = map summary_of ss \<and>
   inf_has_done nfo = has_type DoneSection ss \<and> inf_has_next nfo = has_type NextSection ss \<and>
   inf_is_encrypted nfo = list_ex encrypted_section ss"
  using populate_metadata_frame [of lib src header ss "build_metadata header ss"]
  by (simp add: info_ok_intros same_summary_def build_metadata_fields Let_def)

section \<open>Written lists are read back\<close>

lemma entries_at_encode:
  assumes "length hdr = h" "\<And>e. length (enc e) = k"
  shows "entries_at dec h k (hdr @ concat (map enc es) @ rest) (length es) = map (\<lambda>e. dec (enc e)) es"
  using assms(1)
proof (induction es arbitrary: hdr h)
  case (Cons e es)
  have "entries_at dec h k (hdr @ concat (map enc (e # es)) @ rest) (length (e # es)) =
      dec (subslice (hdr @ enc e @ concat (map enc es) @ rest) h (h + k)) #
      entries_at dec (h + k) k ((hdr @ enc e) @ concat (map enc es) @ rest) (length es)"
    unfolding entries_at_def
    by (simp add: upt_conv_Cons map_Suc_upt [symmetric] comp_def add.assoc del: upt_Suc)
  also have "subslice (hdr @ enc e @ concat (map enc es) @ rest) h (h + k) = enc e"
    using Cons.prems assms(2) by (intro subslice_append_mid) auto
  finally show ?case
    using Cons.IH [of "hdr @ enc e" "h + k"] Cons.prems assms(2) by simp
qed (simp add: entries_at_def)

lemma table_body_encode:
  assumes "length es \<le> 1048576" "length pad + 4 = h" "\<And>e. length (enc e) = k"
  shows "table_body (int h) (int k) (put32 (of_nat (length es)) @ pad @ concat (map enc es) @ rest) =
    Some (int (length es))"
proof -
  have len: "length (concat (map enc es)) = length es * k"
    using assms(3) by (induction es) auto
  have "uint (le32 (subslice (put32 (of_nat (length es)) @ pad @ concat (map enc es) @ rest) 0 4)) =
      int (length es)"
    using assms(1) uint_u32_id [of "int (length es)"] by (simp add: subslice_split)
  moreover have "int h \<le> int (length (put32 (of_nat (length es)) @ pad @ concat (map enc es) @ rest))"
    using assms(2) by simp
  moreover have "int h + int (length es) * int k \<le>
      int (length (put32 (of_nat (length es)) @ pad @ concat (map enc es) @ rest))"
    using assms(2) len by simp
  ultimately show ?thesis
    using assms(1) unfolding table_body_def Let_def by (simp add: not_less)
qed

definition encode_session_v1 :: "u32 \<times> u32 \<Rightarrow> bytes" where
  "encode_session_v1 e = put32 (fst e) @ put32 (snd e) @ replicate 24 0"

definition encode_session_v2 :: "session_entry \<Rightarrow> bytes" where
  "encode_session_v2 e = put64 (se_start_sector e) @ put32 (se_flags e) @ replicate 20 0"

definition encode_error_v1 :: "u32 \<times> u32 \<Rightarrow> bytes" where
  "encode_error_v1 e = put32 (fst e) @ put32 (snd e)"

definition encode_error_v2 :: "acquisition_error \<Rightarrow> bytes" where
  "encode_error_v2 e = put64 (ae_start_sector e) @ put32 (ae_number_of_sectors e) @ replicate 4 0"

lemma length_encode_entries [simp, len_simps]:
  "length (encode_session_v1 e) = 32" "length (encode_session_v2 s) = 32"
  "length (encode_error_v1 e) = 8" "length (encode_error_v2 a) = 16"
  by (simp_all add: encode_session_v1_def encode_session_v2_def encode_error_v1_def encode_error_v2_def)

lemma decode_encode_entries:
  "session_entry_v1 (encode_session_v1 e) = \<lparr>se_flags = fst e, se_start_sector = ucast (snd e)\<rparr>"
  "session_entry_v2 (encode_session_v2 s) = s"
  "error_entry_v1 (encode_error_v1 e) = \<lparr>ae_start_sector = ucast (fst e), ae_number_of_sectors = snd e\<rparr>"
  "error_entry_v2 (encode_error_v2 a) = a"
  by (simp_all add: session_entry_v1_def encode_session_v1_def session_entry_v2_def encode_session_v2_def
      error_entry_v1_def encode_error_v1_def error_entry_v2_def encode_error_v2_def subslice_split)

definition list_section :: "nat \<Rightarrow> ('e \<Rightarrow> bytes) \<Rightarrow> 'e list \<Rightarrow> bytes" where
  "list_section header_size enc es =
     put32 (of_nat (length es)) @ replicate (header_size - 4) 0 @ concat (map enc es) @ replicate 4 0"

lemma list_section_parts:
  assumes "length es \<le> 1048576" "4 \<le> h" "\<And>e. length (enc e) = k"
  shows "table_body (int h) (int k) (list_section h enc es) = Some (int (length es))"
    and "entries_at dec h k (list_section h enc es) (length es) = map (\<lambda>e. dec (enc e)) es"
  using table_body_encode [of es "replicate (h - 4) 0" h enc k] assms
    entries_at_encode [of "put32 (of_nat (length es)) @ replicate (h - 4) 0" h enc k dec es "replicate 4 0"]
  by (simp_all add: list_section_def)

text \<open>
  Session and error sections are read back entry by entry in both versions of the
  format, up to the accepted maximum of 2^20 entries, and are appended to what is known.
\<close>

theorem list_sections_roundtrip:
  assumes "length s1 \<le> 1048576" "length s2 \<le> 1048576" "length e1 \<le> 1048576" "length e2 \<le> 1048576"
    and "major \<noteq> 1"
  shows "parse_session_section 1 (list_section 36 encode_session_v1 s1) nfo =
      nfo\<lparr>inf_sessions := inf_sessions nfo @
        map (\<lambda>e. \<lparr>se_flags = fst e, se_start_sector = ucast (snd e)\<rparr>) s1\<rparr>
    \<and> parse_session_section major (list_section 32 encode_session_v2 s2) nfo =
      nfo\<lparr>inf_sessions := inf_sessions nfo @ s2\<rparr>
    \<and> parse_error_section 1 (list_section 520 encode_error_v1 e1) nfo =
      nfo\<lparr>inf_errors := inf_errors nfo @
        map (\<lambda>e. \<lparr>ae_start_sector = ucast (fst e), ae_number_of_sectors = snd e\<rparr>) e1\<rparr>
    \<and> parse_error_section major (list_section 32 encode_error_v2 e2) nfo =
      nfo\<lparr>inf_errors := inf_errors nfo @ e2\<rparr>"
  using assms list_section_parts(1) [of s1 36 encode_session_v1 32]
    list_section_parts(1) [of s2 32 encode_session_v2 32]
    list_section_parts(1) [of e1 520 encode_error_v1 8] list_section_parts(1) [of e2 32 encode_error_v2 16]
    list_section_parts(2) [of s1 36 encode_session_v1 32 session_entry_v1]
    list_section_parts(2) [of s2 32 encode_session_v2 32 session_entry_v2]
    list_section_parts(2) [of e1 520 encode_error_v1 8 error_entry_v1]
    list_section_parts(2) [of e2 32 encode_error_v2 16 error_entry_v2]
  by (simp add: parse_session_section_def parse_error_section_def decode_encode_entries)

theorem list_sections_roundtrip_witness:
  "inf_errors (parse_error_section 2 (list_section 32 encode_error_v2
      [\<lparr>ae_start_sector = 64, ae_number_of_sectors = 8\<rparr>]) (initial_info empty_header [])) =
    [\<lparr>ae_start_sector = 64, ae_number_of_sectors = 8\<rparr>]"
  using list_sections_roundtrip [of "[]" "[]" "[]" "[\<lparr>ae_start_sector = 64, ae_number_of_sectors = 8\<rparr>]" 2
      "initial_info empty_header []"]
  by (simp add: initial_info_def)

text \<open>
  Only the first section of each list-valued kind is looked at, even when it is rejected:
  a backup copy does not stand in for a damaged first copy.
\<close>

lemma damaged_error_section_hides_backup:
  assumes "table_body 520 8 bad = None"
  shows "let st = \<lparr>ps_session_parsed = False, ps_errors_parsed = False, ps_headers = h, ps_info = nfo\<rparr>;
             s = t\<lparr>si_type := section_code ErrorTable\<rparr> in
         inf_errors (ps_info (apply_section_body lib 1 s good (apply_section_body lib 1 s bad st))) =
           inf_errors nfo"
  using assms by (simp add: apply_section_body_def parse_error_section_def Let_def section_code_inject)

end
