(* ===== verification/Chunk_Table.thy ===== *)
theory Chunk_Table
  imports Section_Chain File_Header
begin

text \<open>
  \<open>reader/chunk_table.go\<close>: the chunk descriptors of one segment. Version 1 stores
  every group of chunks twice, as a \<open>table\<close> and a \<open>table2\<close> section; the two are
  consumed as one group, and the copy that passes its Adler-32 checksums is used.
  Version 2 tables stand alone.
\<close>

record chunk_desc =
  cd_source :: "io_source option"
  cd_offset :: int
  cd_size :: u32
  cd_compressed :: bool
  cd_major_version :: u8
  cd_compression_method :: u16
  cd_pattern :: bool
  cd_has_checksum :: bool

record chunk_table_stats =
  tables_total :: nat
  tables_recovered :: nat
  tables_invalid :: nat

definition max_table_entries :: int where
  [go_defs]: "max_table_entries = 16777216"

section \<open>The stored size of a group's last chunk\<close>

definition last_chunk_size_v1 :: "section_info \<Rightarrow> int \<Rightarrow> u32" where
  "last_chunk_size_v1 section abs_offset =
     (let section_start = si_offset section;
          section_end =
            (if si_size section \<le> uint64_of (i64 (max_int64 - si_offset section))
             then i64 (si_offset section + int64_of (si_size section)) else si_offset section);
          chunk_data_end =
            (if si_type_string section = ''table2'' then
               (let before = (if si_size section \<le> uint64_of section_start
                              then i64 (section_start - int64_of (si_size section)) else 0) in
                if before \<le> abs_offset \<and> abs_offset < section_start then section_start else before)
             else if abs_offset < section_start then section_start
             else if abs_offset < section_end then section_end
             else 0) in
      if chunk_data_end \<le> abs_offset then 0
      else let last_size = i64 (chunk_data_end - abs_offset) in
           word_of_int (if 4294967295 < last_size then 4294967295 else last_size))"

section \<open>Version 1 tables\<close>

definition entry_bits :: "bool \<Rightarrow> u32 \<Rightarrow> u64" where
  "entry_bits overflow r = (if \<not> overflow then ucast (r AND 0x7FFFFFFF) else ucast r)"

definition entry_offset :: "u64 \<Rightarrow> bool \<Rightarrow> u32 \<Rightarrow> int" where
  "entry_offset base overflow r = int64_of (base + entry_bits overflow r)"

definition entry_size :: "section_info \<Rightarrow> u64 \<Rightarrow> bool \<Rightarrow> u32 \<Rightarrow> u32 list \<Rightarrow> u32" where
  "entry_size section base overflow r rs =
     (case rs of
        [] \<Rightarrow> last_chunk_size_v1 section (entry_offset base overflow r)
      | r' # _ \<Rightarrow>
          (let rel_offset = entry_bits overflow r; next_rel = entry_bits overflow r' in
           if next_rel < rel_offset then ucast (ucast r' - rel_offset :: u64)
           else ucast (next_rel - rel_offset)))"

definition overflow_after :: "section_info \<Rightarrow> u64 \<Rightarrow> bool \<Rightarrow> u32 \<Rightarrow> u32 list \<Rightarrow> bool" where
  "overflow_after section base overflow r rs \<longleftrightarrow>
     overflow \<or> rs \<noteq> [] \<and>
       2147483647 < i64 (entry_offset base overflow r + uint (entry_size section base overflow r rs))"

text \<open>
  The loop over the entries. A chunk's size is the distance to the next entry; once a
  group passes the 2 GiB mark the top bit of an entry belongs to the offset.
\<close>

fun chunk_entries ::
  "io_source \<Rightarrow> header_info \<Rightarrow> section_info \<Rightarrow> u64 \<Rightarrow> bool \<Rightarrow> u32 list \<Rightarrow> chunk_desc list" where
  "chunk_entries src hdr section base overflow [] = []"
| "chunk_entries src hdr section base overflow (r # rs) =
     \<lparr>cd_source = Some src, cd_offset = entry_offset base overflow r,
      cd_size = entry_size section base overflow r rs,
      cd_compressed = (\<not> overflow \<and> drop_bit 31 r \<noteq> 0), cd_major_version = hi_major_version hdr,
      cd_compression_method = hi_compression_method hdr, cd_pattern = False,
      cd_has_checksum = False\<rparr>
     # chunk_entries src hdr section base (overflow_after section base overflow r rs) rs"

definition raw_offsets :: "nat \<Rightarrow> bytes \<Rightarrow> u32 list" where
  "raw_offsets n entries = map (\<lambda>i. le32 (subslice entries (4 * i) (4 * i + 4))) [0..<n]"

text \<open>
  The checksum after the entries exists only where it exactly completes the section;
  in the dialects that keep chunk data there, nothing is compared.
\<close>

definition entries_valid_v1 :: "io_source \<Rightarrow> section_info \<Rightarrow> int \<Rightarrow> bytes \<Rightarrow> bool" where
  "entries_valid_v1 src section n entries_data =
     (let entries_end = i64 (si_data_offset section + 24 + n * 4);
          exact_size = 24 + word_of_int n * 4 + 4 in
      if si_data_size section = exact_size
      then (case read_slice src entries_end 4 of
              Inl _ \<Rightarrow> True
            | Inr stored \<Rightarrow> adler32 entries_data = le32 stored)
      else True)"

definition decode_table_v1 ::
  "io_source \<Rightarrow> header_info \<Rightarrow> section_info \<Rightarrow> bytes \<Rightarrow> chunk_desc list \<times> bool" where
  "decode_table_v1 src hdr section hdr_data =
     (let n = uint (le32 (subslice hdr_data 0 4));
          base = le64 (subslice hdr_data 8 16);
          header_valid = (adler32 (subslice hdr_data 0 20) = le32 (subslice hdr_data 20 24)) in
      if n \<le> 0 \<or> max_table_entries < n then ([], False)
      else if si_data_size section - 24 < word_of_int n * 4 then ([], False)
      else case read_slice src (i64 (si_data_offset section + 24)) (n * 4) of
             Inl _ \<Rightarrow> ([], False)
           | Inr entries_data \<Rightarrow>
               (chunk_entries src hdr section base False (raw_offsets (nat n) entries_data),
                header_valid \<and> entries_valid_v1 src section n entries_data))"

definition parse_table_section_v1 ::
  "io_source \<Rightarrow> header_info \<Rightarrow> section_info \<Rightarrow> chunk_desc list \<times> bool" where
  "parse_table_section_v1 src hdr section =
     (if si_data_size section < 24 then ([], False)
      else case read_slice src (si_data_offset section) 24 of
             Inl _ \<Rightarrow> ([], False)
           | Inr hdr_data \<Rightarrow> decode_table_v1 src hdr section hdr_data)"

datatype table_outcome = TableUsedPrimary | TableUsedBackup | TableUnverified

definition parse_table_group_v1 ::
  "io_source \<Rightarrow> header_info \<Rightarrow> section_info \<Rightarrow> section_info option \<Rightarrow> chunk_desc list \<times> table_outcome" where
  "parse_table_group_v1 src hdr primary backup =
     (let (primary_chunks, primary_valid) = parse_table_section_v1 src hdr primary in
      if primary_valid \<and> primary_chunks \<noteq> [] then (primary_chunks, TableUsedPrimary)
      else case backup of
             None \<Rightarrow> (primary_chunks, TableUnverified)
           | Some b \<Rightarrow>
               (let (backup_chunks, backup_valid) = parse_table_section_v1 src hdr b in
                if backup_valid \<and> backup_chunks \<noteq> [] then (backup_chunks, TableUsedBackup)
                else if primary_chunks = [] \<and> backup_chunks \<noteq> [] then (backup_chunks, TableUnverified)
                else (primary_chunks, TableUnverified)))"

section \<open>Version 2 tables\<close>

definition chunk_entry_v2 :: "io_source \<Rightarrow> header_info \<Rightarrow> bytes \<Rightarrow> chunk_desc" where
  "chunk_entry_v2 src hdr e =
     (let flags = le32 (subslice e 12 16);
          pattern = (flags AND chunk_flag_pattern \<noteq> 0) in
      \<lparr>cd_source = Some src, cd_offset = int64_of (le64 (subslice e 0 8)),
       cd_size = le32 (subslice e 8 12),
       cd_compressed = (\<not> pattern \<and> flags AND chunk_flag_compressed \<noteq> 0),
       cd_major_version = hi_major_version hdr,
       cd_compression_method = hi_compression_method hdr,
       cd_pattern = pattern,
       cd_has_checksum = (flags AND chunk_flag_checksum \<noteq> 0)\<rparr>)"

definition parse_table_section_v2 ::
  "io_source \<Rightarrow> header_info \<Rightarrow> section_info \<Rightarrow> chunk_desc list" where
  "parse_table_section_v2 src hdr section =
     (if si_data_size section < 32 then []
      else case read_slice src (si_data_offset section) 32 of
             Inl _ \<Rightarrow> []
           | Inr hdr_data \<Rightarrow>
               (let n = uint (le32 (subslice hdr_data 8 12)) in
                if n \<le> 0 \<or> max_table_entries < n then []
                else if si_data_size section - 32 < word_of_int n * 16 then []
                else case read_slice src (i64 (si_data_offset section + 32)) (n * 16) of
                       Inl _ \<Rightarrow> []
                     | Inr entries_data \<Rightarrow>
                         map (\<lambda>i. chunk_entry_v2 src hdr (subslice entries_data (16 * i) (16 * i + 16)))
                           [0..<nat n]))"

section \<open>The chunk table of a segment\<close>

definition count_outcome :: "table_outcome \<Rightarrow> chunk_table_stats \<Rightarrow> chunk_table_stats" where
  "count_outcome outcome stats =
     (case outcome of
        TableUsedPrimary \<Rightarrow> stats
      | TableUsedBackup \<Rightarrow> stats\<lparr>tables_recovered := tables_recovered stats + 1\<rparr>
      | TableUnverified \<Rightarrow> stats\<lparr>tables_invalid := tables_invalid stats + 1\<rparr>)
       \<lparr>tables_total := tables_total stats + 1\<rparr>"

definition add_group_v1 ::
  "io_source \<Rightarrow> header_info \<Rightarrow> section_info \<Rightarrow> section_info option
     \<Rightarrow> chunk_desc list \<times> chunk_table_stats \<Rightarrow> chunk_desc list \<times> chunk_table_stats" where
  "add_group_v1 src hdr primary backup acc =
     (let (chunks, outcome) = parse_table_group_v1 src hdr primary backup in
      (fst acc @ chunks, count_outcome outcome (snd acc)))"

definition add_table_v2 ::
  "io_source \<Rightarrow> header_info \<Rightarrow> section_info
     \<Rightarrow> chunk_desc list \<times> chunk_table_stats \<Rightarrow> chunk_desc list \<times> chunk_table_stats" where
  "add_table_v2 src hdr primary acc =
     (fst acc @ parse_table_section_v2 src hdr primary,
      (snd acc)\<lparr>tables_total := tables_total (snd acc) + 1\<rparr>)"

definition pairs_with :: "section_info \<Rightarrow> section_info \<Rightarrow> bool" where
  "pairs_with primary b \<longleftrightarrow> si_type_string primary = ''table'' \<and> si_type_string b = ''table2''"

fun consume_tables ::
  "io_source \<Rightarrow> header_info \<Rightarrow> section_info list
     \<Rightarrow> chunk_desc list \<times> chunk_table_stats \<Rightarrow> chunk_desc list \<times> chunk_table_stats" where
  "consume_tables src hdr [] acc = acc"
| "consume_tables src hdr [p] acc =
     (if si_descriptor_size p \<noteq> 76 then add_table_v2 src hdr p acc
      else add_group_v1 src hdr p None acc)"
| "consume_tables src hdr (p # b # rest) acc =
     (if si_descriptor_size p \<noteq> 76 then consume_tables src hdr (b # rest) (add_table_v2 src hdr p acc)
      else if pairs_with p b then consume_tables src hdr rest (add_group_v1 src hdr p (Some b) acc)
      else consume_tables src hdr (b # rest) (add_group_v1 src hdr p None acc))"

definition build_chunk_table ::
  "io_source \<Rightarrow> header_info \<Rightarrow> section_info list \<Rightarrow> chunk_desc list \<times> chunk_table_stats" where
  "build_chunk_table src hdr sections =
     consume_tables src hdr (filter (\<lambda>s. si_type s = section_code SectorTable) sections)
       ([], \<lparr>tables_total = 0, tables_recovered = 0, tables_invalid = 0\<rparr>)"

section \<open>Grouping\<close>

text \<open>
  The grouping of table sections the pairing loop performs, stated by itself: a v1
  \<open>table\<close> takes the \<open>table2\<close> that follows it, every other section stands alone.
\<close>

fun table_groups :: "section_info list \<Rightarrow> (section_info \<times> section_info option) list" where
  "table_groups [] = []"
| "table_groups [p] = [(p, None)]"
| "table_groups (p # b # rest) =
     (if si_descriptor_size p = 76 \<and> pairs_with p b then (p, Some b) # table_groups rest
      else (p, None) # table_groups (b # rest))"

definition group_sections :: "section_info \<times> section_info option \<Rightarrow> section_info list" where
  "group_sections g = fst g # (case snd g of None \<Rightarrow> [] | Some b \<Rightarrow> [b])"

text \<open>What a group contributes, and the outcome it is counted under: v2 tables have none.\<close>

definition group_result ::
  "io_source \<Rightarrow> header_info \<Rightarrow> section_info \<times> section_info option
     \<Rightarrow> chunk_desc list \<times> table_outcome option" where
  "group_result src hdr g =
     (if si_descriptor_size (fst g) \<noteq> 76
      then (parse_table_section_v2 src hdr (fst g), None)
      else (case parse_table_group_v1 src hdr (fst g) (snd g) of (chunks, outcome) \<Rightarrow> (chunks, Some outcome)))"

definition outcome_count :: "table_outcome \<Rightarrow> (chunk_desc list \<times> table_outcome option) list \<Rightarrow> nat" where
  "outcome_count t rs = length (filter (\<lambda>r. snd r = Some t) rs)"

lemma concat_group_sections: "concat (map group_sections (table_groups ts)) = ts"
  by (induction ts rule: table_groups.induct) (auto simp: group_sections_def)

lemma consume_tables_groups:
  "consume_tables src hdr ts acc =
     (let rs = map (group_result src hdr) (table_groups ts) in
      (fst acc @ concat (map fst rs),
       \<lparr>tables_total = tables_total (snd acc) + length rs,
        tables_recovered = tables_recovered (snd acc) + outcome_count TableUsedBackup rs,
        tables_invalid = tables_invalid (snd acc) + outcome_count TableUnverified rs\<rparr>))"
proof (induction src hdr ts acc rule: consume_tables.induct)
  case (1 src hdr acc)
  then show ?case by (cases acc) (simp add: outcome_count_def)
next
  case (2 src hdr p acc)
  then show ?case
    by (cases acc)
       (auto simp: add_table_v2_def add_group_v1_def group_result_def count_outcome_def
         outcome_count_def Let_def split: table_outcome.splits prod.splits)
next
  case (3 src hdr p b rest acc)
  consider (v2) "si_descriptor_size p \<noteq> 76" | (pair) "si_descriptor_size p = 76" "pairs_with p b"
    | (single) "si_descriptor_size p = 76" "\<not> pairs_with p b" by blast
  then show ?case
  proof cases
    case v2
    with "3.IH"(1) show ?thesis
      by (simp add: add_table_v2_def group_result_def outcome_count_def Let_def)
  next
    case pair
    with "3.IH"(2) show ?thesis
      by (cases "parse_table_group_v1 src hdr p (Some b)"; cases "snd (parse_table_group_v1 src hdr p (Some b))")
         (simp_all add: add_group_v1_def group_result_def count_outcome_def outcome_count_def Let_def)
  next
    case single
    with "3.IH"(3) show ?thesis
      by (cases "parse_table_group_v1 src hdr p None"; cases "snd (parse_table_group_v1 src hdr p None)")
         (simp_all add: add_group_v1_def group_result_def count_outcome_def outcome_count_def Let_def)
  qed
qed

text \<open>
  C25. Pairing the table sections of a segment loses and repeats none of them: the groups,
  taken in order, are exactly the table sections. The chunk table is the concatenation of
  the chunks of the groups, one copy per group, and the three counters count the groups,
  the groups saved by their backup and the groups without a verified copy.
\<close>

theorem build_chunk_table_groups:
  "let gs = table_groups (filter (\<lambda>s. si_type s = section_code SectorTable) sections);
       rs = map (group_result src hdr) gs in
   concat (map group_sections gs) = filter (\<lambda>s. si_type s = section_code SectorTable) sections \<and>
   build_chunk_table src hdr sections =
     (concat (map fst rs),
      \<lparr>tables_total = length gs, tables_recovered = outcome_count TableUsedBackup rs,
       tables_invalid = outcome_count TableUnverified rs\<rparr>)"
  by (simp add: build_chunk_table_def consume_tables_groups concat_group_sections Let_def)

section \<open>Choosing a copy\<close>

abbreviation valid_table :: "io_source \<Rightarrow> header_info \<Rightarrow> section_info \<Rightarrow> bool" where
  "valid_table src hdr s \<equiv>
     snd (parse_table_section_v1 src hdr s) \<and> fst (parse_table_section_v1 src hdr s) \<noteq> []"

text \<open>
  Of the two copies of a v1 table the primary is used whenever it verifies and has
  entries, and is never replaced by the backup then; the backup is used when only it
  verifies; when neither does, the primary's entries are kept if it has any and the
  outcome says that nothing was verified.
\<close>

theorem table_group_choice:
  "parse_table_group_v1 src hdr primary backup =
     (if valid_table src hdr primary
      then (fst (parse_table_section_v1 src hdr primary), TableUsedPrimary)
      else if \<exists>b. backup = Some b \<and> valid_table src hdr b
      then (fst (parse_table_section_v1 src hdr (the backup)), TableUsedBackup)
      else (if fst (parse_table_section_v1 src hdr primary) = [] \<and> backup \<noteq> None
            then fst (parse_table_section_v1 src hdr (the backup))
            else fst (parse_table_section_v1 src hdr primary), TableUnverified))"
proof (cases backup)
  case None
  then show ?thesis
    by (cases "parse_table_section_v1 src hdr primary") (simp add: parse_table_group_v1_def)
next
  case (Some b)
  then show ?thesis
    by (cases "parse_table_section_v1 src hdr primary"; cases "parse_table_section_v1 src hdr b")
       (simp add: parse_table_group_v1_def)
qed

section \<open>Bounds\<close>

lemma length_chunk_entries [simp, len_simps]:
  "length (chunk_entries src hdr section base overflow rs) = length rs"
  by (induction rs arbitrary: overflow) simp_all

lemma length_raw_offsets [simp, len_simps]: "length (raw_offsets n bs) = n"
  by (simp add: raw_offsets_def)

lemma chunk_entries_origin:
  "c \<in> set (chunk_entries src hdr section base overflow rs) \<Longrightarrow>
     cd_source c = Some src \<and> cd_major_version c = hi_major_version hdr \<and>
     cd_compression_method c = hi_compression_method hdr \<and>
     \<not> cd_pattern c \<and> \<not> cd_has_checksum c \<and> is_i64 (cd_offset c)"
  by (induction rs arbitrary: overflow) (auto simp: entry_offset_def)

lemma uint_entry_bytes:
  "0 < n \<Longrightarrow> n \<le> max_table_entries \<Longrightarrow> uint (word_of_int n * 4 :: u64) = n * 4"
  "0 < n \<Longrightarrow> n \<le> max_table_entries \<Longrightarrow> uint (word_of_int n * 16 :: u64) = n * 16"
proof -
  assume n: "0 < n" "n \<le> max_table_entries"
  then have u: "uint (word_of_int n :: u64) = n"
    by (simp add: uint_word_of_int take_bit_int_eq_self max_table_entries_def)
  show "uint (word_of_int n * 4 :: u64) = n * 4"
    using n by (simp add: uint_word_ariths u max_table_entries_def)
  show "uint (word_of_int n * 16 :: u64) = n * 16"
    using n by (simp add: uint_word_ariths u max_table_entries_def)
qed

lemma parse_table_section_v1_chunks:
  assumes "parse_table_section_v1 src hdr s = (chunks, valid)" "chunks \<noteq> [] \<or> valid"
  obtains n base entries where "0 < n" "n \<le> max_table_entries" "24 \<le> si_data_size s"
    "word_of_int n * 4 \<le> si_data_size s - 24"
    "chunks = chunk_entries src hdr s base False (raw_offsets (nat n) entries)"
proof -
  obtain hd where size: "24 \<le> si_data_size s" and body: "decode_table_v1 src hdr s hd = (chunks, valid)"
    using assms by (auto simp: parse_table_section_v1_def not_less split: if_splits sum.splits)
  define n where "n = uint (le32 (subslice hd 0 4))"
  note body' = body [unfolded decode_table_v1_def n_def [symmetric] Let_def]
  with assms(2) have n: "0 < n" "n \<le> max_table_entries" "word_of_int n * 4 \<le> si_data_size s - 24"
    by (auto simp: not_less split: if_splits)
  with body' assms(2) obtain entries where "read_slice src (i64 (si_data_offset s + 24)) (n * 4) = Inr entries"
    by (auto split: sum.splits)
  with body' n have "chunks = chunk_entries src hdr s (le64 (subslice hd 8 16)) False (raw_offsets (nat n) entries)"
    by (simp add: not_less [symmetric])
  with n size show ?thesis by (intro that)
qed

text \<open>
  A v1 table section yields at most \<open>maxTableEntries\<close> chunks and never more than fit
  behind its 24-byte header in the section; a table that counts as valid is not empty, and
  every chunk it names belongs to the segment it was read from.
\<close>

theorem table_section_v1_bounds:
  assumes "parse_table_section_v1 src hdr s = (chunks, valid)"
  shows "int (length chunks) \<le> 16777216
    \<and> 24 * sgn (int (length chunks)) + 4 * int (length chunks) \<le> uint (si_data_size s)
    \<and> (valid \<longrightarrow> chunks \<noteq> [])
    \<and> (\<forall>c \<in> set chunks. cd_source c = Some src \<and> cd_major_version c = hi_major_version hdr)"
proof (cases "chunks \<noteq> [] \<or> valid")
  case False
  then show ?thesis by simp
next
  case True
  obtain n base entries where n: "0 < n" "n \<le> max_table_entries"
    and fits: "24 \<le> si_data_size s" "word_of_int n * 4 \<le> si_data_size s - 24"
    and chunks: "chunks = chunk_entries src hdr s base False (raw_offsets (nat n) entries)"
    by (rule parse_table_section_v1_chunks [OF assms True])
  have len: "int (length chunks) = n" and ne: "chunks \<noteq> []"
    using n chunks by (simp, auto dest: arg_cong [where f = length])
  have "n * 4 \<le> uint (si_data_size s - 24)"
    using fits(2) uint_entry_bytes(1) [OF n] by (simp add: word_le_def)
  also have "uint (si_data_size s - 24) = uint (si_data_size s) - 24"
    using fits(1) by (simp add: word_le_def uint_sub_if')
  finally have "24 + 4 * n \<le> uint (si_data_size s)" by simp
  then show ?thesis
    using n len ne chunks chunk_entries_origin by (auto simp: max_table_entries_def)
qed

section \<open>What the checksums protect\<close>

text \<open>
  The checksums of a stored v1 table, read off the bytes of its section: 24 bytes of header
  of which the last four are the Adler-32 of the first twenty, at least one and at most
  \<open>maxTableEntries\<close> entries that fit behind it, and, where four more bytes exactly
  complete the section, an Adler-32 of the entries in them. As in the code, an entry
  checksum that cannot be read, and the missing one of a section of any other size, are
  not held against the table.
\<close>

definition entries_checksum_ok :: "io_source \<Rightarrow> section_info \<Rightarrow> int \<Rightarrow> bytes \<Rightarrow> bool" where
  "entries_checksum_ok src s n entries \<longleftrightarrow>
     uint (si_data_size s) \<noteq> 28 + 4 * n \<or>
     (case read_slice src (i64 (si_data_offset s + (24 + 4 * n))) 4 of
        Inl _ \<Rightarrow> True | Inr stored \<Rightarrow> adler32 entries = le32 stored)"

definition checksummed_table :: "io_source \<Rightarrow> section_info \<Rightarrow> bool" where
  "checksummed_table src s \<longleftrightarrow> 24 \<le> uint (si_data_size s) \<and>
     (case read_slice src (si_data_offset s) 24 of
        Inl _ \<Rightarrow> False
      | Inr header \<Rightarrow>
          (let n = uint (le32 (take 4 header)) in
           adler32 (take 20 header) = le32 (drop 20 header) \<and>
           0 < n \<and> n \<le> 16777216 \<and> 24 + 4 * n \<le> uint (si_data_size s) \<and>
           (case read_slice src (i64 (si_data_offset s + 24)) (4 * n) of
              Inl _ \<Rightarrow> False
            | Inr entries \<Rightarrow> entries_checksum_ok src s n entries)))"

text \<open>
  The chunks a group yields when only what its checksums protect is believed: those of the
  first copy of a v1 table that passes, and those of a v2 table, which the code does not
  check.
\<close>

definition believed_chunks ::
  "io_source \<Rightarrow> header_info \<Rightarrow> section_info \<times> section_info option \<Rightarrow> chunk_desc list" where
  "believed_chunks src hdr g =
     (if si_descriptor_size (fst g) \<noteq> 76 then parse_table_section_v2 src hdr (fst g)
      else case List.find (checksummed_table src) (group_sections g) of
             None \<Rightarrow> []
           | Some s \<Rightarrow> fst (parse_table_section_v1 src hdr s))"

definition group_checksummed :: "io_source \<Rightarrow> section_info \<times> section_info option \<Rightarrow> bool" where
  "group_checksummed src g \<longleftrightarrow>
     si_descriptor_size (fst g) \<noteq> 76 \<or> list_ex (checksummed_table src) (group_sections g)"

lemma entries_valid_iff:
  assumes "0 < n" "n \<le> 16777216"
  shows "entries_valid_v1 src s n entries \<longleftrightarrow> entries_checksum_ok src s n entries"
proof -
  have "uint (24 + word_of_int n * 4 + 4 :: u64) = 28 + 4 * n"
    using uint_entry_bytes(1) [of n] assms by (simp add: uint_word_ariths max_table_entries_def)
  then have "si_data_size s = 24 + word_of_int n * 4 + 4 \<longleftrightarrow> uint (si_data_size s) = 28 + 4 * n"
    by (metis word_uint_eq_iff)
  then show ?thesis
    by (auto simp: entries_valid_v1_def entries_checksum_ok_def Let_def algebra_simps split: sum.split)
qed

lemma parse_table_valid_iff:
  "snd (parse_table_section_v1 src hdr s) \<longleftrightarrow> checksummed_table src s"
proof (cases "si_data_size s < 24")
  case False
  then have size: "24 \<le> uint (si_data_size s)" "uint (si_data_size s - 24) = uint (si_data_size s) - 24"
    by (simp_all add: word_less_def word_le_def uint_sub_if')
  show ?thesis
  proof (cases "read_slice src (si_data_offset s) 24")
    case (Inr h)
    define n where "n = uint (le32 (take 4 h))"
    have len: "length h = 24"
      using read_slice_length [OF Inr] by simp
    have fits: "\<not> si_data_size s - 24 < word_of_int n * 4 \<longleftrightarrow> 24 + 4 * n \<le> uint (si_data_size s)"
      if "0 < n" "n \<le> 16777216"
      using that uint_entry_bytes(1) [of n] size by (auto simp: word_less_def max_table_entries_def)
    have parts: "subslice h 0 4 = take 4 h" "subslice h 0 20 = take 20 h" "subslice h 20 24 = drop 20 h"
      using len by (simp_all add: subslice_def)
    have lhs: "parse_table_section_v1 src hdr s = decode_table_v1 src hdr s h"
      using False Inr by (simp add: parse_table_section_v1_def)
    note rhs = checksummed_table_def [of src s, unfolded Inr sum.case Let_def, folded n_def]
    show ?thesis
    proof (cases "0 < n \<and> n \<le> 16777216 \<and> 24 + 4 * n \<le> uint (si_data_size s)")
      case True
      then have "\<not> (n \<le> 0 \<or> max_table_entries < n)" "\<not> si_data_size s - 24 < word_of_int n * 4"
        using fits by (simp_all add: max_table_entries_def)
      then show ?thesis
        using True size(1) entries_valid_iff [of n src s]
        by (cases "read_slice src (i64 (si_data_offset s + 24)) (4 * n)")
           (simp_all add: lhs rhs decode_table_v1_def parts n_def [symmetric] Let_def mult.commute [of n 4])
    next
      case bad: False
      then have "(n \<le> 0 \<or> max_table_entries < n) \<or> si_data_size s - 24 < word_of_int n * 4"
        using fits by (cases "0 < n"; cases "n \<le> 16777216") (simp_all add: max_table_entries_def)
      then have "decode_table_v1 src hdr s h = ([], False)"
        by (auto simp: decode_table_v1_def parts n_def [symmetric] Let_def)
      then show ?thesis
        using bad by (auto simp: lhs rhs)
    qed
  qed (use False size in \<open>simp add: parse_table_section_v1_def checksummed_table_def\<close>)
qed (simp add: parse_table_section_v1_def checksummed_table_def word_less_def not_le)

lemma valid_table_iff: "valid_table src hdr s \<longleftrightarrow> checksummed_table src s"
proof -
  have "fst (parse_table_section_v1 src hdr s) \<noteq> []" if v: "snd (parse_table_section_v1 src hdr s)"
  proof -
    have p: "parse_table_section_v1 src hdr s = (fst (parse_table_section_v1 src hdr s), True)"
      using v by (simp add: prod_eq_iff)
    obtain n base entries where n: "0 < n"
      "fst (parse_table_section_v1 src hdr s) = chunk_entries src hdr s base False (raw_offsets (nat n) entries)"
      by (rule parse_table_section_v1_chunks [OF p]) simp_all
    have "length (fst (parse_table_section_v1 src hdr s)) = nat n"
      unfolding n(2) by simp
    then show ?thesis
      using n(1) by auto
  qed
  then show ?thesis
    using parse_table_valid_iff by blast
qed

text \<open>A group counts as unverified exactly when none of its copies passes, and otherwise
  only a copy that passes is used.\<close>

lemma group_unverified_iff:
  "snd (group_result src hdr g) = Some TableUnverified \<longleftrightarrow> \<not> group_checksummed src g"
  by (cases "snd g") (auto simp: group_result_def group_checksummed_def group_sections_def table_group_choice valid_table_iff)

lemma group_believed: "group_checksummed src g \<Longrightarrow> fst (group_result src hdr g) = believed_chunks src hdr g"
  by (cases "snd g") (auto simp: group_result_def group_checksummed_def believed_chunks_def group_sections_def table_group_choice valid_table_iff)

definition sample_table_section :: section_info where
  "sample_table_section =
     \<lparr>si_offset = 119, si_descriptor_size = 76, si_type = section_code SectorTable,
      si_type_string = ''table'', si_data_flags = 0, si_size = 112, si_data_offset = 195,
      si_data_size = 36, si_padding_size = 0\<rparr>"

theorem table_section_v1_bounds_witness:
  "let r = parse_table_section_v1 (bytes_source (replicate 300 0)) empty_header sample_table_section in
   int (length (fst r)) \<le> 16777216
   \<and> 24 * sgn (int (length (fst r))) + 4 * int (length (fst r)) \<le> 36"
  using table_section_v1_bounds [of "bytes_source (replicate 300 0)" empty_header sample_table_section
      "fst r" "snd r" for r, OF prod.collapse [symmetric]]
  by (simp add: sample_table_section_def Let_def)

section \<open>Written tables are read back\<close>

text \<open>
  A writer stores the chunks of a group one after the other: a list of (compressed,
  stored size) pairs, the first at relative offset \<open>rel\<close>.
\<close>

fun v1_entries :: "int \<Rightarrow> (bool \<times> int) list \<Rightarrow> u32 list" where
  "v1_entries rel [] = []"
| "v1_entries rel ((c, sz) # cs) =
     (word_of_int rel OR (if c then 0x80000000 else 0)) # v1_entries (rel + sz) cs"

fun v1_descs :: "io_source \<Rightarrow> header_info \<Rightarrow> int \<Rightarrow> (bool \<times> int) list \<Rightarrow> chunk_desc list" where
  "v1_descs src hdr off [] = []"
| "v1_descs src hdr off ((c, sz) # cs) =
     \<lparr>cd_source = Some src, cd_offset = off, cd_size = word_of_int sz, cd_compressed = c,
      cd_major_version = hi_major_version hdr, cd_compression_method = hi_compression_method hdr,
      cd_pattern = False, cd_has_checksum = False\<rparr> # v1_descs src hdr (off + sz) cs"

definition encode_table_v1 :: "int \<Rightarrow> u32 list \<Rightarrow> bytes" where
  "encode_table_v1 base raws =
     (let head = put32 (of_nat (length raws)) @ replicate 4 0 @ put64 (word_of_int base) @ replicate 4 0;
          entries = concat (map put32 raws) in
      head @ put32 (adler32 head) @ entries @ put32 (adler32 entries))"

lemma length_v1_entries [simp, len_simps]: "length (v1_entries rel cs) = length cs"
  by (induction rel cs rule: v1_entries.induct) auto

lemma length_concat_put32 [simp, len_simps]: "length (concat (map put32 rs)) = 4 * length rs"
  by (induction rs) auto

lemma raw_offsets_concat: "raw_offsets (length rs) (concat (map put32 rs)) = rs"
proof (induction rs)
  case Nil
  then show ?case by (simp add: raw_offsets_def)
next
  case (Cons r rs)
  have "raw_offsets (length (r # rs)) (concat (map put32 (r # rs))) =
      le32 (subslice (put32 r @ concat (map put32 rs)) 0 4) #
      map (\<lambda>i. le32 (subslice (put32 r @ concat (map put32 rs)) (4 * Suc i) (4 * Suc i + 4))) [0..<length rs]"
    unfolding raw_offsets_def by (simp add: upt_conv_Cons map_Suc_upt [symmetric] comp_def del: upt_Suc)
  also have "\<dots> = r # raw_offsets (length rs) (concat (map put32 rs))"
    by (simp add: subslice_split raw_offsets_def add.commute)
  finally show ?case using Cons.IH by simp
qed

lemma flagged_entry:
  assumes "0 \<le> rel" "rel < 2147483648"
  shows "entry_bits False (word_of_int rel OR (if c then 0x80000000 else 0)) = word_of_int rel"
    and "drop_bit 31 (word_of_int rel OR (if c then 0x80000000 else 0) :: u32) \<noteq> 0 \<longleftrightarrow> c"
proof -
  let ?w = "word_of_int rel :: u32"
  have u: "uint ?w = rel" using assms by (simp add: uint_word_of_int take_bit_int_eq_self)
  have mask: "?w AND 0x7FFFFFFF = ?w"
  proof -
    have "?w AND mask 31 = take_bit 31 ?w" by (simp add: take_bit_eq_mask)
    also have "\<dots> = ?w"
      by (rule word_uint_eqI) (use assms in \<open>simp add: unsigned_take_bit_eq u take_bit_int_eq_self\<close>)
    finally show ?thesis by (simp add: mask_numeral)
  qed
  have "(?w OR (if c then 0x80000000 else 0)) AND 0x7FFFFFFF = ?w"
    using mask by (simp add: bit.conj_disj_distrib2)
  moreover have "ucast ?w = (word_of_int rel :: u64)"
    by (rule word_uint_eqI) (use assms in \<open>simp add: uint_word_of_int take_bit_int_eq_self unsigned_ucast_eq\<close>)
  ultimately show "entry_bits False (?w OR (if c then 0x80000000 else 0)) = word_of_int rel"
    by (simp add: entry_bits_def)
  have "drop_bit 31 ?w = 0"
    by (rule word_uint_eqI)
       (use assms in \<open>simp add: unsigned_drop_bit_eq u drop_bit_eq_div [where 'a = int]
          take_bit_int_eq_self\<close>)
  then show "drop_bit 31 (?w OR (if c then 0x80000000 else 0)) \<noteq> 0 \<longleftrightarrow> c"
    by (simp add: drop_bit_or)
qed


text \<open>The last chunk ends where the table section starts, as the writer lays a group out.\<close>

lemma last_chunk_size_layout:
  assumes "si_type_string s \<noteq> ''table2''" "si_offset s = off + sz" "0 \<le> off" "0 < sz" "sz < 4294967296"
  shows "last_chunk_size_v1 s off = word_of_int sz"
  using assms by (simp add: last_chunk_size_v1_def Let_def i64_nonneg_id)

lemma entry_offset_layout:
  assumes "0 \<le> base" "0 \<le> rel" "base + rel < 2147483648"
  shows "entry_offset (word_of_int base) False (word_of_int rel OR (if c then 0x80000000 else 0)) = base + rel"
proof -
  have "entry_bits False (word_of_int rel OR (if c then 0x80000000 else 0)) = word_of_int rel"
    using assms by (intro flagged_entry) auto
  moreover have "uint (word_of_int base + word_of_int rel :: u64) = base + rel"
    unfolding u64_add using assms by (intro uint_u64_id) auto
  ultimately show ?thesis
    using assms int64_of_small [of "word_of_int base + word_of_int rel"] by (simp add: entry_offset_def)
qed

definition layout_ok :: "section_info \<Rightarrow> int \<Rightarrow> (bool \<times> int) list \<Rightarrow> bool" where
  "layout_ok s off cs \<longleftrightarrow>
     si_type_string s \<noteq> ''table2'' \<and> 0 \<le> off \<and> (\<forall>c \<in> set cs. 0 < snd c) \<and>
     si_offset s = off + sum_list (map snd cs) \<and> si_offset s < 2147483648"

lemma layout_ok_Cons:
  "layout_ok s off ((c, sz) # cs) \<Longrightarrow> layout_ok s (off + sz) cs \<and> 0 < sz \<and> 0 \<le> off \<and>
     off + sz + sum_list (map snd cs) < 2147483648"
  by (auto simp: layout_ok_def)

lemma layout_sum_nonneg: "layout_ok s off cs \<Longrightarrow> 0 \<le> sum_list (map snd cs)"
  unfolding layout_ok_def by (intro sum_list_nonneg) (force intro: less_imp_le)

lemma entry_size_layout:
  assumes "layout_ok s (base + rel) ((c, sz) # cs)" "0 \<le> base" "0 \<le> rel"
    and off: "entry_offset (word_of_int base) False r = base + rel"
    and bits: "entry_bits False r = word_of_int rel"
  shows "entry_size s (word_of_int base) False r (v1_entries (rel + sz) cs) = word_of_int sz"
proof -
  note ok = layout_ok_Cons [OF assms(1)]
  have "0 \<le> sum_list (map snd cs)" using ok layout_sum_nonneg by blast
  then have le: "base + rel < 2147483648" "base + rel + sz < 2147483648" "0 < sz" using ok by auto
  show ?thesis
  proof (cases cs)
    case Nil
    with assms le show ?thesis
      by (simp add: entry_size_def off last_chunk_size_layout layout_ok_def)
  next
    case (Cons d ds)
    obtain c' sz' where d: "d = (c', sz')" by (cases d)
    have next_bits: "entry_bits False (word_of_int (rel + sz) OR (if c' then 0x80000000 else 0))
        = word_of_int (rel + sz)"
      using assms(2,3) le by (intro flagged_entry) auto
    have u: "uint (word_of_int rel :: u64) = rel" "uint (word_of_int (rel + sz) :: u64) = rel + sz"
      using assms(2,3) le by (intro uint_u64_id; linarith)+
    then have "\<not> word_of_int (rel + sz) < (word_of_int rel :: u64)"
      using le by (simp only: word_less_def)
    moreover have "word_of_int (rel + sz) - word_of_int rel = (word_of_int sz :: u64)"
      by simp
    moreover have "ucast (word_of_int sz :: u64) = (word_of_int sz :: u32)"
      using assms(2,3) le
      by (intro word_uint_eqI) (simp add: unsigned_ucast_eq uint_word_of_int take_bit_int_eq_self)
    ultimately show ?thesis
      unfolding entry_size_def Cons d v1_entries.simps list.case bits next_bits Let_def by simp
  qed
qed

lemma chunk_entries_layout:
  assumes "layout_ok s (base + rel) cs" "0 \<le> base" "0 \<le> rel"
  shows "chunk_entries src hdr s (word_of_int base) False (v1_entries rel cs) =
    v1_descs src hdr (base + rel) cs"
  using assms
proof (induction rel cs rule: v1_entries.induct)
  case (2 rel c sz cs)
  note ok = layout_ok_Cons [OF "2.prems"(1)]
  have sum: "0 \<le> sum_list (map snd cs)" using ok layout_sum_nonneg by blast
  then have le: "base + rel < 2147483648" "base + rel + sz < 2147483648" "0 < sz" using ok by auto
  have off: "entry_offset (word_of_int base) False (word_of_int rel OR (if c then 0x80000000 else 0)) = base + rel"
    using "2.prems" le by (intro entry_offset_layout) auto
  have bits: "entry_bits False (word_of_int rel OR (if c then 0x80000000 else 0)) = word_of_int rel"
    "drop_bit 31 (word_of_int rel OR (if c then 0x80000000 else 0) :: u32) \<noteq> 0 \<longleftrightarrow> c"
    using "2.prems" le by (intro flagged_entry; simp)+
  define r where "r = (word_of_int rel OR (if c then 0x80000000 else 0) :: u32)"
  note off = off [folded r_def] and bits = bits [folded r_def]
  have size: "entry_size s (word_of_int base) False r (v1_entries (rel + sz) cs) = word_of_int sz"
    by (rule entry_size_layout [OF "2.prems" off bits(1)])
  have "uint (word_of_int sz :: u32) = sz"
    using le "2.prems" by (simp add: uint_word_of_int take_bit_int_eq_self)
  then have no_overflow: "\<not> overflow_after s (word_of_int base) False r (v1_entries (rel + sz) cs)"
    using le "2.prems" by (simp add: overflow_after_def off size i64_nonneg_id)
  have "layout_ok s (base + (rel + sz)) cs" using ok by (simp add: add.assoc)
  from "2.IH" [OF this] "2.prems" le
  have "chunk_entries src hdr s (word_of_int base) False (v1_entries (rel + sz) cs) =
      v1_descs src hdr (base + rel + sz) cs" by (simp add: add.assoc)
  then show ?case
    unfolding v1_entries.simps r_def [symmetric] chunk_entries.simps v1_descs.simps
    using no_overflow by (simp add: off size bits)
qed simp


lemma encode_table_v1_parts:
  obtains H E C where "encode_table_v1 base raws = H @ E @ C" "length H = 24" "E = concat (map put32 raws)"
    "length C = 4" "subslice H 0 4 = put32 (of_nat (length raws))"
    "subslice H 8 16 = put64 (word_of_int base)"
    "adler32 (subslice H 0 20) = le32 (subslice H 20 24)" "adler32 E = le32 C"
proof -
  define h where "h = put32 (of_nat (length raws)) @ replicate 4 0 @ put64 (word_of_int base) @ replicate 4 0"
  have len: "length h = 20" by (simp add: h_def)
  have count: "subslice (h @ c) 0 4 = put32 (of_nat (length raws))" for c
    by (simp add: h_def subslice_split)
  have off: "subslice (h @ c) 8 16 = put64 (word_of_int base)" for c
    by (simp add: h_def subslice_split)
  let ?E = "concat (map put32 raws)"
  show ?thesis
    by (rule that [of "h @ put32 (adler32 h)" ?E "put32 (adler32 ?E)"])
       (simp_all add: encode_table_v1_def Let_def h_def [symmetric] subslice_split len count off)
qed

lemma parse_encode_table_v1:
  assumes cs: "cs \<noteq> []" "length cs \<le> 16777216"
    and layout: "layout_ok s (base + rel) cs" "0 \<le> base" "0 \<le> rel"
    and place: "si_data_offset s = int (length pre)" "si_data_offset s = si_offset s + 76"
    and size: "si_data_size s = 28 + 4 * of_nat (length cs)"
  shows "let src = bytes_source (pre @ encode_table_v1 base (v1_entries rel cs) @ post) in
    parse_table_section_v1 src hdr s = (v1_descs src hdr (base + rel) cs, True)"
proof -
  let ?src = "bytes_source (pre @ encode_table_v1 base (v1_entries rel cs) @ post)"
  let ?n = "int (length cs)"
  obtain H E C where parts: "encode_table_v1 base (v1_entries rel cs) = H @ E @ C" "length H = 24"
      "E = concat (map put32 (v1_entries rel cs))" "length C = 4"
      "subslice H 0 4 = put32 (of_nat (length cs))" "subslice H 8 16 = put64 (word_of_int base)"
      "adler32 (subslice H 0 20) = le32 (subslice H 20 24)" "adler32 E = le32 C"
    by (rule encode_table_v1_parts [of base "v1_entries rel cs"]) simp
  have small: "0 < ?n" "?n \<le> 16777216" "int (length pre) < 2147483724"
    using cs layout(1) place by (auto simp: layout_ok_def)
  have lenE: "length E = 4 * length cs" by (simp add: parts(3))
  have "read_slice (bytes_source (pre @ H @ (E @ C @ post))) (si_data_offset s) 24 = Inr H"
    using parts place by (intro read_slice_mid) (auto simp: max_read_size_def)
  then have r1: "read_slice ?src (si_data_offset s) 24 = Inr H" by (simp add: parts(1))
  have "read_slice (bytes_source ((pre @ H) @ E @ (C @ post))) (si_data_offset s + 24) (?n * 4) = Inr E"
    using parts(2) place lenE small by (intro read_slice_mid) (auto simp: max_read_size_def)
  then have r2: "read_slice ?src (i64 (si_data_offset s + 24)) (?n * 4) = Inr E"
    using small place by (simp add: parts(1) i64_nonneg_id)
  have "read_slice (bytes_source ((pre @ H @ E) @ C @ post)) (si_data_offset s + 24 + ?n * 4) 4 = Inr C"
    using parts(2,4) place lenE by (intro read_slice_mid) (auto simp: max_read_size_def)
  then have r3: "read_slice ?src (i64 (si_data_offset s + 24 + ?n * 4)) 4 = Inr C"
    using small place by (simp add: parts(1) i64_nonneg_id)
  have n: "uint (le32 (subslice H 0 4)) = ?n"
    using small uint_u32_id [of ?n] by (simp add: parts(5))
  have u: "uint (si_data_size s) = 28 + 4 * ?n"
    using small size uint_u64_id [of "28 + 4 * ?n"] by simp
  have fits: "\<not> si_data_size s < 24" "\<not> si_data_size s - 24 < word_of_int ?n * 4"
    using u small uint_entry_bytes(1) [of ?n]
    by (simp_all add: word_less_def uint_sub_if' max_table_entries_def)
  have entries: "chunk_entries ?src hdr s (le64 (subslice H 8 16)) False (raw_offsets (length cs) E)
      = v1_descs ?src hdr (base + rel) cs"
    using chunk_entries_layout [OF layout] raw_offsets_concat [of "v1_entries rel cs"]
    by (simp add: parts(3,6))
  have "entries_valid_v1 ?src s ?n E"
    by (simp add: entries_valid_v1_def Let_def r3 parts(8))
  then have "decode_table_v1 ?src hdr s H = (v1_descs ?src hdr (base + rel) cs, True)"
    unfolding decode_table_v1_def Let_def n
    using small fits entries parts(7) r2 by (simp add: max_table_entries_def)
  then show ?thesis
    using fits r1 by (simp add: parse_table_section_v1_def)
qed

text \<open>
  C26. A v1 table written for consecutive chunks (any mix of compressed and stored ones,
  less than 2 GiB into the file) is read back as those chunks: every offset, every stored
  size, every compressed bit, the last chunk's size included, and both checksums verify.
\<close>

theorem table_v1_roundtrip:
  assumes cs: "cs \<noteq> []" "length cs \<le> 16777216"
    and layout: "layout_ok s (base + rel) cs" "0 \<le> base" "0 \<le> rel"
    and place: "si_data_offset s = int (length pre)" "si_data_offset s = si_offset s + 76"
    and size: "si_data_size s = 28 + 4 * of_nat (length cs)"
  shows "let src = bytes_source (pre @ encode_table_v1 base (v1_entries rel cs) @ post) in
    parse_table_section_v1 src hdr s = (v1_descs src hdr (base + rel) cs, True)"
  using assms by (rule parse_encode_table_v1)

theorem table_v1_roundtrip_witness:
  "let src = bytes_source (replicate 195 0 @ encode_table_v1 80 (v1_entries 9 [(True, 10), (False, 20)]) @ []) in
   parse_table_section_v1 src empty_header sample_table_section =
     (v1_descs src empty_header 89 [(True, 10), (False, 20)], True)"
  using table_v1_roundtrip [of "[(True, 10), (False, 20)]" sample_table_section 80 9 "replicate 195 0"
      "[]" empty_header]
  by (simp add: sample_table_section_def layout_ok_def)

section \<open>Version 2 tables\<close>

definition encode_entry_v2 :: "u64 \<times> u32 \<times> u32 \<Rightarrow> bytes" where
  "encode_entry_v2 e = (case e of (off, sz, flags) \<Rightarrow> put64 off @ put32 sz @ put32 flags)"

definition encode_table_v2 :: "u64 \<Rightarrow> (u64 \<times> u32 \<times> u32) list \<Rightarrow> bytes" where
  "encode_table_v2 first es =
     (let head = put64 first @ put32 (of_nat (length es)) @ replicate 4 0 in
      head @ put32 (adler32 head) @ replicate 12 0 @ concat (map encode_entry_v2 es))"

definition desc_v2 :: "io_source \<Rightarrow> header_info \<Rightarrow> u64 \<times> u32 \<times> u32 \<Rightarrow> chunk_desc" where
  "desc_v2 src hdr e = (case e of (off, sz, flags) \<Rightarrow>
     \<lparr>cd_source = Some src, cd_offset = int64_of off, cd_size = sz,
      cd_compressed = (\<not> bit flags 2 \<and> bit flags 0),
      cd_major_version = hi_major_version hdr, cd_compression_method = hi_compression_method hdr,
      cd_pattern = bit flags 2, cd_has_checksum = bit flags 1\<rparr>)"

lemma length_encode_entry_v2 [simp, len_simps]: "length (encode_entry_v2 e) = 16"
  by (cases e) (simp add: encode_entry_v2_def)

lemma length_concat_entries_v2 [simp, len_simps]: "length (concat (map encode_entry_v2 es)) = 16 * length es"
  by (induction es) auto

lemma flag_bits:
  "(w AND 0x1 \<noteq> 0) = bit w 0" "(w AND 0x2 \<noteq> 0) = bit w 1" "(w AND 0x4 \<noteq> 0) = bit w 2" for w :: u32
  using and_exp_eq_0_iff_not_bit [of w 0] and_exp_eq_0_iff_not_bit [of w 1]
    and_exp_eq_0_iff_not_bit [of w 2] by simp_all

lemma chunk_entry_v2_encode: "chunk_entry_v2 src hdr (encode_entry_v2 e) = desc_v2 src hdr e"
  by (cases e)
     (simp add: chunk_entry_v2_def encode_entry_v2_def desc_v2_def subslice_split flag_bits go_defs Let_def)

lemma map_entries_v2:
  "map (\<lambda>i. f (subslice (concat (map encode_entry_v2 es)) (16 * i) (16 * i + 16))) [0..<length es] =
   map (\<lambda>e. f (encode_entry_v2 e)) es"
proof (induction es)
  case (Cons e es)
  have "map (\<lambda>i. f (subslice (concat (map encode_entry_v2 (e # es))) (16 * i) (16 * i + 16))) [0..<length (e # es)] =
      f (subslice (encode_entry_v2 e @ concat (map encode_entry_v2 es)) 0 16) #
      map (\<lambda>i. f (subslice (encode_entry_v2 e @ concat (map encode_entry_v2 es)) (16 * Suc i) (16 * Suc i + 16)))
        [0..<length es]"
    by (simp add: upt_conv_Cons map_Suc_upt [symmetric] comp_def del: upt_Suc)
  then show ?case using Cons.IH by (simp add: subslice_split add.commute)
qed simp

text \<open>
  C27. A v2 table is read back entry by entry: offset, stored size and the pattern,
  checksum and compressed flags, where a pattern chunk is never also compressed.
\<close>

theorem table_v2_roundtrip:
  assumes es: "es \<noteq> []" "length es \<le> 16777216"
    and place: "si_data_offset s = int (length pre)" "length pre < 1000000000000"
    and size: "si_data_size s = 32 + 16 * of_nat (length es)"
  shows "let src = bytes_source (pre @ encode_table_v2 first es @ post) in
    parse_table_section_v2 src hdr s = map (desc_v2 src hdr) es"
proof -
  let ?src = "bytes_source (pre @ encode_table_v2 first es @ post)"
  let ?n = "int (length es)"
  let ?h = "put64 first @ put32 (of_nat (length es)) @ replicate 4 0"
  let ?H = "?h @ put32 (adler32 ?h) @ replicate 12 0"
  let ?E = "concat (map encode_entry_v2 es)"
  have enc: "encode_table_v2 first es = ?H @ ?E" by (simp add: encode_table_v2_def Let_def)
  have small: "0 < ?n" "?n \<le> 16777216" using es by auto
  have "read_slice (bytes_source (pre @ ?H @ (?E @ post))) (si_data_offset s) 32 = Inr ?H"
    using place by (intro read_slice_mid) (auto simp: max_read_size_def)
  then have r1: "read_slice ?src (si_data_offset s) 32 = Inr ?H" by (simp add: enc)
  have "read_slice (bytes_source ((pre @ ?H) @ ?E @ post)) (si_data_offset s + 32) (?n * 16) = Inr ?E"
    using place small by (intro read_slice_mid) (auto simp: max_read_size_def)
  then have r2: "read_slice ?src (i64 (si_data_offset s + 32)) (?n * 16) = Inr ?E"
    using place by (simp add: enc i64_nonneg_id)
  have n: "uint (le32 (subslice ?H 8 12)) = ?n"
    using small uint_u32_id [of ?n] by (simp add: subslice_split)
  have u: "uint (si_data_size s) = 32 + 16 * ?n"
    using small size uint_u64_id [of "32 + 16 * ?n"] by simp
  have fits: "\<not> si_data_size s < 32" "\<not> si_data_size s - 32 < word_of_int ?n * 16"
    using u small uint_entry_bytes(2) [of ?n]
    by (simp_all add: word_less_def uint_sub_if' max_table_entries_def)
  show ?thesis
    unfolding parse_table_section_v2_def Let_def r1 sum.case n
    using small fits r2
    by (simp add: max_table_entries_def map_entries_v2 chunk_entry_v2_encode comp_def)
qed

theorem table_v2_roundtrip_witness:
  "let src = bytes_source (replicate 40 0 @ encode_table_v2 0 [(96, 40, 5), (136, 12, 2)] @ []);
       s = sample_table_section\<lparr>si_data_offset := 40, si_data_size := 64\<rparr> in
   parse_table_section_v2 src empty_header s = map (desc_v2 src empty_header) [(96, 40, 5), (136, 12, 2)]"
  using table_v2_roundtrip [of "[(96, 40, 5), (136, 12, 2)]"
      "sample_table_section\<lparr>si_data_offset := 40, si_data_size := 64\<rparr>" "replicate 40 0" 0 "[]" empty_header]
  by simp

end
