(* ===== verification/Chunk_Cache.thy ===== *)
theory Chunk_Cache
  imports Prelude Ewf_Errors
begin

text \<open>
  \<open>reader/cache.go\<close>: the bounded LRU cache of decoded chunks. The Go code shares the
  elements of a linked list with a map, so the model has an explicit store: the map and
  the list hold element numbers, and the elements live in the store. The locale
  \<open>chunk_store\<close> is what the reader relies on; it is interpreted on this cache.
\<close>

section \<open>The cache\<close>

record chunk_cache =
  cc_entries :: "int \<rightharpoonup> nat"
  cc_order :: "nat list"
  cc_elements :: "nat \<rightharpoonup> int \<times> bytes"
  cc_fresh :: nat
  cc_max :: int

definition new_chunk_cache :: "int \<Rightarrow> chunk_cache option" where
  "new_chunk_cache m =
     (if m \<le> 0 then None
      else Some \<lparr>cc_entries = Map.empty, cc_order = [], cc_elements = Map.empty, cc_fresh = 0,
                 cc_max = m\<rparr>)"

text \<open>\<open>MoveToFront\<close> and \<open>PushFront\<close> of \<open>container/list\<close>.\<close>

definition move_to_front :: "nat \<Rightarrow> nat list \<Rightarrow> nat list" where
  "move_to_front e xs = e # remove1 e xs"

definition element_value :: "chunk_cache \<Rightarrow> nat \<Rightarrow> int \<times> bytes" where
  "element_value c e = (case cc_elements c e of Some v \<Rightarrow> v | None \<Rightarrow> (0, []))"

definition cache_get :: "chunk_cache option \<Rightarrow> int \<Rightarrow> bytes option \<times> chunk_cache option" where
  "cache_get oc k =
     (case oc of
        None \<Rightarrow> (None, None)
      | Some c \<Rightarrow>
          (case cc_entries c k of
             None \<Rightarrow> (None, Some c)
           | Some e \<Rightarrow>
               (Some (snd (element_value c e)), Some (c\<lparr>cc_order := move_to_front e (cc_order c)\<rparr>))))"

function evict :: "chunk_cache \<Rightarrow> chunk_cache" where
  "evict c =
     (if cc_max c < int (length (cc_order c)) then
        (if cc_order c = [] then c
         else let oldest = last (cc_order c) in
              evict (c\<lparr>cc_order := butlast (cc_order c),
                       cc_entries := (cc_entries c)(fst (element_value c oldest) := None)\<rparr>))
      else c)"
  by pat_completeness auto
termination by (relation "measure (\<lambda>c. length (cc_order c))") auto

declare evict.simps [simp del]

definition cache_put :: "chunk_cache option \<Rightarrow> int \<Rightarrow> bytes \<Rightarrow> chunk_cache option" where
  "cache_put oc k data =
     (case oc of
        None \<Rightarrow> None
      | Some c \<Rightarrow>
          (case cc_entries c k of
             Some e \<Rightarrow>
               Some (c\<lparr>cc_elements := (cc_elements c)(e \<mapsto> (fst (element_value c e), data)),
                       cc_order := move_to_front e (cc_order c)\<rparr>)
           | None \<Rightarrow>
               Some (evict (c\<lparr>cc_elements := (cc_elements c)(cc_fresh c \<mapsto> (k, data)),
                              cc_order := cc_fresh c # cc_order c,
                              cc_entries := (cc_entries c)(k \<mapsto> cc_fresh c),
                              cc_fresh := cc_fresh c + 1\<rparr>))))"

definition cache_len :: "chunk_cache option \<Rightarrow> int" where
  "cache_len oc = (case oc of None \<Rightarrow> 0 | Some c \<Rightarrow> int (length (cc_order c)))"

definition default_chunk_cache_chunks :: int where
  [go_defs]: "default_chunk_cache_chunks = 16"

definition max_chunk_cache_bytes :: int where
  [go_defs]: "max_chunk_cache_bytes = 67108864"

definition effective_cache_chunks :: "int \<Rightarrow> int \<Rightarrow> int" where
  "effective_cache_chunks requested chunk_size =
     (if requested < 0 \<or> chunk_size \<le> 0 then 0
      else let r = (if requested = 0 then default_chunk_cache_chunks else requested);
               c = max_chunk_cache_bytes div chunk_size;
               ceiling = (if c < 1 then 1 else c) in
           if ceiling < r then ceiling else r)"

section \<open>The abstract cache\<close>

text \<open>Most recently used first; at most the given number of chunks, each at most once.\<close>

definition lru_touch :: "int \<Rightarrow> (int \<times> bytes) list \<Rightarrow> (int \<times> bytes) list" where
  "lru_touch k xs =
     (case map_of xs k of None \<Rightarrow> xs | Some d \<Rightarrow> (k, d) # filter (\<lambda>p. fst p \<noteq> k) xs)"

definition lru_put :: "nat \<Rightarrow> int \<Rightarrow> bytes \<Rightarrow> (int \<times> bytes) list \<Rightarrow> (int \<times> bytes) list" where
  "lru_put m k d xs = take m ((k, d) # filter (\<lambda>p. fst p \<noteq> k) xs)"

definition cache_abs :: "chunk_cache \<Rightarrow> (int \<times> bytes) list" where
  "cache_abs c = map (element_value c) (cc_order c)"

text \<open>The map and the list agree: the map holds exactly the elements of the list.\<close>

definition linked :: "chunk_cache \<Rightarrow> bool" where
  "linked c \<longleftrightarrow>
     distinct (cc_order c) \<and> distinct (map (\<lambda>e. fst (element_value c e)) (cc_order c)) \<and>
     (\<forall>e \<in> set (cc_order c). e < cc_fresh c \<and> cc_elements c e \<noteq> None) \<and>
     (\<forall>k e. cc_entries c k = Some e \<longleftrightarrow> e \<in> set (cc_order c) \<and> fst (element_value c e) = k)"

definition cache_ok :: "chunk_cache option \<Rightarrow> bool" where
  "cache_ok oc \<longleftrightarrow>
     (case oc of None \<Rightarrow> True
      | Some c \<Rightarrow> linked c \<and> 0 < cc_max c \<and> int (length (cc_order c)) \<le> cc_max c)"

definition cache_contents :: "chunk_cache option \<Rightarrow> int \<rightharpoonup> bytes" where
  "cache_contents oc = (case oc of None \<Rightarrow> Map.empty | Some c \<Rightarrow> map_of (cache_abs c))"

lemma map_of_map_key:
  "distinct (map (\<lambda>e. fst (f e)) es) \<Longrightarrow> e \<in> set es \<Longrightarrow> fst (f e) = k \<Longrightarrow>
   map_of (map f es) k = Some (snd (f e))"
  by (metis (no_types, lifting) comp_apply image_eqI list.set_map map_eq_conv map_map
      map_of_is_SomeI prod.collapse)

lemma linked_lookup:
  assumes "linked c"
  shows "cc_entries c k = Some e \<Longrightarrow> map_of (cache_abs c) k = Some (snd (element_value c e))"
    and "cc_entries c k = None \<Longrightarrow> map_of (cache_abs c) k = None"
proof -
  assume "cc_entries c k = Some e"
  then show "map_of (cache_abs c) k = Some (snd (element_value c e))"
    using assms unfolding linked_def cache_abs_def by (intro map_of_map_key) auto
next
  assume "cc_entries c k = None"
  then have "\<forall>e \<in> set (cc_order c). fst (element_value c e) \<noteq> k"
    using assms unfolding linked_def by (metis option.distinct(1))
  then show "map_of (cache_abs c) k = None"
    by (auto simp: map_of_eq_None_iff cache_abs_def)
qed

lemma filter_other_keys:
  assumes "distinct es" "distinct (map (\<lambda>e. fst (f e)) es)" "e \<in> set es" "fst (f e) = k"
  shows "filter (\<lambda>p. fst p \<noteq> k) (map f es) = map f (remove1 e es)"
proof -
  have "fst (f e') \<noteq> k \<longleftrightarrow> e' \<noteq> e" if "e' \<in> set es" for e'
    using assms that by (auto simp: distinct_map inj_on_def)
  then have "filter (\<lambda>p. fst p \<noteq> k) (map f es) = map f (filter (\<lambda>e'. e' \<noteq> e) es)"
    by (simp add: filter_map comp_def cong: filter_cong)
  also have "filter (\<lambda>e'. e' \<noteq> e) es = remove1 e es"
    using assms(1) by (simp add: distinct_remove1_removeAll removeAll_filter_not_eq) (metis)
  finally show ?thesis .
qed

lemma distinct_move_to_front: "distinct xs \<Longrightarrow> distinct (move_to_front e xs)"
  by (simp add: move_to_front_def)

lemma set_move_to_front: "e \<in> set xs \<Longrightarrow> distinct xs \<Longrightarrow> set (move_to_front e xs) = set xs"
  by (auto simp: move_to_front_def)

lemma length_move_to_front: "e \<in> set xs \<Longrightarrow> length (move_to_front e xs) = length xs"
  using length_pos_if_in_set [of e xs] by (simp add: move_to_front_def length_remove1)

text \<open>Storing a value in an element that is present and moving it to the front.\<close>

definition store_front :: "nat \<Rightarrow> int \<times> bytes \<Rightarrow> chunk_cache \<Rightarrow> chunk_cache" where
  "store_front e v c =
     c\<lparr>cc_elements := (cc_elements c)(e \<mapsto> v), cc_order := move_to_front e (cc_order c)\<rparr>"

lemma store_front_value:
  "element_value (store_front e v c) e' = (if e' = e then v else element_value c e')"
  by (simp add: store_front_def element_value_def)

lemma linked_store_front:
  assumes c: "linked c" and e: "cc_entries c k = Some e"
  shows "linked (store_front e (k, d) c)"
    and "cache_abs (store_front e (k, d) c) = (k, d) # filter (\<lambda>p. fst p \<noteq> k) (cache_abs c)"
proof -
  let ?c = "store_front e (k, d) c"
  have mem: "e \<in> set (cc_order c)" and key: "fst (element_value c e) = k"
    and dist: "distinct (cc_order c)" "distinct (map (\<lambda>e. fst (element_value c e)) (cc_order c))"
    using c e by (auto simp: linked_def)
  have keys: "fst (element_value ?c e') = fst (element_value c e')" for e'
    using key by (simp add: store_front_value)
  have order: "set (cc_order ?c) = set (cc_order c)" "distinct (cc_order ?c)"
    using set_move_to_front [OF mem dist(1)] distinct_move_to_front [OF dist(1)]
    by (simp_all add: store_front_def)
  have "distinct (map (\<lambda>e. fst (element_value c e)) (cc_order ?c))"
    using dist order by (simp add: distinct_map)
  with order c show "linked ?c"
    unfolding linked_def keys by (simp add: store_front_def)
  have "cache_abs ?c = (k, d) # map (element_value c) (remove1 e (cc_order c))"
    using dist(1) by (simp add: cache_abs_def store_front_value move_to_front_def store_front_def
        element_value_def)
  also have "map (element_value c) (remove1 e (cc_order c)) = filter (\<lambda>p. fst p \<noteq> k) (cache_abs c)"
    using filter_other_keys [OF dist mem key] by (simp add: cache_abs_def)
  finally show "cache_abs ?c = (k, d) # filter (\<lambda>p. fst p \<noteq> k) (cache_abs c)" .
qed

lemma store_front_same:
  assumes "linked c" "cc_entries c k = Some e"
  shows "c\<lparr>cc_order := move_to_front e (cc_order c)\<rparr> = store_front e (k, snd (element_value c e)) c"
proof -
  have "cc_elements c e = Some (k, snd (element_value c e))"
    using assms by (auto simp: linked_def element_value_def)
  then show ?thesis by (simp add: store_front_def fun_upd_idem)
qed

text \<open>A new element at the front.\<close>

definition push_new :: "int \<Rightarrow> bytes \<Rightarrow> chunk_cache \<Rightarrow> chunk_cache" where
  "push_new k data c =
     c\<lparr>cc_elements := (cc_elements c)(cc_fresh c \<mapsto> (k, data)),
       cc_order := cc_fresh c # cc_order c,
       cc_entries := (cc_entries c)(k \<mapsto> cc_fresh c),
       cc_fresh := cc_fresh c + 1\<rparr>"

lemma linked_push_new:
  assumes c: "linked c" and k: "cc_entries c k = None"
  shows "linked (push_new k d c)"
    and "cache_abs (push_new k d c) = (k, d) # filter (\<lambda>p. fst p \<noteq> k) (cache_abs c)"
proof -
  let ?c = "push_new k d c"
  have old: "e < cc_fresh c" if "e \<in> set (cc_order c)" for e
    using c that by (simp add: linked_def)
  then have kept: "element_value ?c e = element_value c e" if "e \<in> set (cc_order c)" for e
    using that [THEN old] by (simp add: push_new_def element_value_def)
  have new: "element_value ?c (cc_fresh c) = (k, d)"
    by (simp add: push_new_def element_value_def)
  have other: "fst (element_value c e) \<noteq> k" if "e \<in> set (cc_order c)" for e
    using c k that by (metis linked_def option.distinct(1))
  have abs_old: "map (element_value ?c) (cc_order c) = map (element_value c) (cc_order c)"
    using kept by simp
  have "cache_abs ?c = (k, d) # cache_abs c"
    using new abs_old by (simp add: cache_abs_def push_new_def)
  also have "cache_abs c = filter (\<lambda>p. fst p \<noteq> k) (cache_abs c)"
    using other by (auto simp: cache_abs_def filter_id_conv)
  finally show "cache_abs ?c = (k, d) # filter (\<lambda>p. fst p \<noteq> k) (cache_abs c)" .
  have "distinct (map (\<lambda>e. fst (element_value ?c e)) (cc_order ?c))"
  proof -
    have "map (\<lambda>e. fst (element_value ?c e)) (cc_order ?c) =
        k # map (\<lambda>e. fst (element_value c e)) (cc_order c)"
      using new kept by (simp add: push_new_def)
    then show ?thesis using c other by (auto simp: linked_def)
  qed
  moreover have "distinct (cc_order ?c)"
    using c old by (auto simp: linked_def push_new_def)
  moreover have "\<forall>e \<in> set (cc_order ?c). e < cc_fresh ?c \<and> cc_elements ?c e \<noteq> None"
    using c old by (auto simp: linked_def push_new_def less_Suc_eq)
  moreover have "cc_entries ?c k' = Some e \<longleftrightarrow> e \<in> set (cc_order ?c) \<and> fst (element_value ?c e) = k'"
    for k' e
  proof (cases "e = cc_fresh c")
    case True
    then have "e \<notin> set (cc_order c)" using old by blast
    then have "cc_entries c k' \<noteq> Some e" using c by (simp add: linked_def)
    then show ?thesis using new True by (auto simp: push_new_def)
  next
    case False
    have "element_value ?c e = element_value c e"
      using False by (simp add: push_new_def element_value_def)
    then show ?thesis
      using False c other by (auto simp: push_new_def linked_def)
  qed
  ultimately show "linked ?c" unfolding linked_def by blast
qed

text \<open>One pass of the loop drops the last element.\<close>

definition pop_last :: "chunk_cache \<Rightarrow> chunk_cache" where
  "pop_last c = c\<lparr>cc_order := butlast (cc_order c),
     cc_entries := (cc_entries c)(fst (element_value c (last (cc_order c))) := None)\<rparr>"

lemma pop_last_simps [simp]:
  "cc_order (pop_last c) = butlast (cc_order c)" "cc_max (pop_last c) = cc_max c"
  "cc_elements (pop_last c) = cc_elements c" "cc_fresh (pop_last c) = cc_fresh c"
  "element_value (pop_last c) = element_value c"
  by (simp_all add: pop_last_def element_value_def fun_eq_iff)

lemma evict_unfold:
  "evict c = (if cc_max c < int (length (cc_order c)) \<and> cc_order c \<noteq> [] then evict (pop_last c) else c)"
  by (subst evict.simps) (simp add: pop_last_def Let_def)

lemma linked_pop_last:
  assumes "linked c" "cc_order c \<noteq> []"
  shows "linked (pop_last c)"
proof -
  let ?e = "last (cc_order c)"
  have split: "cc_order c = butlast (cc_order c) @ [?e]"
    using assms(2) by simp
  then have dist: "distinct (butlast (cc_order c) @ [?e])"
    "distinct (map (\<lambda>e. fst (element_value c e)) (butlast (cc_order c) @ [?e]))"
    using assms(1) by (simp_all add: linked_def)
  show ?thesis
    unfolding linked_def pop_last_simps
  proof (intro conjI allI)
    show "distinct (butlast (cc_order c))" "distinct (map (\<lambda>e. fst (element_value c e)) (butlast (cc_order c)))"
      using dist by simp_all
    show "\<forall>e \<in> set (butlast (cc_order c)). e < cc_fresh c \<and> cc_elements c e \<noteq> None"
      using assms(1) by (auto simp: linked_def dest: in_set_butlastD)
    fix k e'
    have "cc_entries c k = Some e' \<longleftrightarrow> e' \<in> set (butlast (cc_order c) @ [?e]) \<and> fst (element_value c e') = k"
      using assms(1) split by (simp add: linked_def)
    then show "cc_entries (pop_last c) k = Some e' \<longleftrightarrow> e' \<in> set (butlast (cc_order c)) \<and> fst (element_value c e') = k"
      using dist by (auto simp: pop_last_def image_iff)
  qed
qed

lemma linked_evict:
  "linked c \<Longrightarrow> 0 < cc_max c \<Longrightarrow>
     linked (evict c) \<and> cc_max (evict c) = cc_max c \<and>
     cc_order (evict c) = take (nat (cc_max c)) (cc_order c) \<and>
     cache_abs (evict c) = take (nat (cc_max c)) (cache_abs c)"
proof (induction "length (cc_order c)" arbitrary: c)
  case 0
  then show ?case
    by (simp add: evict_unfold [of c] cache_abs_def)
next
  case (Suc n)
  show ?case
  proof (cases "cc_max c < int (length (cc_order c))")
    case False
    then show ?thesis
      using Suc.prems by (simp add: evict_unfold [of c] cache_abs_def)
  next
    case True
    have ne: "cc_order c \<noteq> []"
      using Suc.hyps(2) by auto
    have "take (nat (cc_max c)) (butlast (cc_order c)) = take (nat (cc_max c)) (cc_order c)"
      using True Suc.prems(2) by (intro take_butlast) (simp add: nat_less_iff)
    moreover from this have "take (nat (cc_max c)) (cache_abs (pop_last c)) = take (nat (cc_max c)) (cache_abs c)"
      by (simp add: cache_abs_def take_map)
    moreover have "n = length (cc_order (pop_last c))" "linked (pop_last c)"
      using Suc.hyps(2) linked_pop_last [OF Suc.prems(1) ne] by simp_all
    ultimately show ?thesis
      using Suc.hyps(1) [of "pop_last c"] Suc.prems(2) True ne
      by (simp add: evict_unfold [of c])
  qed
qed

lemma cache_get_refines:
  assumes "cache_ok (Some c)"
  shows "\<exists>c'. cache_get (Some c) k = (map_of (cache_abs c) k, Some c') \<and> cache_ok (Some c') \<and>
      cc_max c' = cc_max c \<and> cache_abs c' = lru_touch k (cache_abs c)"
proof (cases "cc_entries c k")
  case None
  then show ?thesis
    using assms linked_lookup(2) [of c k] by (simp add: cache_get_def cache_ok_def lru_touch_def)
next
  case (Some e)
  let ?c = "store_front e (k, snd (element_value c e)) c"
  have l: "linked c" using assms by (simp add: cache_ok_def)
  note lookup = linked_lookup(1) [OF l Some]
  have "e \<in> set (cc_order c)" using l Some by (simp add: linked_def)
  then have len: "length (cc_order ?c) = length (cc_order c)"
    by (simp add: store_front_def length_move_to_front)
  have "cache_get (Some c) k = (map_of (cache_abs c) k, Some ?c)"
    using Some lookup store_front_same [OF l Some] by (simp add: cache_get_def)
  moreover have "cache_ok (Some ?c)" "cc_max ?c = cc_max c"
    using assms len linked_store_front(1) [OF l Some]
    by (simp_all add: cache_ok_def) (simp_all add: store_front_def)
  moreover have "cache_abs ?c = lru_touch k (cache_abs c)"
    using lookup linked_store_front(2) [OF l Some] by (simp add: lru_touch_def)
  ultimately show ?thesis by blast
qed

lemma cache_put_refines:
  assumes "cache_ok (Some c)"
  shows "\<exists>c'. cache_put (Some c) k d = Some c' \<and> cache_ok (Some c') \<and> cc_max c' = cc_max c \<and>
      cache_abs c' = lru_put (nat (cc_max c)) k d (cache_abs c)"
proof (cases "cc_entries c k")
  case None
  let ?c = "evict (push_new k d c)"
  have l: "linked c" and m: "0 < cc_max c" using assms by (simp_all add: cache_ok_def)
  note new = linked_push_new [OF l None, of d]
  have m': "cc_max (push_new k d c) = cc_max c" by (simp add: push_new_def)
  have ev: "linked ?c" "cc_max ?c = cc_max c" "cc_order ?c = take (nat (cc_max c)) (cc_order (push_new k d c))"
    "cache_abs ?c = take (nat (cc_max c)) (cache_abs (push_new k d c))"
    using linked_evict [OF new(1)] m by (simp_all add: m')
  have "cache_put (Some c) k d = Some ?c"
    using None by (simp add: cache_put_def push_new_def)
  moreover have "cache_ok (Some ?c)" using ev m by (simp add: cache_ok_def)
  ultimately show ?thesis using ev new(2) by (simp add: lru_put_def)
next
  case (Some e)
  let ?c = "store_front e (k, d) c"
  have l: "linked c" and m: "0 < cc_max c" and len: "int (length (cc_order c)) \<le> cc_max c"
    using assms by (simp_all add: cache_ok_def)
  have e: "e \<in> set (cc_order c)" "fst (element_value c e) = k" using l Some by (simp_all add: linked_def)
  have len': "length (cc_order ?c) = length (cc_order c)"
    using e by (simp add: store_front_def length_move_to_front)
  have "length (cache_abs ?c) \<le> nat (cc_max c)"
    using len len' by (simp add: cache_abs_def)
  then have "cache_abs ?c = lru_put (nat (cc_max c)) k d (cache_abs c)"
    using linked_store_front(2) [OF l Some, of d] by (simp add: lru_put_def)
  moreover have "cache_put (Some c) k d = Some ?c"
    using Some e by (simp add: cache_put_def store_front_def)
  moreover have "cache_ok (Some ?c)" "cc_max ?c = cc_max c"
    using assms len' linked_store_front(1) [OF l Some]
    by (simp_all add: cache_ok_def) (simp_all add: store_front_def)
  ultimately show ?thesis by blast
qed

text \<open>
  C6. The linked structure implements an LRU list: a lookup returns what the abstract list
  holds and moves the chunk to the front, a store puts the chunk in front, replaces an
  older copy and drops the least recently used chunks beyond the bound. The invariant
  (map and list agree, every chunk at most once, at most \<open>max\<close> chunks) is preserved.
\<close>

theorem chunk_cache_is_lru:
  assumes "cache_ok (Some c)"
  shows "\<exists>cg cp. cache_get (Some c) k = (map_of (cache_abs c) k, Some cg) \<and>
      cache_ok (Some cg) \<and> cache_abs cg = lru_touch k (cache_abs c) \<and>
      cache_put (Some c) k d = Some cp \<and>
      cache_ok (Some cp) \<and> cache_abs cp = lru_put (nat (cc_max c)) k d (cache_abs c)"
  using cache_get_refines [OF assms, of k] cache_put_refines [OF assms, of k d] by auto

theorem chunk_cache_is_lru_witness:
  "let c = \<lparr>cc_entries = Map.empty, cc_order = [], cc_elements = Map.empty, cc_fresh = 0, cc_max = 2\<rparr> in
   \<exists>cp. cache_put (Some c) 7 [1] = Some cp \<and> cache_abs cp = [(7, [1])]"
proof -
  let ?c = "\<lparr>cc_entries = Map.empty, cc_order = [], cc_elements = Map.empty, cc_fresh = 0, cc_max = 2\<rparr>"
  have "cache_ok (Some ?c)" by (simp add: cache_ok_def linked_def)
  from chunk_cache_is_lru [OF this, of 7 "[1]"] show ?thesis
    by (auto simp: lru_put_def cache_abs_def Let_def)
qed

section \<open>What the reader relies on\<close>

text \<open>
  Reading a chunk through a cache: a hit returns the cached bytes, a miss decodes the chunk
  and stores the result; failures are not cached.
\<close>

definition fetch_through ::
  "('c \<Rightarrow> int \<Rightarrow> bytes option \<times> 'c) \<Rightarrow> ('c \<Rightarrow> int \<Rightarrow> bytes \<Rightarrow> 'c)
     \<Rightarrow> (int \<Rightarrow> (gerr + bytes) go) \<Rightarrow> 'c \<Rightarrow> int \<Rightarrow> (gerr + bytes) go \<times> 'c" where
  "fetch_through get put decode c k =
     (case get c k of
        (Some data, c') \<Rightarrow> (Returns (Inr data), c')
      | (None, c') \<Rightarrow>
          (case decode k of
             Returns (Inr data) \<Rightarrow> (Returns (Inr data), put c' k data)
           | Returns (Inl e) \<Rightarrow> (Returns (Inl e), c')
           | Panics \<Rightarrow> (Panics, c')))"

locale chunk_store =
  fixes get :: "'c \<Rightarrow> int \<Rightarrow> bytes option \<times> 'c"
    and put :: "'c \<Rightarrow> int \<Rightarrow> bytes \<Rightarrow> 'c"
    and inv :: "'c \<Rightarrow> bool"
    and contents :: "'c \<Rightarrow> int \<rightharpoonup> bytes"
  assumes get_inv: "inv c \<Longrightarrow> inv (snd (get c k))"
    and get_value: "inv c \<Longrightarrow> fst (get c k) = contents c k"
    and get_contents: "inv c \<Longrightarrow> contents (snd (get c k)) \<subseteq>\<^sub>m contents c"
    and put_inv: "inv c \<Longrightarrow> inv (put c k d)"
    and put_contents: "inv c \<Longrightarrow> contents (put c k d) \<subseteq>\<^sub>m (contents c)(k \<mapsto> d)"
begin

text \<open>Every cached chunk is what decoding it gives.\<close>

definition coherent :: "(int \<Rightarrow> (gerr + bytes) go) \<Rightarrow> 'c \<Rightarrow> bool" where
  "coherent decode c \<longleftrightarrow> inv c \<and> (\<forall>k d. contents c k = Some d \<longrightarrow> decode k = Returns (Inr d))"

lemma coherent_get: "coherent decode c \<Longrightarrow> coherent decode (snd (get c k))"
  using get_inv get_contents unfolding coherent_def map_le_def by (metis domI)

lemma coherent_put:
  "coherent decode c \<Longrightarrow> decode k = Returns (Inr d) \<Longrightarrow> coherent decode (put c k d)"
  using put_inv put_contents unfolding coherent_def map_le_def
  by (metis domI fun_upd_apply option.inject)

lemma fetch_coherent:
  assumes "coherent decode c"
  shows "fst (fetch_through get put decode c k) = decode k"
    and "coherent decode (snd (fetch_through get put decode c k))"
proof -
  obtain r c' where g: "get c k = (r, c')" by (cases "get c k")
  have hit: "decode k = Returns (Inr d)" if "r = Some d" for d
    using get_value [of c k] assms g that by (simp add: coherent_def)
  have c': "coherent decode c'" using coherent_get [OF assms, of k] g by simp
  show "fst (fetch_through get put decode c k) = decode k"
    using hit by (auto simp: fetch_through_def g split: option.split go.split sum.split)
  show "coherent decode (snd (fetch_through get put decode c k))"
    using c' coherent_put [OF c', of k]
    by (auto simp: fetch_through_def g split: option.split go.split sum.split)
qed

end

lemma lru_touch_contents: "map_of (lru_touch k xs) = map_of xs"
proof (cases "map_of xs k")
  case (Some d)
  have "map_of (filter (\<lambda>p. fst p \<noteq> k) xs) j = map_of xs j" if "j \<noteq> k" for j
    using that by (induction xs) auto
  with Some show ?thesis by (auto simp: lru_touch_def fun_eq_iff)
qed (simp add: lru_touch_def)

lemma map_of_take: "distinct (map fst xs) \<Longrightarrow> map_of (take n xs) \<subseteq>\<^sub>m map_of xs"
  by (metis append_take_drop_id map_le_def map_of_append map_add_dom_app_simps(2)
      distinct_append map_append map_of_SomeD domD disjoint_iff map_add_comm map_le_map_add dom_map_of_conv_image_fst list.set_map)

lemma lru_put_contents:
  assumes "distinct (map fst xs)"
  shows "map_of (lru_put m k d xs) \<subseteq>\<^sub>m (map_of xs)(k \<mapsto> d)"
proof -
  let ?ys = "(k, d) # filter (\<lambda>p. fst p \<noteq> k) xs"
  have "distinct (map fst ?ys)"
    using assms by (auto simp: distinct_map_filter)
  then have "map_of (take m ?ys) \<subseteq>\<^sub>m map_of ?ys" by (rule map_of_take)
  also have "map_of ?ys = (map_of xs)(k \<mapsto> d)"
  proof -
    have "map_of (filter (\<lambda>p. fst p \<noteq> k) xs) j = map_of xs j" if "j \<noteq> k" for j
      using that by (induction xs) auto
    then show ?thesis by (auto simp: fun_eq_iff)
  qed
  finally show ?thesis unfolding lru_put_def .
qed

lemma distinct_cache_abs: "linked c \<Longrightarrow> distinct (map fst (cache_abs c))"
  by (simp add: linked_def cache_abs_def comp_def)

text \<open>The LRU cache, enabled or not, is such a store.\<close>

interpretation lru: chunk_store cache_get cache_put cache_ok cache_contents
proof
  fix c k d
  assume c: "cache_ok c"
  have get: "cache_ok (snd (cache_get c k)) \<and> fst (cache_get c k) = cache_contents c k \<and>
      cache_contents (snd (cache_get c k)) = cache_contents c"
  proof (cases c)
    case None
    then show ?thesis by (simp add: cache_get_def cache_ok_def cache_contents_def)
  next
    case (Some c1)
    then show ?thesis
      using c cache_get_refines [of c1 k] by (auto simp: cache_contents_def lru_touch_contents)
  qed
  show "cache_ok (snd (cache_get c k))" using get by simp
  show "fst (cache_get c k) = cache_contents c k" using get by simp
  show "cache_contents (snd (cache_get c k)) \<subseteq>\<^sub>m cache_contents c" using get by simp
  show "cache_ok (cache_put c k d)"
  proof (cases c)
    case None
    then show ?thesis by (simp add: cache_put_def cache_ok_def)
  next
    case (Some c1)
    then show ?thesis using c cache_put_refines [of c1 k d] by auto
  qed
  show "cache_contents (cache_put c k d) \<subseteq>\<^sub>m (cache_contents c)(k \<mapsto> d)"
  proof (cases c)
    case (Some c1)
    then obtain c2 where "cache_put c k d = Some c2"
      "cache_abs c2 = lru_put (nat (cc_max c1)) k d (cache_abs c1)"
      using c cache_put_refines by blast
    moreover have "distinct (map fst (cache_abs c1))"
      using c Some by (simp add: cache_ok_def distinct_cache_abs)
    ultimately show ?thesis
      using Some lru_put_contents by (simp add: cache_contents_def)
  qed (simp add: cache_put_def cache_contents_def)
qed

section \<open>Concurrent readers\<close>

text \<open>
  A lookup and a store are atomic (the mutex); the decoding between them is not. So the
  cache sees an arbitrary interleaving of lookups of any chunk and of stores of chunks
  that some reader decoded successfully.
\<close>

inductive cache_step ::
  "(int \<Rightarrow> (gerr + bytes) go) \<Rightarrow> chunk_cache option \<Rightarrow> chunk_cache option \<Rightarrow> bool" for decode where
  step_get: "cache_step decode c (snd (cache_get c k))"
| step_put: "decode k = Returns (Inr d) \<Longrightarrow> cache_step decode c (cache_put c k d)"

inductive_cases cache_stepE: "cache_step decode c c'"

lemma new_cache_coherent: "lru.coherent decode (new_chunk_cache m)"
  by (simp add: lru.coherent_def new_chunk_cache_def cache_ok_def cache_contents_def cache_abs_def
      linked_def)

lemma reachable_coherent:
  "(cache_step decode)\<^sup>*\<^sup>* (new_chunk_cache m) c \<Longrightarrow> lru.coherent decode c"
  by (induction rule: rtranclp_induct)
     (auto intro: new_cache_coherent lru.coherent_get lru.coherent_put elim: cache_stepE)

lemma cache_step_max:
  assumes "cache_ok c" "cache_step decode c c'"
  shows "map_option cc_max c' = map_option cc_max c"
  using assms(2)
proof cases
  case (step_get k)
  then show ?thesis using assms(1) cache_get_refines [of _ k]
    by (cases c) (auto simp: cache_get_def split: option.split)
next
  case (step_put k d)
  then show ?thesis
    using assms(1) cache_put_refines [of _ k d]
    by (cases c) (force simp: cache_put_def)+
qed

lemma reachable_max:
  "(cache_step decode)\<^sup>*\<^sup>* (new_chunk_cache m) c \<Longrightarrow> map_option cc_max c = map_option cc_max (new_chunk_cache m)"
proof (induction rule: rtranclp_induct)
  case (step y z)
  have "cache_ok y" using reachable_coherent [OF step.hyps(1)] by (simp add: lru.coherent_def)
  from cache_step_max [OF this step.hyps(2)] step.IH show ?case by simp
qed simp

text \<open>
  C7. However the lookups and stores of concurrent readers interleave, a lookup only ever
  returns the bytes decoding that chunk gives, and the cache holds at most the number of
  chunks it was created for (none when it is disabled).
\<close>

theorem concurrent_cache_sound:
  assumes "(cache_step decode)\<^sup>*\<^sup>* (new_chunk_cache m) c"
  shows "cache_len c \<le> max 0 m \<and> (fst (cache_get c k) = Some d \<longrightarrow> decode k = Returns (Inr d))"
proof
  have ok: "lru.coherent decode c" by (rule reachable_coherent [OF assms])
  show "fst (cache_get c k) = Some d \<longrightarrow> decode k = Returns (Inr d)"
    using ok lru.get_value by (simp add: lru.coherent_def)
  show "cache_len c \<le> max 0 m"
    using ok reachable_max [OF assms]
    by (cases c) (auto simp: lru.coherent_def cache_ok_def cache_len_def new_chunk_cache_def split: if_splits)
qed

theorem concurrent_cache_sound_witness:
  "let decode = (\<lambda>k. Returns (Inr [word_of_int k]));
       c = cache_put (cache_put (new_chunk_cache 1) 3 [3]) 4 [4] in
   cache_len c \<le> 1 \<and> fst (cache_get c 4) = Some [4] \<and> decode 4 = Returns (Inr [4])"
proof -
  define decode :: "int \<Rightarrow> (gerr + bytes) go" where "decode = (\<lambda>k. Returns (Inr [word_of_int k]))"
  let ?c = "cache_put (cache_put (new_chunk_cache 1) 3 [3]) 4 [4]"
  have "cache_step decode (new_chunk_cache 1) (cache_put (new_chunk_cache 1) 3 [3])"
    "cache_step decode (cache_put (new_chunk_cache 1) 3 [3]) ?c"
    by (rule step_put, simp add: decode_def)+
  then have "(cache_step decode)\<^sup>*\<^sup>* (new_chunk_cache 1) ?c"
    by (meson converse_rtranclp_into_rtranclp rtranclp.rtrancl_refl)
  moreover have "fst (cache_get ?c 4) = Some [4]" by code_simp
  ultimately show ?thesis
    using concurrent_cache_sound [of decode 1 ?c 4 "[4]"] by (simp add: decode_def Let_def)
qed

section \<open>The depth of the cache\<close>

text \<open>
  The depth used is never negative and never more than requested, and the decoded
  chunks it keeps stay within 64 MiB unless it is a single chunk; a negative request or an
  unknown chunk size disables the cache, any other request keeps at least one chunk.
\<close>

theorem effective_cache_chunks_bounds:
  "let n = effective_cache_chunks requested chunk_size in
   0 \<le> n \<and> (n = 0 \<longleftrightarrow> requested < 0 \<or> chunk_size \<le> 0) \<and>
   n \<le> max 1 (67108864 div max 1 chunk_size) \<and>
   n * max 0 chunk_size \<le> max 67108864 chunk_size \<and>
   n \<le> max 0 (if requested = 0 then 16 else requested)"
proof (cases "requested < 0 \<or> chunk_size \<le> 0")
  case True
  then show ?thesis by (auto simp: effective_cache_chunks_def)
next
  case False
  define q where "q = 67108864 div chunk_size"
  have q: "0 \<le> q" "q * chunk_size \<le> 67108864"
    using False by (simp_all add: q_def pos_imp_zdiv_nonneg_iff minus_mod_eq_div_mult [symmetric])
  have n: "effective_cache_chunks requested chunk_size =
      min (if q < 1 then 1 else q) (if requested = 0 then 16 else requested)"
    using False by (simp add: effective_cache_chunks_def go_defs q_def Let_def min_def)
  show ?thesis
  proof (cases "q < 1")
    case True
    with n False q show ?thesis by (auto simp: q_def [symmetric] Let_def min_def max_def)
  next
    case False
    let ?n = "effective_cache_chunks requested chunk_size"
    have cs: "max 0 chunk_size = chunk_size" "max 1 chunk_size = chunk_size"
      using \<open>\<not> (requested < 0 \<or> chunk_size \<le> 0)\<close> by auto
    have le: "1 \<le> ?n" "?n \<le> q" "?n \<le> (if requested = 0 then 16 else requested)"
      using n False \<open>\<not> (requested < 0 \<or> chunk_size \<le> 0)\<close> by auto
    have "?n * chunk_size \<le> q * chunk_size"
      using le(2) cs by (intro mult_right_mono) auto
    then have "?n * chunk_size \<le> max 67108864 chunk_size"
      using q(2) by (simp add: le_max_iff_disj)
    then show ?thesis
      unfolding Let_def cs q_def [symmetric]
      using le False \<open>\<not> (requested < 0 \<or> chunk_size \<le> 0)\<close> by (auto simp: le_max_iff_disj)
  qed
qed

end
