(* ===== verification/Image_Open.thy ===== *)
theory Image_Open
  imports Payloads Chunk_Table Chunk_Cache
begin

text \<open>
  Opening a segment set (\<open>reader/open.go\<close>): parsing each segment, ordering and
  validating the set, merging the metadata, the encryption and checksum gates, and the
  device geometry.
\<close>

section \<open>State and options\<close>

datatype checksum_policy = ChecksumWarn | ChecksumIgnore | ChecksumStrict

record options =
  opt_allow_incomplete :: bool
  opt_checksum_policy :: checksum_policy
  opt_chunk_cache_chunks :: int

definition default_options :: options where
  "default_options =
     \<lparr>opt_allow_incomplete = False, opt_checksum_policy = ChecksumWarn, opt_chunk_cache_chunks = 0\<rparr>"

record image_reader =
  ir_source :: io_source
  ir_segment_file_type :: segment_file_type
  ir_header :: header_info
  ir_sections :: "section_info list"
  ir_metadata :: info
  ir_chunk_table :: "chunk_desc list"
  ir_chunk_size :: int
  ir_logical_size :: int
  ir_cache :: "chunk_cache option"

record parsed_segment =
  seg_source :: io_source
  seg_file_type :: segment_file_type
  seg_header :: header_info
  seg_sections :: "section_info list"
  seg_metadata :: info
  seg_chunk_table :: "chunk_desc list"
  seg_stats :: chunk_table_stats

abbreviation seg_number :: "parsed_segment \<Rightarrow> u32" where
  "seg_number s \<equiv> hi_segment_number (seg_header s)"

section \<open>One segment\<close>

definition segment_of ::
  "golib \<Rightarrow> io_source \<Rightarrow> segment_file_type \<Rightarrow> header_info \<Rightarrow> section_info list \<Rightarrow> parsed_segment" where
  "segment_of lib src t header sections =
     (let (chunks, stats) = build_chunk_table src header sections in
      \<lparr>seg_source = src, seg_file_type = t, seg_header = header, seg_sections = sections,
       seg_metadata = populate_metadata lib src header sections (build_metadata header sections),
       seg_chunk_table = chunks, seg_stats = stats\<rparr>)"

definition parse_segment :: "golib \<Rightarrow> io_source \<Rightarrow> gerr + parsed_segment" where
  "parse_segment lib src =
     (case read_slice src 0 8 of
        Inl e \<Rightarrow> Inl (Wrapped ''reader: unable to read file signature'' e)
      | Inr signature \<Rightarrow>
          (case detect_segment_file_type signature of
             Inl e \<Rightarrow> Inl e
           | Inr t \<Rightarrow>
               (case parse_file_header src t of
                  Inl e \<Rightarrow> Inl e
                | Inr header \<Rightarrow>
                    (case parse_section_descriptors src (hi_major_version header) of
                       Inl e \<Rightarrow> Inl e
                     | Inr sections \<Rightarrow> Inr (segment_of lib src t header sections)))))"

text \<open>A segment that fails to parse has no number yet: the error names its index.\<close>

fun parse_segments :: "golib \<Rightarrow> nat \<Rightarrow> io_source list \<Rightarrow> gerr + parsed_segment list" where
  "parse_segments lib i [] = Inr []"
| "parse_segments lib i (src # srcs) =
     (case parse_segment lib src of
        Inl e \<Rightarrow> Inl (SegmentError 0 i ''parse'' e)
      | Inr seg \<Rightarrow>
          (case parse_segments lib (i + 1) srcs of
             Inl e \<Rightarrow> Inl e
           | Inr segs \<Rightarrow> Inr (seg # segs)))"

section \<open>The set\<close>

definition check_segment ::
  "parsed_segment \<Rightarrow> options \<Rightarrow> nat \<Rightarrow> u32 list \<Rightarrow> parsed_segment \<Rightarrow> gerr option" where
  "check_segment first opts i seen seg =
     (if hi_major_version (seg_header seg) \<noteq> hi_major_version (seg_header first)
      then Some (wraps ''reader: segment major version does not match'' ErrCorruptImage)
      else if seg_file_type seg \<noteq> seg_file_type first
      then Some (wraps ''reader: segment type does not match'' ErrCorruptImage)
      else if seg_number seg \<in> set seen
      then Some (wraps ''reader: duplicate segment number'' ErrCorruptImage)
      else let want = of_nat (i + 1) in
           if seg_number seg \<noteq> want \<and> \<not> opt_allow_incomplete opts
           then (if want < seg_number seg
                 then Some (wraps ''reader: segment is missing from the set'' ErrMissingSegment)
                 else Some (wraps ''reader: segment numbering does not start at 1'' ErrIncompleteSegmentSet))
           else None)"

fun check_segments ::
  "parsed_segment \<Rightarrow> options \<Rightarrow> nat \<Rightarrow> u32 list \<Rightarrow> parsed_segment list \<Rightarrow> gerr option" where
  "check_segments first opts i seen [] = None"
| "check_segments first opts i seen (seg # segs) =
     (case check_segment first opts i seen seg of
        Some e \<Rightarrow> Some e
      | None \<Rightarrow> check_segments first opts (i + 1) (seg_number seg # seen) segs)"

definition validate_segment_set :: "parsed_segment list \<Rightarrow> options \<Rightarrow> gerr option" where
  "validate_segment_set segs opts =
     (case check_segments (hd segs) opts 0 [] segs of
        Some e \<Rightarrow> Some e
      | None \<Rightarrow>
          (if \<not> opt_allow_incomplete opts \<and> \<not> inf_has_done (seg_metadata (last segs))
           then Some (wraps ''reader: highest segment has no done section'' ErrIncompleteSegmentSet)
           else None))"

definition merge_counts :: "('k \<rightharpoonup> nat) \<Rightarrow> ('k \<rightharpoonup> nat) \<Rightarrow> ('k \<rightharpoonup> nat)" where
  "merge_counts m n =
     (\<lambda>k. case n k of
            None \<Rightarrow> m k
          | Some c \<Rightarrow> Some ((case m k of None \<Rightarrow> 0 | Some x \<Rightarrow> x) + c))"

text \<open>The loop body: later segments add up, and only fill in what is still missing.\<close>

definition merge_one :: "parsed_segment \<Rightarrow> info \<Rightarrow> info" where
  "merge_one seg merged =
     (let meta = seg_metadata seg in
      merged
       \<lparr>inf_section_count := inf_section_count merged + inf_section_count meta,
        inf_type_counts := merge_counts (inf_type_counts merged) (inf_type_counts meta),
        inf_has_next := (inf_has_next merged \<or> inf_has_next meta),
        inf_has_done := (inf_has_done merged \<or> inf_has_done meta),
        inf_is_encrypted := (inf_is_encrypted merged \<or> inf_is_encrypted meta),
        inf_has_integrity_blocks := (inf_has_integrity_blocks merged \<or> inf_has_integrity_blocks meta),
        inf_sessions := inf_sessions merged @ inf_sessions meta,
        inf_errors := inf_errors merged @ inf_errors meta,
        inf_md5 := (if \<not> inf_has_md5 merged \<and> inf_has_md5 meta then inf_md5 meta else inf_md5 merged),
        inf_has_md5 := (inf_has_md5 merged \<or> inf_has_md5 meta),
        inf_sha1 := (if \<not> inf_has_sha1 merged \<and> inf_has_sha1 meta then inf_sha1 meta else inf_sha1 merged),
        inf_has_sha1 := (inf_has_sha1 merged \<or> inf_has_sha1 meta),
        inf_sections := inf_sections merged @ inf_sections meta,
        inf_media := (case inf_media merged of None \<Rightarrow> inf_media meta | Some m \<Rightarrow> Some m),
        inf_acquisition := (case inf_acquisition merged of None \<Rightarrow> inf_acquisition meta | Some a \<Rightarrow> Some a),
        inf_tables_recovered := inf_tables_recovered merged + tables_recovered (seg_stats seg),
        inf_tables_invalid := inf_tables_invalid merged + tables_invalid (seg_stats seg)\<rparr>)"

definition merge_segment_metadata :: "parsed_segment list \<Rightarrow> chunk_desc list \<Rightarrow> info" where
  "merge_segment_metadata segs merged_chunks =
     (let first = hd segs;
          start = (seg_metadata first)
            \<lparr>inf_tables_recovered := tables_recovered (seg_stats first),
             inf_tables_invalid := tables_invalid (seg_stats first)\<rparr> in
      (fold merge_one (tl segs) start)\<lparr>inf_observed_chunks := of_nat (length merged_chunks)\<rparr>)"

section \<open>Geometry\<close>

definition compute_geometry :: "media_info option \<Rightarrow> gerr + int \<times> int" where
  "compute_geometry media =
     (case media of
        None \<Rightarrow> Inr (0, 0)
      | Some m \<Rightarrow>
          (if mi_bytes_per_sector m = 0 \<or> mi_sectors_per_chunk m = 0
           then Inl (wraps ''reader: invalid geometry'' ErrCorruptImage)
           else let spc = ucast (mi_sectors_per_chunk m) :: u64;
                    bps = ucast (mi_bytes_per_sector m) :: u64 in
                if uint64_of max_int64 div bps < spc
                then Inl (wraps ''reader: chunk size overflows'' ErrCorruptImage)
                else if uint64_of max_int64 div bps < mi_number_of_sectors m
                then Inl (wraps ''reader: device size overflows'' ErrCorruptImage)
                else Inr (int64_of (spc * bps), int64_of (mi_number_of_sectors m * bps))))"

section \<open>Opening\<close>

text \<open>\<open>sort.Slice\<close> by segment number. Equal numbers are refused by the validation that follows.\<close>

definition sort_segments :: "parsed_segment list \<Rightarrow> parsed_segment list" where
  "sort_segments segs = sort_key (\<lambda>s. uint (seg_number s)) segs"

definition apply_policy :: "options \<Rightarrow> info \<Rightarrow> gerr + info" where
  "apply_policy opts meta =
     (case opt_checksum_policy opts of
        ChecksumStrict \<Rightarrow>
          (if 0 < inf_tables_invalid meta
           then Inl (wraps ''reader: chunk tables failed checksum validation'' ErrChecksumMismatch)
           else Inr meta)
      | ChecksumIgnore \<Rightarrow> Inr (meta\<lparr>inf_tables_invalid := 0, inf_tables_recovered := 0\<rparr>)
      | ChecksumWarn \<Rightarrow> Inr meta)"

definition reader_of :: "parsed_segment list \<Rightarrow> options \<Rightarrow> gerr + image_reader" where
  "reader_of segs opts =
     (let chunks = concat (map seg_chunk_table segs);
          merged = merge_segment_metadata segs chunks in
      if inf_is_encrypted merged
      then Inl (wraps ''reader: image is encrypted and decryption is not supported'' ErrEncrypted)
      else case apply_policy opts merged of
             Inl e \<Rightarrow> Inl e
           | Inr meta \<Rightarrow>
               (case compute_geometry (inf_media meta) of
                  Inl e \<Rightarrow> Inl e
                | Inr (chunk_size, logical_size) \<Rightarrow>
                    Inr \<lparr>ir_source = seg_source (hd segs),
                         ir_segment_file_type = seg_file_type (hd segs),
                         ir_header = seg_header (hd segs), ir_sections = seg_sections (hd segs),
                         ir_metadata = meta, ir_chunk_table = chunks,
                         ir_chunk_size = chunk_size, ir_logical_size = logical_size,
                         ir_cache = new_chunk_cache
                           (effective_cache_chunks (opt_chunk_cache_chunks opts) chunk_size)\<rparr>))"

definition open_segments_with_options ::
  "golib \<Rightarrow> io_source list \<Rightarrow> options \<Rightarrow> gerr + image_reader" where
  "open_segments_with_options lib sources opts =
     (if sources = [] then Inl (wraps ''reader: no segment sources provided'' ErrUnsupportedFormat)
      else case parse_segments lib 0 sources of
             Inl e \<Rightarrow> Inl e
           | Inr parsed \<Rightarrow>
               (let segs = sort_segments parsed in
                case validate_segment_set segs opts of
                  Some e \<Rightarrow> Inl e
                | None \<Rightarrow> reader_of segs opts))"

definition open_with_options :: "golib \<Rightarrow> io_source \<Rightarrow> options \<Rightarrow> gerr + image_reader" where
  "open_with_options lib source opts = open_segments_with_options lib [source] opts"

definition open_segments :: "golib \<Rightarrow> io_source list \<Rightarrow> gerr + image_reader" where
  "open_segments lib sources = open_segments_with_options lib sources default_options"

definition open_image :: "golib \<Rightarrow> io_source \<Rightarrow> gerr + image_reader" where
  "open_image lib source = open_segments lib [source]"

section \<open>Which sets are accepted\<close>

definition same_kind :: "parsed_segment \<Rightarrow> parsed_segment \<Rightarrow> bool" where
  "same_kind a b \<longleftrightarrow>
     hi_major_version (seg_header a) = hi_major_version (seg_header b) \<and> seg_file_type a = seg_file_type b"

lemma check_segment_None:
  "check_segment first opts i seen seg = None \<longleftrightarrow>
     same_kind seg first \<and> seg_number seg \<notin> set seen \<and>
     (\<not> opt_allow_incomplete opts \<longrightarrow> seg_number seg = of_nat (i + 1))"
  by (auto simp: check_segment_def same_kind_def Let_def)

lemma check_segments_None:
  "check_segments first opts i seen segs = None \<longleftrightarrow>
     (\<forall>s \<in> set segs. same_kind s first) \<and> distinct (map seg_number segs) \<and>
     set (map seg_number segs) \<inter> set seen = {} \<and>
     (\<not> opt_allow_incomplete opts \<longrightarrow>
        map seg_number segs = map (\<lambda>j. of_nat (j + 1)) [i..<i + length segs])"
proof (induction segs arbitrary: i seen)
  case (Cons seg segs)
  define want where "want = (\<lambda>j. of_nat (j + 1) :: u32)"
  have upt: "[i..<i + length (seg # segs)] = i # [i + 1..<i + 1 + length segs]"
    by (subst upt_conv_Cons) simp_all
  have step: "check_segments first opts i seen (seg # segs) = None \<longleftrightarrow>
      check_segment first opts i seen seg = None \<and>
      check_segments first opts (i + 1) (seg_number seg # seen) segs = None"
    by (simp split: option.split)
  have disjoint: "N \<inter> insert n S = {} \<longleftrightarrow> n \<notin> N \<and> N \<inter> S = {}" "insert n N \<inter> S = {} \<longleftrightarrow> n \<notin> S \<and> N \<inter> S = {}"
    for n :: u32 and N S by auto
  have ball: "(\<forall>s \<in> set (seg # segs). same_kind s first) \<longleftrightarrow>
      same_kind seg first \<and> (\<forall>s \<in> set segs. same_kind s first)" by simp
  show ?case
    unfolding step check_segment_None Cons.IH upt ball
    by (simp only: list.map list.set distinct.simps list.inject disjoint set_map [symmetric]) argo
qed simp

lemma validate_segment_set_None:
  "validate_segment_set segs opts = None \<longleftrightarrow>
     list_all (\<lambda>s. same_kind s (hd segs)) segs \<and> distinct (map seg_number segs) \<and>
     (opt_allow_incomplete opts \<or>
        map seg_number segs = map (\<lambda>j. of_nat (j + 1)) [0..<length segs] \<and>
        inf_has_done (seg_metadata (last segs)))"
  unfolding validate_segment_set_def
  using check_segments_None [of "hd segs" opts 0 "[]" segs]
  by (cases "check_segments (hd segs) opts 0 [] segs") (auto simp: list_all_iff)

text \<open>
  C8. A segment set is accepted exactly when all segments are of one kind (major version
  and file type), no number occurs twice and, unless incomplete sets are allowed, the
  numbers in order are 1, 2, 3, ... without a gap and the last segment ends the set with
  a \<open>done\<close> section.
\<close>

theorem validate_segment_set_iff:
  "validate_segment_set segs opts = None \<longleftrightarrow>
     list_all (\<lambda>s. same_kind s (hd segs)) segs \<and> distinct (map seg_number segs) \<and>
     (opt_allow_incomplete opts \<or>
        map seg_number segs = map (\<lambda>j. of_nat (j + 1)) [0..<length segs] \<and>
        inf_has_done (seg_metadata (last segs)))"
  by (rule validate_segment_set_None)

section \<open>Order of the sources\<close>

lemma parse_segments_Cons:
  "parse_segments lib i (src # srcs) = Inr segs \<longleftrightarrow>
     (\<exists>s ss. segs = s # ss \<and> parse_segment lib src = Inr s \<and> parse_segments lib (i + 1) srcs = Inr ss)"
  by (auto split: sum.split)

lemma parse_segments_Inr:
  "parse_segments lib i srcs = Inr segs \<longleftrightarrow> list_all2 (\<lambda>src seg. parse_segment lib src = Inr seg) srcs segs"
proof (induction srcs arbitrary: i segs)
  case (Cons src srcs)
  show ?case unfolding parse_segments_Cons list_all2_Cons1 Cons.IH by blast
qed auto

lemma parse_segments_map:
  "parse_segments lib i srcs = Inr segs \<longleftrightarrow> map (parse_segment lib) srcs = map Inr segs"
  by (auto simp: parse_segments_Inr list_all2_conv_all_nth list_eq_iff_nth_eq)

lemma sort_segments_unique:
  assumes "mset segs = mset segs'" "distinct (map seg_number segs)"
  shows "sort_segments segs = sort_segments segs'"
proof -
  let ?k = "\<lambda>s. uint (seg_number s)"
  have inj: "inj_on ?k (set segs)"
    using assms(2) by (auto simp: distinct_map inj_on_def word_uint_eq_iff [symmetric])
  have sets: "set segs' = set segs" using assms(1) by (metis set_mset_mset)
  have d: "distinct segs" "distinct segs'"
    using assms by (auto simp: distinct_map dest: mset_eq_imp_distinct_iff)
  have keys: "distinct (map ?k (sort_segments xs))" if "set xs = set segs" "distinct xs" for xs
    using that inj by (simp add: sort_segments_def distinct_map)
  show ?thesis
    by (rule map_sorted_distinct_set_unique [where f = ?k])
       (use inj sets keys d in \<open>simp_all add: sort_segments_def\<close>)
qed

lemma mset_parse:
  assumes "mset srcs = mset srcs'" "parse_segments lib i srcs = Inr segs"
  shows "\<exists>segs'. parse_segments lib i srcs' = Inr segs' \<and> mset segs' = mset segs"
proof -
  let ?g = "\<lambda>src. case parse_segment lib src of Inr seg \<Rightarrow> seg"
  have all: "parse_segment lib src = Inr (?g src)" if "src \<in> set srcs" for src
    using assms(2) that unfolding parse_segments_Inr
    by (force simp: list_all2_conv_all_nth in_set_conv_nth split: sum.split)
  have "map (parse_segment lib) srcs = map Inr (map ?g srcs)" using all by simp
  with assms(2) have segs: "segs = map ?g srcs"
    unfolding parse_segments_map by (metis (no_types, lifting) list.inj_map_strong sum.inject(2))
  have "\<forall>src \<in> set srcs'. parse_segment lib src = Inr (?g src)"
    using all assms(1) by (metis set_mset_mset)
  then have "parse_segments lib i srcs' = Inr (map ?g srcs')"
    unfolding parse_segments_map by simp
  moreover have "mset (map ?g srcs') = mset segs" using assms(1) segs by simp
  ultimately show ?thesis by blast
qed

lemma open_Inr:
  "open_segments_with_options lib sources opts = Inr r \<longleftrightarrow>
     (\<exists>parsed. sources \<noteq> [] \<and> parse_segments lib 0 sources = Inr parsed \<and>
        validate_segment_set (sort_segments parsed) opts = None \<and>
        reader_of (sort_segments parsed) opts = Inr r)"
  by (auto simp: open_segments_with_options_def Let_def split: sum.split option.splits)

lemma sort_segments_mset [simp]: "mset (sort_segments segs) = mset segs"
  by (simp add: sort_segments_def)

lemma sort_segments_set [simp]: "set (sort_segments segs) = set segs"
  by (simp add: sort_segments_def)

lemma sort_segments_Nil [simp]: "sort_segments segs = [] \<longleftrightarrow> segs = []"
  by (metis sort_segments_mset mset_zero_iff_right mset_zero_iff)

lemma open_permuted:
  assumes "open_segments_with_options lib sources opts = Inr r" "mset sources' = mset sources"
  shows "open_segments_with_options lib sources' opts = Inr r"
proof -
  obtain parsed where p: "sources \<noteq> []" "parse_segments lib 0 sources = Inr parsed"
      "validate_segment_set (sort_segments parsed) opts = None"
      "reader_of (sort_segments parsed) opts = Inr r"
    using assms(1) unfolding open_Inr by blast
  obtain parsed' where p': "parse_segments lib 0 sources' = Inr parsed'" "mset parsed' = mset parsed"
    using mset_parse [OF assms(2) [symmetric] p(2)] by blast
  have "distinct (map seg_number (sort_segments parsed))"
    using p(3) unfolding validate_segment_set_None by simp
  then have "distinct (map seg_number parsed)"
    by (metis mset_eq_imp_distinct_iff mset_map sort_segments_mset)
  then have "sort_segments parsed' = sort_segments parsed"
    using sort_segments_unique p'(2) by metis
  moreover have "sources' \<noteq> []" using p(1) assms(2) by auto
  ultimately show ?thesis using p p'(1) unfolding open_Inr by auto
qed

text \<open>
  C9. Segments may be supplied in any order: if a set opens, it opens to the same reader
  whatever the order of the sources.
\<close>

theorem open_any_order:
  assumes "open_segments_with_options lib sources opts = Inr r" "mset sources' = mset sources"
  shows "open_segments_with_options lib sources' opts = Inr r"
  using assms by (rule open_permuted)

section \<open>What a merged image says\<close>

lemma merge_one_simps [simp]:
  "inf_is_encrypted (merge_one s m) \<longleftrightarrow> inf_is_encrypted m \<or> inf_is_encrypted (seg_metadata s)"
  "inf_section_count (merge_one s m) = inf_section_count m + inf_section_count (seg_metadata s)"
  "inf_sections (merge_one s m) = inf_sections m @ inf_sections (seg_metadata s)"
  "inf_sessions (merge_one s m) = inf_sessions m @ inf_sessions (seg_metadata s)"
  "inf_errors (merge_one s m) = inf_errors m @ inf_errors (seg_metadata s)"
  "inf_tables_invalid (merge_one s m) = inf_tables_invalid m + tables_invalid (seg_stats s)"
  "inf_tables_recovered (merge_one s m) = inf_tables_recovered m + tables_recovered (seg_stats s)"
  "inf_media (merge_one s m) = (case inf_media m of None \<Rightarrow> inf_media (seg_metadata s) | Some x \<Rightarrow> Some x)"
  "inf_acquisition (merge_one s m) =
     (case inf_acquisition m of None \<Rightarrow> inf_acquisition (seg_metadata s) | Some x \<Rightarrow> Some x)"
  "inf_has_md5 (merge_one s m) \<longleftrightarrow> inf_has_md5 m \<or> inf_has_md5 (seg_metadata s)"
  "inf_has_sha1 (merge_one s m) \<longleftrightarrow> inf_has_sha1 m \<or> inf_has_sha1 (seg_metadata s)"
  "inf_md5 (merge_one s m) =
     (if \<not> inf_has_md5 m \<and> inf_has_md5 (seg_metadata s) then inf_md5 (seg_metadata s) else inf_md5 m)"
  "inf_sha1 (merge_one s m) =
     (if \<not> inf_has_sha1 m \<and> inf_has_sha1 (seg_metadata s) then inf_sha1 (seg_metadata s) else inf_sha1 m)"
  by (simp_all add: merge_one_def Let_def)

text \<open>The stored MD5, SHA-1 and the geometry of a set are those of its first segment that has them.\<close>

definition stored_md5 :: "info \<Rightarrow> bytes option" where
  "stored_md5 m = (if inf_has_md5 m then Some (inf_md5 m) else None)"

definition stored_sha1 :: "info \<Rightarrow> bytes option" where
  "stored_sha1 m = (if inf_has_sha1 m then Some (inf_sha1 m) else None)"

lemma first_some_Cons: "first_some (x # xs) = (case x of None \<Rightarrow> first_some xs | Some y \<Rightarrow> Some y)"
  by (cases x) simp_all

lemma merge_fold:
  "inf_is_encrypted (fold merge_one segs m) \<longleftrightarrow> inf_is_encrypted m \<or> (\<exists>s \<in> set segs. inf_is_encrypted (seg_metadata s))"
  "inf_section_count (fold merge_one segs m) =
     inf_section_count m + sum_list (map (\<lambda>s. inf_section_count (seg_metadata s)) segs)"
  "inf_sections (fold merge_one segs m) =
     inf_sections m @ concat (map (\<lambda>s. inf_sections (seg_metadata s)) segs)"
  "inf_sessions (fold merge_one segs m) =
     inf_sessions m @ concat (map (\<lambda>s. inf_sessions (seg_metadata s)) segs)"
  "inf_errors (fold merge_one segs m) = inf_errors m @ concat (map (\<lambda>s. inf_errors (seg_metadata s)) segs)"
  "inf_tables_invalid (fold merge_one segs m) =
     inf_tables_invalid m + sum_list (map (\<lambda>s. tables_invalid (seg_stats s)) segs)"
  "inf_tables_recovered (fold merge_one segs m) =
     inf_tables_recovered m + sum_list (map (\<lambda>s. tables_recovered (seg_stats s)) segs)"
  "inf_media (fold merge_one segs m) = first_some (inf_media m # map (\<lambda>s. inf_media (seg_metadata s)) segs)"
  "stored_md5 (fold merge_one segs m) = first_some (stored_md5 m # map (\<lambda>s. stored_md5 (seg_metadata s)) segs)"
  "stored_sha1 (fold merge_one segs m) = first_some (stored_sha1 m # map (\<lambda>s. stored_sha1 (seg_metadata s)) segs)"
  by (induction segs arbitrary: m)
     (simp_all add: first_some_Cons stored_md5_def stored_sha1_def split: option.split)

lemma merged_fields:
  assumes "segs \<noteq> []"
  shows "let m = merge_segment_metadata segs chunks; metas = map seg_metadata segs in
    inf_section_count m = sum_list (map inf_section_count metas) \<and>
    inf_sections m = concat (map inf_sections metas) \<and>
    inf_sessions m = concat (map inf_sessions metas) \<and>
    inf_errors m = concat (map inf_errors metas) \<and>
    inf_tables_invalid m = sum_list (map (\<lambda>s. tables_invalid (seg_stats s)) segs) \<and>
    inf_tables_recovered m = sum_list (map (\<lambda>s. tables_recovered (seg_stats s)) segs) \<and>
    inf_media m = first_some (map inf_media metas) \<and>
    stored_md5 m = first_some (map stored_md5 metas) \<and>
    stored_sha1 m = first_some (map stored_sha1 metas) \<and>
    inf_is_encrypted m = list_ex inf_is_encrypted metas \<and>
    inf_observed_chunks m = of_nat (length chunks)"
proof -
  obtain s ss where segs: "segs = s # ss" using assms by (cases segs) auto
  let ?start = "(seg_metadata s)\<lparr>inf_tables_recovered := tables_recovered (seg_stats s),
    inf_tables_invalid := tables_invalid (seg_stats s)\<rparr>"
  have digests: "stored_md5 (x\<lparr>inf_observed_chunks := n\<rparr>) = stored_md5 x"
    "stored_sha1 (x\<lparr>inf_observed_chunks := n\<rparr>) = stored_sha1 x"
    "stored_md5 ?start = stored_md5 (seg_metadata s)" "stored_sha1 ?start = stored_sha1 (seg_metadata s)" for x n
    by (simp_all add: stored_md5_def stored_sha1_def)
  show ?thesis
    by (simp add: merge_segment_metadata_def segs merge_fold digests comp_def list_ex_iff Let_def)
qed

text \<open>
  C32. The metadata of a set is the sum of its segments in order: section lists, sessions
  and acquisition errors are concatenated, the counts of sections and of recovered and
  invalid tables are added up, the geometry and the stored digests are those of the first
  segment that carries them, the set counts as encrypted as soon as one segment does, and
  the observed chunk count is the length of the merged chunk table.
\<close>

theorem merge_segment_metadata_sums:
  assumes "segs \<noteq> []"
  shows "let m = merge_segment_metadata segs chunks; metas = map seg_metadata segs in
    inf_section_count m = sum_list (map inf_section_count metas) \<and>
    inf_sections m = concat (map inf_sections metas) \<and>
    inf_sessions m = concat (map inf_sessions metas) \<and>
    inf_errors m = concat (map inf_errors metas) \<and>
    inf_tables_invalid m = sum_list (map (\<lambda>s. tables_invalid (seg_stats s)) segs) \<and>
    inf_tables_recovered m = sum_list (map (\<lambda>s. tables_recovered (seg_stats s)) segs) \<and>
    inf_media m = first_some (map inf_media metas) \<and>
    stored_md5 m = first_some (map stored_md5 metas) \<and>
    stored_sha1 m = first_some (map stored_sha1 metas) \<and>
    inf_is_encrypted m = list_ex inf_is_encrypted metas \<and>
    inf_observed_chunks m = of_nat (length chunks)"
  using assms by (rule merged_fields)

section \<open>Geometry\<close>

lemma int_div_less_iff:
  fixes a b c :: int
  assumes "0 < b"
  shows "a div b < c \<longleftrightarrow> a < c * b"
proof -
  have "c \<le> a div b" if "c * b \<le> a"
    using zdiv_mono1 [OF that assms] assms by simp
  moreover have "c * b \<le> a" if "c \<le> a div b"
  proof -
    have "c * b \<le> a div b * b" using that assms by simp
    also have "\<dots> \<le> a" using assms by (simp add: minus_mod_eq_div_mult [symmetric])
    finally show ?thesis .
  qed
  ultimately show ?thesis by linarith
qed

lemma uint_max_int64: "uint (uint64_of max_int64) = 9223372036854775807"
  by (simp add: uint64_of_def max_int64_def)

lemma int64_of_product:
  fixes a b :: u64
  assumes "uint a * uint b \<le> 9223372036854775807"
  shows "int64_of (a * b) = uint a * uint b"
proof -
  have "uint (a * b) = uint a * uint b"
    using assms by (simp add: uint_word_ariths)
  then show ?thesis using assms by (simp add: int64_of_small)
qed

lemma compute_geometry_cases:
  "compute_geometry (Some m) =
     (let bps = uint (mi_bytes_per_sector m); spc = uint (mi_sectors_per_chunk m);
          n = uint (mi_number_of_sectors m) in
      if bps = 0 \<or> spc = 0 then Inl (wraps ''reader: invalid geometry'' ErrCorruptImage)
      else if 9223372036854775807 < spc * bps
      then Inl (wraps ''reader: chunk size overflows'' ErrCorruptImage)
      else if 9223372036854775807 < n * bps
      then Inl (wraps ''reader: device size overflows'' ErrCorruptImage)
      else Inr (spc * bps, n * bps))"
proof -
  let ?bps = "ucast (mi_bytes_per_sector m) :: u64" and ?spc = "ucast (mi_sectors_per_chunk m) :: u64"
  have u: "uint ?bps = uint (mi_bytes_per_sector m)" "uint ?spc = uint (mi_sectors_per_chunk m)"
    by (simp_all add: unsigned_ucast_eq take_bit_int_eq_self uint_u32_less [THEN less_trans])
  have zero: "mi_bytes_per_sector m = 0 \<longleftrightarrow> uint (mi_bytes_per_sector m) = 0"
    "mi_sectors_per_chunk m = 0 \<longleftrightarrow> uint (mi_sectors_per_chunk m) = 0"
    by (simp_all add: unsigned_eq_0_iff)
  have less: "uint64_of max_int64 div ?bps < w \<longleftrightarrow> 9223372036854775807 < uint w * uint (mi_bytes_per_sector m)"
    if "uint (mi_bytes_per_sector m) \<noteq> 0" for w :: u64
    using that int_div_less_iff [of "uint (mi_bytes_per_sector m)"]
    by (simp add: word_less_def uint_div uint_max_int64 u less_le)
  show ?thesis
    using int64_of_product [of ?spc ?bps] int64_of_product [of "mi_number_of_sectors m" ?bps]
    by (simp add: compute_geometry_def zero less u not_less Let_def)
qed

text \<open>
  C12. The device geometry is exact: chunk size and device size are the products of the
  stored numbers as integers, computed without overflow, and the image is refused as
  corrupt exactly when a factor is zero or a product does not fit an \<open>int64\<close>.
\<close>

theorem compute_geometry_exact:
  "compute_geometry (Some m) =
     (let bps = uint (mi_bytes_per_sector m); spc = uint (mi_sectors_per_chunk m);
          n = uint (mi_number_of_sectors m) in
      if bps = 0 \<or> spc = 0 then Inl (wraps ''reader: invalid geometry'' ErrCorruptImage)
      else if 9223372036854775807 < spc * bps
      then Inl (wraps ''reader: chunk size overflows'' ErrCorruptImage)
      else if 9223372036854775807 < n * bps
      then Inl (wraps ''reader: device size overflows'' ErrCorruptImage)
      else Inr (spc * bps, n * bps))"
  by (rule compute_geometry_cases)

lemma compute_geometry_bounds:
  assumes "compute_geometry media = Inr (cs, ls)"
  shows "0 \<le> cs" "0 \<le> ls" "cs \<le> 9223372036854775807" "ls \<le> 9223372036854775807"
    "media \<noteq> None \<Longrightarrow> 0 < cs"
  using assms
  by (cases media; auto simp: compute_geometry_cases Let_def less_le split: if_splits;
      simp add: compute_geometry_def)+

section \<open>What an open reader guarantees\<close>

lemma apply_policy_media: "apply_policy opts m = Inr m' \<Longrightarrow> inf_media m' = inf_media m"
  by (auto simp: apply_policy_def split: checksum_policy.splits if_splits)

lemma apply_policy_encrypted: "apply_policy opts m = Inr m' \<Longrightarrow> inf_is_encrypted m' = inf_is_encrypted m"
  by (auto simp: apply_policy_def split: checksum_policy.splits if_splits)

lemma reader_of_Inr:
  assumes "reader_of segs opts = Inr r"
  shows "ir_chunk_table r = concat (map seg_chunk_table segs)"
    and "\<not> inf_is_encrypted (merge_segment_metadata segs (concat (map seg_chunk_table segs)))"
    and "apply_policy opts (merge_segment_metadata segs (concat (map seg_chunk_table segs))) = Inr (ir_metadata r)"
    and "compute_geometry (inf_media (ir_metadata r)) = Inr (ir_chunk_size r, ir_logical_size r)"
    and "ir_cache r = new_chunk_cache (effective_cache_chunks (opt_chunk_cache_chunks opts) (ir_chunk_size r))"
    and "ir_source r = seg_source (hd segs)"
  using assms by (auto simp: reader_of_def Let_def split: if_splits sum.splits prod.splits)

lemma merged_encrypted:
  "segs \<noteq> [] \<Longrightarrow> inf_is_encrypted (merge_segment_metadata segs chunks) \<longleftrightarrow>
     (\<exists>s \<in> set segs. inf_is_encrypted (seg_metadata s))"
  by (cases segs) (simp_all add: merge_segment_metadata_def merge_fold Let_def)

lemma merged_invalid:
  "segs \<noteq> [] \<Longrightarrow> inf_tables_invalid (merge_segment_metadata segs chunks) =
     sum_list (map (\<lambda>s. tables_invalid (seg_stats s)) segs)"
  by (cases segs) (simp_all add: merge_segment_metadata_def merge_fold Let_def)

text \<open>What \<open>parseSegment\<close> computes from the four things it reads.\<close>

lemma parse_segment_Inr:
  assumes "parse_segment lib src = Inr seg"
  obtains t header sections where "seg = segment_of lib src t header sections"
    "parse_file_header src t = Inr header"
    "parse_section_descriptors src (hi_major_version header) = Inr sections"
  using assms by (auto simp: parse_segment_def split: sum.splits)

lemma segment_of_simps [simp]:
  "seg_sections (segment_of lib src t header sections) = sections"
  "seg_source (segment_of lib src t header sections) = src"
  "seg_header (segment_of lib src t header sections) = header"
  "seg_file_type (segment_of lib src t header sections) = t"
  "seg_metadata (segment_of lib src t header sections) =
     populate_metadata lib src header sections (build_metadata header sections)"
  "seg_chunk_table (segment_of lib src t header sections) = fst (build_chunk_table src header sections)"
  "seg_stats (segment_of lib src t header sections) = snd (build_chunk_table src header sections)"
  by (simp_all add: segment_of_def split: prod.split)

lemma segment_encrypted:
  assumes "parse_segment lib src = Inr seg"
  shows "inf_is_encrypted (seg_metadata seg) = list_ex encrypted_section (seg_sections seg)"
proof -
  obtain t header sections where seg: "seg = segment_of lib src t header sections"
    by (rule parse_segment_Inr [OF assms])
  show ?thesis
    using populate_metadata_frame [of lib src header sections "build_metadata header sections"]
    by (simp add: seg same_summary_def build_metadata_fields)
qed

lemma open_segments_all:
  assumes "open_segments_with_options lib sources opts = Inr r"
  obtains segs where "segs \<noteq> []" "validate_segment_set segs opts = None" "reader_of segs opts = Inr r"
    "\<forall>src \<in> set sources. \<exists>seg \<in> set segs. parse_segment lib src = Inr seg"
    "\<forall>seg \<in> set segs. \<exists>src \<in> set sources. parse_segment lib src = Inr seg"
proof -
  obtain parsed where p: "sources \<noteq> []" "parse_segments lib 0 sources = Inr parsed"
      "validate_segment_set (sort_segments parsed) opts = None"
      "reader_of (sort_segments parsed) opts = Inr r"
    using assms unfolding open_Inr by blast
  have all: "list_all2 (\<lambda>src seg. parse_segment lib src = Inr seg) sources parsed"
    using p(2) by (simp add: parse_segments_Inr)
  have "\<forall>src \<in> set sources. \<exists>seg \<in> set (sort_segments parsed). parse_segment lib src = Inr seg"
    using all by (fastforce simp: list_all2_conv_all_nth in_set_conv_nth)
  moreover have "\<forall>seg \<in> set (sort_segments parsed). \<exists>src \<in> set sources. parse_segment lib src = Inr seg"
    using all by (fastforce simp: list_all2_conv_all_nth in_set_conv_nth)
  moreover have "sort_segments parsed \<noteq> []" using p(1) all by auto
  ultimately show ?thesis using that p by blast
qed

text \<open>
  C10. A set that contains encrypted data is never opened: if opening succeeds, no section
  of any of the segments is a key section or is flagged encrypted.
\<close>

theorem open_never_encrypted:
  assumes "open_segments_with_options lib sources opts = Inr r" "src \<in> set sources"
  shows "\<exists>seg. parse_segment lib src = Inr seg \<and> \<not> list_ex encrypted_section (seg_sections seg)"
proof -
  obtain segs where segs: "segs \<noteq> []" "validate_segment_set segs opts = None" "reader_of segs opts = Inr r"
    "\<forall>src \<in> set sources. \<exists>seg \<in> set segs. parse_segment lib src = Inr seg"
    "\<forall>seg \<in> set segs. \<exists>src \<in> set sources. parse_segment lib src = Inr seg"
    by (rule open_segments_all [OF assms(1)])
  obtain seg where seg: "seg \<in> set segs" "parse_segment lib src = Inr seg"
    using segs(4) assms(2) by blast
  then have "\<not> inf_is_encrypted (seg_metadata seg)"
    using reader_of_Inr(2) [OF segs(3)] merged_encrypted [OF segs(1)] by blast
  with seg segment_encrypted show ?thesis by blast
qed

section \<open>The strict policy\<close>

text \<open>
  The groups of chunk tables in a segment file, whether the checksums stored with them
  vouch for every v1 group, and the chunks of the segment when only a copy its checksums
  vouch for is believed.
\<close>

definition segment_groups :: "golib \<Rightarrow> io_source \<Rightarrow> (section_info \<times> section_info option) list" where
  "segment_groups lib src =
     (case parse_segment lib src of
        Inl _ \<Rightarrow> []
      | Inr seg \<Rightarrow> table_groups (filter (\<lambda>s. si_type s = section_code SectorTable) (seg_sections seg)))"

definition tables_checksummed :: "golib \<Rightarrow> io_source \<Rightarrow> bool" where
  "tables_checksummed lib src \<longleftrightarrow> list_all (group_checksummed src) (segment_groups lib src)"

definition believed_table :: "golib \<Rightarrow> io_source \<Rightarrow> chunk_desc list" where
  "believed_table lib src =
     (case parse_segment lib src of
        Inl _ \<Rightarrow> []
      | Inr seg \<Rightarrow> concat (map (believed_chunks src (seg_header seg)) (segment_groups lib src)))"

lemma parsed_tables:
  assumes "parse_segment lib src = Inr seg"
  shows "seg_source seg = src" "tables_invalid (seg_stats seg) = 0 \<longleftrightarrow> tables_checksummed lib src"
    and "tables_checksummed lib src \<Longrightarrow> seg_chunk_table seg = believed_table lib src"
proof -
  obtain t header sections where seg: "seg = segment_of lib src t header sections"
    by (rule parse_segment_Inr [OF assms])
  let ?gs = "table_groups (filter (\<lambda>s. si_type s = section_code SectorTable) sections)"
  have gs: "segment_groups lib src = ?gs"
    using assms by (simp add: segment_groups_def seg)
  have invalid: "tables_invalid (seg_stats seg) = outcome_count TableUnverified (map (group_result src header) ?gs)"
    and chunks: "seg_chunk_table seg = concat (map fst (map (group_result src header) ?gs))"
    by (simp_all add: seg build_chunk_table_def consume_tables_groups Let_def)
  show "seg_source seg = src"
    by (simp add: seg)
  show "tables_invalid (seg_stats seg) = 0 \<longleftrightarrow> tables_checksummed lib src"
    unfolding invalid tables_checksummed_def gs
    by (simp add: outcome_count_def filter_empty_conv list_all_iff group_unverified_iff)
  assume "tables_checksummed lib src"
  then have same: "map (\<lambda>g. fst (group_result src header g)) ?gs = map (believed_chunks src header) ?gs"
    by (simp add: tables_checksummed_def gs list_all_iff group_believed)
  then show "seg_chunk_table seg = believed_table lib src"
    using assms unfolding chunks map_map comp_def same by (simp add: believed_table_def gs seg)
qed

text \<open>A segment of v2 tables only passes whatever is in them: no policy protects EWF2 images.\<close>

lemma v2_tables_unchecked:
  "list_all (\<lambda>g. si_descriptor_size (fst g) \<noteq> 76) (segment_groups lib src) \<Longrightarrow> tables_checksummed lib src"
  by (auto simp: tables_checksummed_def group_checksummed_def list_all_iff)

text \<open>The policy enters after the segments are parsed, ordered and validated.\<close>

abbreviation under_policy :: "checksum_policy \<Rightarrow> options \<Rightarrow> options" where
  "under_policy policy opts \<equiv> opts\<lparr>opt_checksum_policy := policy\<rparr>"

lemma validate_under_policy: "validate_segment_set segs (under_policy policy opts) = validate_segment_set segs opts"
proof -
  have "check_segment first (under_policy policy opts) = check_segment first opts" for first
    by (simp add: check_segment_def fun_eq_iff)
  then have "check_segments first (under_policy policy opts) i seen ss = check_segments first opts i seen ss" for first i seen ss
    by (induction ss arbitrary: i seen) (simp_all split: option.split)
  then show ?thesis
    by (simp add: validate_segment_set_def)
qed

lemma reader_strict:
  assumes "segs \<noteq> []"
  shows "case reader_of segs (under_policy ChecksumWarn opts) of
      Inl e \<Rightarrow> \<exists>e'. reader_of segs (under_policy ChecksumStrict opts) = Inl e'
    | Inr r \<Rightarrow> reader_of segs (under_policy ChecksumStrict opts) =
        (if \<forall>seg \<in> set segs. tables_invalid (seg_stats seg) = 0 then Inr r
         else Inl (wraps ''reader: chunk tables failed checksum validation'' ErrChecksumMismatch))"
proof -
  let ?m = "merge_segment_metadata segs (concat (map seg_chunk_table segs))"
  have "inf_tables_invalid ?m = 0 \<longleftrightarrow> (\<forall>seg \<in> set segs. tables_invalid (seg_stats seg) = 0)"
    using merged_invalid [OF assms] by (simp add: sum_list_eq_0_iff)
  then show ?thesis
    by (auto simp: reader_of_def apply_policy_def Let_def split: sum.split prod.split)
qed

text \<open>
  C11. The strict checksum policy changes exactly one thing. Where the default policy does not
  open a set, the strict one does not either; where it does, the strict policy returns the
  very same reader when, in every segment, each group of v1 tables has a copy that its
  stored checksums vouch for, and otherwise fails with \<open>ErrChecksumMismatch\<close>. The chunk
  table of a reader it returns then consists, segment by segment in some order of the
  sources, of the chunks of the first copy of each group that passes; v2 tables are
  believed as they are, because the code compares none of their checksums.
\<close>

theorem strict_open_exact:
  "case open_segments_with_options lib sources (under_policy ChecksumWarn opts) of
     Inl e \<Rightarrow> \<exists>e'. open_segments_with_options lib sources (under_policy ChecksumStrict opts) = Inl e'
   | Inr r \<Rightarrow>
       if list_all (tables_checksummed lib) sources
       then open_segments_with_options lib sources (under_policy ChecksumStrict opts) = Inr r
         \<and> (\<exists>ordered. mset ordered = mset sources \<and> ir_chunk_table r = concat (map (believed_table lib) ordered))
       else open_segments_with_options lib sources (under_policy ChecksumStrict opts) =
         Inl (wraps ''reader: chunk tables failed checksum validation'' ErrChecksumMismatch)"
proof (cases "sources = []")
  case False
  show ?thesis
  proof (cases "parse_segments lib 0 sources")
    case (Inr parsed)
    define segs where "segs = sort_segments parsed"
    have all: "list_all2 (\<lambda>src seg. parse_segment lib src = Inr seg) sources parsed"
      using Inr by (simp add: parse_segments_Inr)
    then have sources: "sources = map seg_source parsed"
      by (auto simp: list_all2_conv_all_nth parsed_tables(1) intro!: nth_equalityI)
    have parse: "parse_segment lib (seg_source seg) = Inr seg" if "seg \<in> set parsed" for seg
      using all that unfolding sources by (auto simp: list_all2_conv_all_nth in_set_conv_nth)
    have segs: "set segs = set parsed" "mset (map seg_source segs) = mset sources" "segs \<noteq> []"
      using False by (simp_all add: segs_def sort_segments_def sources flip: set_empty)
    have good: "(\<forall>seg \<in> set segs. tables_invalid (seg_stats seg) = 0) \<longleftrightarrow> list_all (tables_checksummed lib) sources"
      using parsed_tables(2) [OF parse] by (simp add: segs(1) sources list_all_iff)
    have believed: "concat (map seg_chunk_table segs) = concat (map (believed_table lib) (map seg_source segs))"
      if "list_all (tables_checksummed lib) sources"
      unfolding map_map
      by (intro arg_cong [where f = concat] map_cong refl)
         (use that parsed_tables(3) [OF parse] in \<open>simp add: segs(1) sources list_all_iff\<close>)
    have run: "open_segments_with_options lib sources (under_policy policy opts) =
        (case validate_segment_set segs opts of Some e \<Rightarrow> Inl e | None \<Rightarrow> reader_of segs (under_policy policy opts))" for policy
      using False Inr unfolding segs_def by (simp add: open_segments_with_options_def validate_under_policy Let_def)
    show ?thesis
    proof (cases "validate_segment_set segs opts")
      case None
      show ?thesis
      proof (cases "reader_of segs (under_policy ChecksumWarn opts)")
        case (Inr r)
        have "\<exists>ordered. mset ordered = mset sources \<and> ir_chunk_table r = concat (map (believed_table lib) ordered)"
          if "list_all (tables_checksummed lib) sources"
          using reader_of_Inr(1) [OF Inr] believed [OF that] segs(2)
          by (intro exI [of _ "map seg_source segs"] conjI) (simp_all only:)
        then show ?thesis
          using reader_strict [OF segs(3), of opts] None Inr by (simp add: run good)
      qed (use reader_strict [OF segs(3), of opts] None in \<open>simp add: run\<close>)
    qed (simp add: run)
  qed (simp add: open_segments_with_options_def)
qed (simp add: open_segments_with_options_def)

section \<open>A small image\<close>

text \<open>Two chunks of four bytes (one sector of four bytes each), in one segment and in two.\<close>

definition sample_volume :: bytes where
  "sample_volume = replicate 4 0 @ put32 2 @ put32 1 @ put32 4 @ put32 2 @ replicate 74 0"

definition sample_chunks :: bytes where
  "sample_chunks = [0x61, 0x62, 0x63, 0x64] @ put32 (adler32 [0x61, 0x62, 0x63, 0x64]) @
     [0x65, 0x66, 0x67, 0x68] @ put32 (adler32 [0x65, 0x66, 0x67, 0x68])"

definition sample_segment :: "string \<Rightarrow> bytes" where
  "sample_segment terminator =
     encode_header_v1 FileEWF1 1 @
     encode_descriptor_v1 ''volume'' 183 170 @ sample_volume @
     encode_descriptor_v1 ''sectors'' 275 92 @ sample_chunks @
     encode_descriptor_v1 ''table'' 387 112 @ encode_table_v1 0 [259, 267] @
     encode_descriptor_v1 terminator 387 76"

definition sample_image :: io_source where
  "sample_image = bytes_source (sample_segment ''done'')"

definition sample_first :: io_source where
  "sample_first = bytes_source (sample_segment ''next'')"

definition sample_last :: io_source where
  "sample_last = bytes_source (encode_header_v1 FileEWF1 2 @ encode_descriptor_v1 ''done'' 13 76)"

definition opens :: "gerr + image_reader \<Rightarrow> bool" where
  "opens r = (case r of Inl _ \<Rightarrow> False | Inr _ \<Rightarrow> True)"

lemma sample_opens:
  "opens (open_segments_with_options plain_lib [sample_image]
     (default_options\<lparr>opt_checksum_policy := ChecksumStrict\<rparr>))"
  by code_simp

lemma sample_pair_opens: "opens (open_segments_with_options plain_lib [sample_first, sample_last] default_options)"
  by code_simp

lemma opens_Inr: "opens x \<Longrightarrow> \<exists>r. x = Inr r"
  by (cases x) (simp_all add: opens_def)

theorem open_any_order_witness:
  "open_segments_with_options plain_lib [sample_last, sample_first] default_options =
   open_segments_with_options plain_lib [sample_first, sample_last] default_options"
proof -
  obtain r where r: "open_segments_with_options plain_lib [sample_first, sample_last] default_options = Inr r"
    using opens_Inr [OF sample_pair_opens] by blast
  show ?thesis using open_any_order [OF r, of "[sample_last, sample_first]"] r by simp
qed

theorem open_never_encrypted_witness:
  "\<exists>seg. parse_segment plain_lib sample_image = Inr seg \<and> \<not> list_ex encrypted_section (seg_sections seg)"
proof -
  obtain r where r: "open_segments_with_options plain_lib [sample_image]
      (default_options\<lparr>opt_checksum_policy := ChecksumStrict\<rparr>) = Inr r"
    using opens_Inr [OF sample_opens] by blast
  show ?thesis by (rule open_never_encrypted [OF r]) simp
qed

theorem strict_open_exact_witness:
  "\<exists>r. open_segments_with_options plain_lib [sample_image] default_options = Inr r
    \<and> open_segments_with_options plain_lib [sample_image] (under_policy ChecksumStrict default_options) = Inr r
    \<and> ir_chunk_table r = believed_table plain_lib sample_image"
proof -
  obtain r where r: "open_segments_with_options plain_lib [sample_image] (under_policy ChecksumStrict default_options) = Inr r"
    using opens_Inr [OF sample_opens] by blast
  have d: "under_policy ChecksumWarn default_options = default_options"
    by (simp add: default_options_def)
  show ?thesis
    using strict_open_exact [of plain_lib "[sample_image]" default_options] r
    by (auto simp: d split: sum.splits if_splits)
qed

definition sample_parsed :: parsed_segment where
  "sample_parsed = segment_of plain_lib sample_last FileEWF1 empty_header []"

theorem merge_segment_metadata_sums_witness:
  "inf_section_count (merge_segment_metadata [sample_parsed, sample_parsed] []) =
     sum_list (map inf_section_count (map seg_metadata [sample_parsed, sample_parsed]))"
  using merge_segment_metadata_sums [of "[sample_parsed, sample_parsed]" "[]"] by (simp add: Let_def)

end
