(* ===== verification/Image_Read.thy ===== *)
theory Image_Read
  imports Image_Open
begin

text \<open>
  Reading the decoded device (\<open>reader/open.go\<close>): pattern expansion, decoding of one
  chunk, the chunk cache in front of it, \<open>ReadAt\<close> and the accessors of \<open>ImageReader\<close>.
  A buffer the caller passes is a byte list, and \<open>ReadAt\<close> returns the buffer it leaves.
\<close>

section \<open>Pattern chunks\<close>

text \<open>
  The doubling loop: \<open>n\<close> bytes are filled, the next pass copies them behind themselves.
  The unit is not empty and the chunk size is positive, so \<open>n\<close> is never 0.
\<close>

function pattern_fill :: "bytes \<Rightarrow> nat \<Rightarrow> bytes" where
  "pattern_fill out n =
     (if 0 < n \<and> n < length out
      then pattern_fill (copy_at out n (take n out)) (n + min (length out - n) n)
      else out)"
  by pat_completeness auto
termination
  by (relation "measure (\<lambda>(out, n). length out - n)") auto

declare pattern_fill.simps [simp del]

definition expand_pattern :: "bytes \<Rightarrow> int \<Rightarrow> gerr + bytes" where
  "expand_pattern unit_bytes chunk_size =
     (if unit_bytes = [] then Inl (wraps ''reader: pattern chunk has no pattern unit'' ErrCorruptImage)
      else if chunk_size \<le> 0
      then Inl (wraps ''reader: pattern chunk with unknown chunk size'' ErrCorruptImage)
      else let out = replicate (nat chunk_size) 0;
               n = min (length out) (length unit_bytes) in
           Inr (pattern_fill (copy_at out 0 (take n unit_bytes)) n))"

section \<open>One chunk\<close>

definition chunk_trailer_size :: int where
  [go_defs]: "chunk_trailer_size = 4"

definition strip_trailer :: "chunk_desc \<Rightarrow> int \<Rightarrow> bytes \<Rightarrow> bytes go" where
  "strip_trailer desc chunk_size raw =
     (if cd_has_checksum desc \<and> chunk_trailer_size < int (length raw)
      then slice_go raw 0 (int (length raw) - chunk_trailer_size)
      else if cd_major_version desc = 1 \<and> chunk_size < int (length raw)
      then slice_go raw 0 (int (length raw) - chunk_trailer_size)
      else Returns raw)"

definition decode_stored :: "golib \<Rightarrow> chunk_desc \<Rightarrow> int \<Rightarrow> bytes \<Rightarrow> (gerr + bytes) go" where
  "decode_stored lib desc chunk_size raw =
     (if cd_pattern desc then Returns (expand_pattern raw chunk_size)
      else if cd_compressed desc
      then (let method = (if cd_major_version desc = 1 then compression_deflate
                          else cd_compression_method desc) in
            case decompress (lib_codecs lib) raw method of
              Inl e \<Rightarrow> Returns (Inl (Wrapped ''reader: unable to decompress chunk'' e))
            | Inr out \<Rightarrow> Returns (Inr out))
      else go_bind (strip_trailer desc chunk_size raw) (\<lambda>data. Returns (Inr data)))"

definition decode_desc :: "golib \<Rightarrow> io_source \<Rightarrow> int \<Rightarrow> chunk_desc \<Rightarrow> (gerr + bytes) go" where
  "decode_desc lib fallback chunk_size desc =
     (let src = (case cd_source desc of Some s \<Rightarrow> s | None \<Rightarrow> fallback);
          max_stored = i64 (chunk_size * 2 + 4096) in
      if cd_offset desc < 0
      then Returns (Inl (wraps ''reader: chunk has negative offset'' ErrCorruptImage))
      else if cd_size desc = 0
      then Returns (Inl (wraps ''reader: chunk has zero stored size'' ErrCorruptImage))
      else if max_stored < uint (cd_size desc)
      then Returns (Inl (wraps ''reader: chunk stored size exceeds maximum'' ErrCorruptImage))
      else case read_slice src (cd_offset desc) (uint (cd_size desc)) of
             Inl e \<Rightarrow> Returns (Inl (Wrapped ''reader: unable to read chunk'' e))
           | Inr raw \<Rightarrow> decode_stored lib desc chunk_size raw)"

definition decode_chunk :: "golib \<Rightarrow> image_reader \<Rightarrow> int \<Rightarrow> (gerr + bytes) go" where
  "decode_chunk lib r k =
     (if 0 \<le> k \<and> k < int (length (ir_chunk_table r))
      then decode_desc lib (ir_source r) (ir_chunk_size r) (ir_chunk_table r ! nat k)
      else Panics)"

text \<open>\<open>chunkData\<close>: the cache in front of \<open>decodeChunk\<close>.\<close>

definition chunk_data ::
  "golib \<Rightarrow> image_reader \<Rightarrow> chunk_cache option \<Rightarrow> int \<Rightarrow> (gerr + bytes) go \<times> chunk_cache option" where
  "chunk_data lib r = fetch_through cache_get cache_put (decode_chunk lib r)"

section \<open>ReadAt\<close>

text \<open>
  The copying loop. The result is the buffer, the number of bytes read and the error, and
  the cache (of any kind) as the loop leaves it.
\<close>

function read_loop ::
  "('c \<Rightarrow> int \<Rightarrow> (gerr + bytes) go \<times> 'c) \<Rightarrow> int \<Rightarrow> nat \<Rightarrow> int \<Rightarrow> int \<Rightarrow> bytes \<Rightarrow> int \<Rightarrow> 'c
     \<Rightarrow> (bytes \<times> int \<times> gerr option) go \<times> 'c" where
  "read_loop fetch chunk_size n off want p got c =
     (if want \<le> got then (Returns (p, got, None), c)
      else let current = i64 (off + got);
               chunk_num = current div chunk_size;
               chunk_off = current mod chunk_size in
           if int n \<le> chunk_num then (Returns (p, got, Some EOF), c)
           else case fetch c chunk_num of
                  (Panics, c') \<Rightarrow> (Panics, c')
                | (Returns (Inl e), c') \<Rightarrow> (Returns (p, got, Some e), c')
                | (Returns (Inr data), c') \<Rightarrow>
                    (let available = min (int (length data) - chunk_off) (chunk_size - chunk_off) in
                     if available \<le> 0 then (Returns (p, got, Some EOF), c')
                     else let to_copy = min (want - got) available in
                          read_loop fetch chunk_size n off want
                            (copy_at p (nat got) (subslice data (nat chunk_off) (nat (chunk_off + to_copy))))
                            (got + to_copy) c'))"
  by pat_completeness auto
termination
  by (relation "measure (\<lambda>(fetch, chunk_size, n, off, want, p, got, c). nat (want - got))") auto

declare read_loop.simps [simp del]

definition finish_read :: "bytes \<times> int \<times> gerr option \<Rightarrow> bytes \<times> int \<times> gerr option" where
  "finish_read res =
     (case res of
        (p, got, Some e) \<Rightarrow> (p, got, Some e)
      | (p, got, None) \<Rightarrow> (p, got, if got < int (length p) then Some EOF else None))"

definition read_at ::
  "golib \<Rightarrow> image_reader \<Rightarrow> bytes \<Rightarrow> int \<Rightarrow> (bytes \<times> int \<times> gerr option) go \<times> image_reader" where
  "read_at lib r p off =
     (if p = [] then (Returns (p, 0, None), r)
      else if off < 0 then (Returns (p, 0, Some (wraps ''reader: offset'' ErrInvalidOffset)), r)
      else if ir_chunk_size r \<le> 0 \<or> ir_logical_size r \<le> 0
      then (Returns (p, 0, Some (wraps ''reader: no usable media geometry'' ErrCorruptImage)), r)
      else if ir_chunk_table r = []
      then (Returns (p, 0, Some (wraps ''reader: no chunk table available'' ErrCorruptImage)), r)
      else if ir_logical_size r \<le> off then (Returns (p, 0, Some EOF), r)
      else let remaining = ir_logical_size r - off;
               want = (if remaining < int (length p) then remaining else int (length p));
               (res, cache) = read_loop (chunk_data lib r) (ir_chunk_size r)
                  (length (ir_chunk_table r)) off want p 0 (ir_cache r) in
           (go_bind res (\<lambda>x. Returns (finish_read x)), r\<lparr>ir_cache := cache\<rparr>))"

section \<open>Accessors\<close>

definition reader_size :: "image_reader \<Rightarrow> int" where
  "reader_size r = ir_logical_size r"

definition sector_size :: "image_reader \<Rightarrow> int" where
  "sector_size r =
     (case inf_media (ir_metadata r) of None \<Rightarrow> 0 | Some m \<Rightarrow> uint (mi_bytes_per_sector m))"

definition reader_md5 :: "image_reader \<Rightarrow> bytes option" where
  "reader_md5 r = (if \<not> inf_has_md5 (ir_metadata r) then None else Some (inf_md5 (ir_metadata r)))"

definition reader_sha1 :: "image_reader \<Rightarrow> bytes option" where
  "reader_sha1 r = (if \<not> inf_has_sha1 (ir_metadata r) then None else Some (inf_sha1 (ir_metadata r)))"

definition reader_segment_file_type :: "image_reader \<Rightarrow> segment_file_type" where
  "reader_segment_file_type r = ir_segment_file_type r"

definition reader_header :: "image_reader \<Rightarrow> header_info" where
  "reader_header r = ir_header r"

text \<open>A new list of zero values, copied over; the elements of a \<open>SectionInfo\<close> are values.\<close>

definition zero_section :: section_info where
  "zero_section = \<lparr>si_offset = 0, si_descriptor_size = 0, si_type = 0, si_type_string = [], si_data_flags = 0,
     si_size = 0, si_data_offset = 0, si_data_size = 0, si_padding_size = 0\<rparr>"

definition reader_sections :: "image_reader \<Rightarrow> section_info list" where
  "reader_sections r = copy_at (replicate (length (ir_sections r)) zero_section) 0 (ir_sections r)"

definition reader_close :: "image_reader \<Rightarrow> gerr option" where
  "reader_close r = None"

lemma reader_sections_all: "reader_sections r = ir_sections r"
  by (simp add: reader_sections_def copy_at_def)

section \<open>Pattern expansion\<close>

lemma nth_copy_at:
  assumes "pos \<le> length p" "i < length p"
  shows "copy_at p pos src ! i = (if pos \<le> i \<and> i < pos + length src then src ! (i - pos) else p ! i)"
  using assms by (auto simp: copy_at_def nth_append min_def)

lemma pattern_fill_periodic:
  assumes "0 < n" "n \<le> length out" "u \<noteq> []" "length u dvd n \<or> n = length out"
    "\<forall>i < n. out ! i = u ! (i mod length u)"
  shows "pattern_fill out n = map (\<lambda>i. u ! (i mod length u)) [0..<length out]"
  using assms
proof (induction out n rule: pattern_fill.induct)
  case (1 out n)
  show ?case
  proof (cases "n < length out")
    case False
    then have "pattern_fill out n = out" by (simp add: pattern_fill.simps)
    moreover have "n = length out" using False "1.prems"(2) by simp
    ultimately show ?thesis using "1.prems"(5) by (auto intro: nth_equalityI)
  next
    case True
    let ?out = "copy_at out n (take n out)" and ?n = "n + min (length out - n) n"
    have dvd: "length u dvd n" using "1.prems"(4) True by auto
    have nth: "?out ! i = u ! (i mod length u)" if "i < ?n" for i
    proof (cases "i < n")
      case True
      then show ?thesis using "1.prems"(2,5) that by (simp add: nth_copy_at)
    next
      case False
      have "i < n + n" "i < length out" using that True by auto
      then have "?out ! i = out ! (i - n)"
        using False "1.prems"(2) by (simp add: nth_copy_at)
      also have "\<dots> = u ! ((i - n) mod length u)"
        using False that "1.prems"(5) by simp
      also have "(i - n) mod length u = i mod length u"
        using dvd False by (metis le_add_diff_inverse mod_mult_self4 dvdE not_less)
      finally show ?thesis .
    qed
    have "pattern_fill ?out ?n = map (\<lambda>i. u ! (i mod length u)) [0..<length ?out]"
    proof (rule "1.IH")
      show "0 < n \<and> n < length out" using True "1.prems"(1) by simp
      show "0 < ?n" using "1.prems"(1) by simp
      show "?n \<le> length ?out" using True by simp
      show "u \<noteq> []" by (rule "1.prems"(3))
      show "length u dvd ?n \<or> ?n = length ?out" using dvd True by (auto simp: min_def)
      show "\<forall>i < ?n. ?out ! i = u ! (i mod length u)" using nth by blast
    qed
    then show ?thesis using True "1.prems"(1) by (subst pattern_fill.simps) simp
  qed
qed

text \<open>
  C31. A pattern chunk decodes to the stored unit repeated over the whole chunk, cut off at
  its end: the doubling copy loop terminates and equals plain repetition byte for byte.
\<close>

theorem expand_pattern_repeats:
  "expand_pattern unit_bytes chunk_size =
     (if unit_bytes = [] then Inl (wraps ''reader: pattern chunk has no pattern unit'' ErrCorruptImage)
      else if chunk_size \<le> 0
      then Inl (wraps ''reader: pattern chunk with unknown chunk size'' ErrCorruptImage)
      else Inr (map (\<lambda>i. unit_bytes ! (i mod length unit_bytes)) [0..<nat chunk_size]))"
proof (cases "unit_bytes = [] \<or> chunk_size \<le> 0")
  case True
  then show ?thesis by (auto simp: expand_pattern_def)
next
  case False
  let ?L = "nat chunk_size" and ?m = "length unit_bytes"
  let ?out = "replicate ?L 0 :: bytes" and ?n = "min (nat chunk_size) (length unit_bytes)"
  let ?start = "copy_at ?out 0 (take ?n unit_bytes)"
  have start: "?start ! i = unit_bytes ! (i mod ?m)" if "i < ?n" for i
    using that by (simp add: nth_copy_at)
  have "pattern_fill ?start ?n = map (\<lambda>i. unit_bytes ! (i mod ?m)) [0..<length ?start]"
    by (rule pattern_fill_periodic) (use False start in \<open>auto simp: min_def\<close>)
  then show ?thesis using False by (simp add: expand_pattern_def Let_def)
qed

section \<open>When decoding panics\<close>

lemma slice_go_panics: "slice_go xs 0 b = Panics \<longleftrightarrow> b < 0 \<or> int (length xs) < b"
  by (auto simp: slice_go_def)

lemma decode_stored_panics:
  "decode_stored lib desc chunk_size raw = Panics \<longleftrightarrow>
     \<not> cd_pattern desc \<and> \<not> cd_compressed desc \<and> cd_major_version desc = 1 \<and>
     chunk_size < int (length raw) \<and> length raw < 4"
  by (auto simp: decode_stored_def strip_trailer_def go_defs slice_go_def Let_def
      split: sum.split if_splits)

lemma decode_desc_no_panic:
  assumes "3 \<le> chunk_size"
  shows "decode_desc lib fallback chunk_size desc \<noteq> Panics"
  using assms by (auto simp: decode_desc_def Let_def decode_stored_panics split: sum.split)

text \<open>
  Decoding a chunk of the table never panics when the chunk size is at least three
  bytes, and therefore neither does reading the device.
\<close>

theorem decode_chunk_no_panic:
  assumes "3 \<le> ir_chunk_size r" "0 \<le> k" "k < int (length (ir_chunk_table r))"
  shows "decode_chunk lib r k \<noteq> Panics"
  using assms by (simp add: decode_chunk_def decode_desc_no_panic)

text \<open>With one-byte chunks, a stored size of two bytes makes the trailer slice go out of range.\<close>

lemma decode_tiny_chunk_panics:
  "decode_desc lib (bytes_source [1, 2]) 1
     \<lparr>cd_source = None, cd_offset = 0, cd_size = 2, cd_compressed = False, cd_major_version = 1,
      cd_compression_method = 0, cd_pattern = False, cd_has_checksum = False\<rparr> = Panics"
  by (simp add: decode_desc_def decode_stored_def strip_trailer_def slice_go_def go_defs i64_nonneg_id
      read_slice_def bytes_source_def bytes_read_def max_read_size_def Let_def)

section \<open>The device\<close>

text \<open>
  The byte of the device at an offset: the byte of the chunk the offset falls in, if that
  chunk exists, decodes and is long enough.
\<close>

definition device_byte :: "(int \<Rightarrow> (gerr + bytes) go) \<Rightarrow> int \<Rightarrow> nat \<Rightarrow> int \<Rightarrow> u8 option" where
  "device_byte decode chunk_size n off =
     (if int n \<le> off div chunk_size then None
      else case decode (off div chunk_size) of
             Returns (Inr data) \<Rightarrow>
               (if off mod chunk_size < int (length data) then Some (data ! nat (off mod chunk_size)) else None)
           | _ \<Rightarrow> None)"

text \<open>The loop without a cache.\<close>

definition fetch_plain :: "(int \<Rightarrow> (gerr + bytes) go) \<Rightarrow> unit \<Rightarrow> int \<Rightarrow> (gerr + bytes) go \<times> unit" where
  "fetch_plain decode u k = (decode k, u)"

lemma fetch_plain_apply [simp]: "fetch_plain decode u k = (decode k, ())"
  by (simp add: fetch_plain_def)

text \<open>The six ways a pass of the loop goes.\<close>

definition pass_available :: "int \<Rightarrow> int \<Rightarrow> bytes \<Rightarrow> int" where
  "pass_available cs current data = min (int (length data) - current mod cs) (cs - current mod cs)"

definition pass_copy :: "int \<Rightarrow> int \<Rightarrow> bytes \<Rightarrow> int \<Rightarrow> bytes \<Rightarrow> int \<Rightarrow> bytes" where
  "pass_copy cs current p got data m =
     copy_at p (nat got) (subslice data (nat (current mod cs)) (nat (current mod cs + m)))"

lemma read_loop_pass:
  assumes "current = i64 (off + got)"
  shows "want \<le> got \<Longrightarrow> read_loop fetch cs n off want p got c = (Returns (p, got, None), c)"
    and "got < want \<Longrightarrow> int n \<le> current div cs \<Longrightarrow>
      read_loop fetch cs n off want p got c = (Returns (p, got, Some EOF), c)"
    and "got < want \<Longrightarrow> current div cs < int n \<Longrightarrow> fetch c (current div cs) = (Panics, c') \<Longrightarrow>
      read_loop fetch cs n off want p got c = (Panics, c')"
    and "got < want \<Longrightarrow> current div cs < int n \<Longrightarrow> fetch c (current div cs) = (Returns (Inl e), c') \<Longrightarrow>
      read_loop fetch cs n off want p got c = (Returns (p, got, Some e), c')"
    and "got < want \<Longrightarrow> current div cs < int n \<Longrightarrow> fetch c (current div cs) = (Returns (Inr data), c') \<Longrightarrow>
      pass_available cs current data \<le> 0 \<Longrightarrow>
      read_loop fetch cs n off want p got c = (Returns (p, got, Some EOF), c')"
    and "got < want \<Longrightarrow> current div cs < int n \<Longrightarrow> fetch c (current div cs) = (Returns (Inr data), c') \<Longrightarrow>
      0 < pass_available cs current data \<Longrightarrow> m = min (want - got) (pass_available cs current data) \<Longrightarrow>
      read_loop fetch cs n off want p got c =
        read_loop fetch cs n off want (pass_copy cs current p got data m) (got + m) c'"
  by (simp_all add: read_loop.simps [of fetch cs n off want p got c] assms [symmetric] Let_def
      pass_available_def [symmetric] pass_copy_def [symmetric])

lemma read_loop_cases:
  fixes want got k cs current :: int and n :: nat and r :: "(gerr + bytes) go"
  obtains (finished) "want \<le> got"
  | (past) "got < want" "int n \<le> k"
  | (panic) "got < want" "k < int n" "r = Panics"
  | (failed) e where "got < want" "k < int n" "r = Returns (Inl e)"
  | (short) data where "got < want" "k < int n" "r = Returns (Inr data)" "pass_available cs current data \<le> 0"
  | (more) data where "got < want" "k < int n" "r = Returns (Inr data)" "0 < pass_available cs current data"
  by (metis go.exhaust not_le old.sum.exhaust)

lemma read_loop_cached:
  assumes "lru.coherent decode c"
  shows "fst (read_loop (fetch_through cache_get cache_put decode) cs n off want p got c) =
      fst (read_loop (fetch_plain decode) cs n off want p got ()) \<and>
    lru.coherent decode (snd (read_loop (fetch_through cache_get cache_put decode) cs n off want p got c))"
  using assms
proof (induction "nat (want - got)" arbitrary: p got c rule: less_induct)
  case less
  let ?fetch = "fetch_through cache_get cache_put decode"
  define current where "current = i64 (off + got)"
  let ?k = "current div cs"
  obtain res c' where f: "?fetch c ?k = (res, c')" by (cases "?fetch c ?k")
  have res: "decode ?k = res" and c': "lru.coherent decode c'"
    using lru.fetch_coherent [OF less.prems, of ?k] f by simp_all
  note cached = read_loop_pass [OF current_def, where fetch = ?fetch and c = c]
  note plain = read_loop_pass [OF current_def, where fetch = "fetch_plain decode" and c = "()"]
  show ?case
  proof (cases rule: read_loop_cases [where want = want and got = got and n = n and k = ?k and r = res and cs = cs and current = current])
    case finished
    then show ?thesis using less.prems by (simp add: cached(1) plain(1))
  next
    case past
    then show ?thesis using less.prems by (simp add: cached(2) plain(2))
  next
    case panic
    then show ?thesis using c' f res by (simp add: cached(3) plain(3) [where c' = "()"])
  next
    case (failed e)
    then show ?thesis using c' f res by (simp add: cached(4) plain(4) [where c' = "()"])
  next
    case (short data)
    then show ?thesis using c' f res by (simp add: cached(5) plain(5) [where c' = "()"])
  next
    case (more data)
    define m where "m = min (want - got) (pass_available cs current data)"
    have "nat (want - (got + m)) < nat (want - got)" using more by (simp add: m_def)
    from less.hyps [OF this c'] show ?thesis
      using more f res by (simp add: cached(6) [OF _ _ _ _ m_def] plain(6) [where c' = "()", OF _ _ _ _ m_def])
  qed
qed

section \<open>What the loop returns\<close>

lemma device_byte_Some:
  assumes "current div cs < int n" "decode (current div cs) = Returns (Inr data)"
    "current mod cs < int (length data)"
  shows "device_byte decode cs n current = Some (data ! nat (current mod cs))"
  using assms by (simp add: device_byte_def)

text \<open>The bytes a pass copies are the next bytes of the device.\<close>

lemma pass_bytes:
  assumes cs: "0 < cs" and cur: "0 \<le> current" "current div cs < int n"
    and data: "decode (current div cs) = Returns (Inr data)"
    and j: "0 \<le> j" "j < m" "m \<le> pass_available cs current data"
  shows "device_byte decode cs n (current + j) = Some (data ! nat (current mod cs + j))"
proof -
  have bound: "current mod cs + j < cs" "current mod cs + j < int (length data)"
    using j by (simp_all add: pass_available_def)
  have nonneg: "0 \<le> current mod cs" using cs by simp
  have "current + j = cs * (current div cs) + (current mod cs + j)"
    by (simp add: mult.commute)
  then have "(current + j) div cs = current div cs \<and> (current + j) mod cs = current mod cs + j"
    using bound nonneg j cs by (metis add_nonneg_nonneg div_mult_self4 div_pos_pos_trivial less_numeral_extra(3)
        mod_mult_self4 mod_pos_pos_trivial add.right_neutral add.commute)
  then show ?thesis using assms bound by (simp add: device_byte_def)
qed

lemma device_byte_short:
  assumes "decode (current div cs) = Returns (Inr data)" "pass_available cs current data \<le> 0" "0 < cs"
  shows "device_byte decode cs n current = None"
proof -
  have "current mod cs < cs" using assms(3) by simp
  then have "int (length data) \<le> current mod cs" using assms(2) by (simp add: pass_available_def)
  then show ?thesis using assms(1) by (simp add: device_byte_def)
qed

text \<open>
  The state of the loop: the first \<open>got\<close> bytes of the request are in the buffer, nothing
  behind them has changed.
\<close>

definition filled ::
  "(int \<Rightarrow> (gerr + bytes) go) \<Rightarrow> int \<Rightarrow> nat \<Rightarrow> int \<Rightarrow> bytes \<Rightarrow> int \<Rightarrow> bytes \<Rightarrow> bool" where
  "filled decode cs n off p0 got p \<longleftrightarrow>
     0 \<le> got \<and> got \<le> int (length p0) \<and> length p = length p0 \<and>
     (\<forall>i < length p0. if int i < got then device_byte decode cs n (off + int i) = Some (p ! i)
                     else p ! i = p0 ! i)"

lemma filled_start: "filled decode cs n off p 0 p"
  by (simp add: filled_def)

lemma nth_pass_copy:
  assumes "0 < cs" "0 < m" "m \<le> pass_available cs current data" "0 \<le> got" "got + m \<le> int (length p)" "i < length p"
  shows "pass_copy cs current p got data m ! i =
    (if nat got \<le> i \<and> i < nat got + nat m then data ! nat (current mod cs + (int i - got)) else p ! i)"
proof -
  let ?a = "current mod cs"
  have a: "0 \<le> ?a" "?a + m \<le> int (length data)"
    using assms by (simp_all add: pass_available_def)
  then have len: "length (subslice data (nat ?a) (nat (?a + m))) = nat m"
    using assms(2) by simp
  have "nat got \<le> length p"
    using assms by simp
  then have "pass_copy cs current p got data m ! i = (if nat got \<le> i \<and> i < nat got + nat m
      then subslice data (nat ?a) (nat (?a + m)) ! (i - nat got) else p ! i)"
    unfolding pass_copy_def using assms(6) by (simp only: nth_copy_at len)
  moreover have "subslice data (nat ?a) (nat (?a + m)) ! (i - nat got) = data ! nat (?a + (int i - got))"
    if "nat got \<le> i" "i < nat got + nat m"
  proof -
    have "subslice data (nat ?a) (nat (?a + m)) ! (i - nat got) = data ! (nat ?a + (i - nat got))"
      using that a assms(2,4) by (intro nth_subslice) linarith+
    also have "nat ?a + (i - nat got) = nat (?a + (int i - got))"
      using that a assms(4) by linarith
    finally show ?thesis .
  qed
  ultimately show ?thesis by simp
qed

lemma filled_pass:
  assumes f: "filled decode cs n off p0 got p" and cs: "0 < cs" and off: "0 \<le> off"
    and cur: "current = off + got" "current div cs < int n"
    and data: "decode (current div cs) = Returns (Inr data)"
    and m: "0 < m" "m \<le> pass_available cs current data" "got + m \<le> int (length p0)"
  shows "filled decode cs n off p0 (got + m) (pass_copy cs current p got data m)"
proof -
  let ?q = "pass_copy cs current p got data m" and ?a = "current mod cs"
  have g: "0 \<le> got" "length p = length p0" using f by (simp_all add: filled_def)
  have lq: "length ?q = length p0"
    using g m f by (simp add: pass_copy_def filled_def)
  have nth: "?q ! i = (if nat got \<le> i \<and> i < nat got + nat m then data ! nat (?a + (int i - got)) else p ! i)"
    if "i < length p0" for i
    by (rule nth_pass_copy) (use cs m g that in simp_all)
  have old: "if int i < got then device_byte decode cs n (off + int i) = Some (p ! i) else p ! i = p0 ! i"
    if "i < length p0" for i using f that by (simp add: filled_def)
  have "if int i < got + m then device_byte decode cs n (off + int i) = Some (?q ! i) else ?q ! i = p0 ! i"
    if i: "i < length p0" for i
  proof (cases "nat got \<le> i \<and> i < nat got + nat m")
    case True
    then have j: "0 \<le> int i - got" "int i - got < m" using g m by linarith+
    have "device_byte decode cs n (current + (int i - got)) = Some (data ! nat (?a + (int i - got)))"
      by (rule pass_bytes [where n = n and m = m]) (use off cur g j m data cs in simp_all)
    then show ?thesis using True nth [OF i] j cur(1) by simp
  next
    case False
    then have "int i < got \<and> int i < got + m \<or> \<not> int i < got \<and> \<not> int i < got + m" using g m by linarith
    then show ?thesis using False nth [OF i] old [OF i] by auto
  qed
  then show ?thesis using g m lq unfolding filled_def by auto
qed

text \<open>
  The loop ends with a prefix of the request in the buffer, and stops early only where the
  device has no byte to give (or a chunk fails, which leaves it without bytes too).
\<close>

lemma read_loop_result:
  assumes "filled decode cs n off p0 got p" "0 < cs" "0 \<le> off" "off + want \<le> 9223372036854775807"
    "want \<le> int (length p0)" "got \<le> want"
  shows "case fst (read_loop (fetch_plain decode) cs n off want p got ()) of
      Panics \<Rightarrow> \<exists>j. 0 \<le> j \<and> j < want \<and> (off + j) div cs < int n \<and> decode ((off + j) div cs) = Panics
    | Returns (q, m, err) \<Rightarrow>
        filled decode cs n off p0 m q \<and> m \<le> want \<and>
        (if err = None then m = want else m < want \<and> device_byte decode cs n (off + m) = None)"
  using assms
proof (induction "nat (want - got)" arbitrary: p got rule: less_induct)
  case less
  have g: "0 \<le> got" using less.prems(1) by (simp add: filled_def)
  define current where "current = off + got"
  have cur: "current = i64 (off + got)"
    using less.prems g by (simp add: current_def i64_nonneg_id)
  let ?k = "current div cs"
  have k: "0 \<le> ?k" using less.prems(2,3) g by (simp add: current_def pos_imp_zdiv_nonneg_iff)
  note plain = read_loop_pass [OF cur, where fetch = "fetch_plain decode" and c = "()"]
  show ?case
  proof (cases rule: read_loop_cases
      [where want = want and got = got and n = n and k = ?k and r = "decode ?k" and cs = cs and current = current])
    case finished
    then show ?thesis using less.prems by (simp add: plain(1))
  next
    case past
    then show ?thesis using less.prems by (simp add: plain(2) device_byte_def current_def)
  next
    case panic
    then show ?thesis using g by (auto simp: plain(3) [where c' = "()"] current_def)
  next
    case (failed e)
    then show ?thesis using less.prems by (simp add: plain(4) [where c' = "()"] device_byte_def current_def)
  next
    case (short data)
    have "device_byte decode cs n current = None"
      by (rule device_byte_short [where data = data]) (use short less.prems in simp_all)
    then show ?thesis using less.prems short by (simp add: plain(5) [where c' = "()"] current_def)
  next
    case (more data)
    define m where "m = min (want - got) (pass_available cs current data)"
    have m: "0 < m" "m \<le> pass_available cs current data" "got + m \<le> want" using more by (simp_all add: m_def)
    have f: "filled decode cs n off p0 (got + m) (pass_copy cs current p got data m)"
      by (rule filled_pass [where data = data]) (use less.prems m more current_def in simp_all)
    have "nat (want - (got + m)) < nat (want - got)" using more m by simp
    from less.hyps [OF this f less.prems(2-5) m(3)] show ?thesis
      using more by (simp add: plain(6) [where c' = "()", OF _ _ _ _ m_def])
  qed
qed

section \<open>ReadAt\<close>

text \<open>The byte of a reader's device at an offset; nothing exists at or past its size.\<close>

definition reader_byte :: "golib \<Rightarrow> image_reader \<Rightarrow> int \<Rightarrow> u8 option" where
  "reader_byte lib r off =
     (if 0 \<le> off \<and> off < ir_logical_size r \<and> 0 < ir_chunk_size r
      then device_byte (decode_chunk lib r) (ir_chunk_size r) (length (ir_chunk_table r)) off else None)"

text \<open>What holds of a reader from the moment it is opened.\<close>

definition reader_ok :: "golib \<Rightarrow> image_reader \<Rightarrow> bool" where
  "reader_ok lib r \<longleftrightarrow>
     0 \<le> ir_chunk_size r \<and> 0 \<le> ir_logical_size r \<and>
     ir_chunk_size r \<le> 9223372036854775807 \<and> ir_logical_size r \<le> 9223372036854775807 \<and>
     lru.coherent (decode_chunk lib r) (ir_cache r)"

lemma opened_reader_ok:
  assumes "open_segments_with_options lib sources opts = Inr r"
  shows "reader_ok lib r"
proof -
  obtain segs where "reader_of segs opts = Inr r"
    using assms unfolding open_Inr by blast
  from reader_of_Inr(4,5) [OF this] show ?thesis
    using compute_geometry_bounds by (simp add: reader_ok_def new_cache_coherent)
qed

lemma decode_chunk_cache [simp]: "decode_chunk lib (r\<lparr>ir_cache := c\<rparr>) = decode_chunk lib r"
  by (simp add: decode_chunk_def fun_eq_iff)

definition guarded :: "image_reader \<Rightarrow> bytes \<Rightarrow> int \<Rightarrow> bool" where
  "guarded r p off \<longleftrightarrow>
     p = [] \<or> off < 0 \<or> ir_chunk_size r \<le> 0 \<or> ir_logical_size r \<le> 0 \<or> ir_chunk_table r = [] \<or>
     ir_logical_size r \<le> off"

text \<open>The early returns of \<open>ReadAt\<close>, and the branch that reads.\<close>

lemma read_at_guarded:
  assumes "guarded r p off"
  shows "\<exists>err. read_at lib r p off = (Returns (p, 0, err), r) \<and> (err = None \<longleftrightarrow> p = [])"
  using assms unfolding guarded_def read_at_def by (auto simp del: Let_def)

definition wanted :: "image_reader \<Rightarrow> bytes \<Rightarrow> int \<Rightarrow> int" where
  "wanted r p off = min (ir_logical_size r - off) (int (length p))"

lemma read_at_unguarded:
  assumes "\<not> guarded r p off"
    and "read_loop (chunk_data lib r) (ir_chunk_size r) (length (ir_chunk_table r)) off (wanted r p off)
      p 0 (ir_cache r) = (res, c)"
  shows "read_at lib r p off = (go_bind res (\<lambda>x. Returns (finish_read x)), r\<lparr>ir_cache := c\<rparr>)"
proof -
  have "(if ir_logical_size r - off < int (length p) then ir_logical_size r - off
      else int (length p)) = wanted r p off" by (simp add: wanted_def)
  then show ?thesis using assms unfolding read_at_def guarded_def by (simp add: Let_def)
qed

lemma guarded_cache [simp]: "guarded (r\<lparr>ir_cache := c\<rparr>) p off = guarded r p off"
  by (simp add: guarded_def)

lemma read_at_keeps:
  assumes "reader_ok lib r"
  shows "reader_ok lib (snd (read_at lib r p off)) \<and>
    (\<exists>c. snd (read_at lib r p off) = r\<lparr>ir_cache := c\<rparr>)"
proof (cases "guarded r p off")
  case True
  have "r = r\<lparr>ir_cache := ir_cache r\<rparr>" by simp
  then show ?thesis using assms read_at_guarded [OF True, of lib] by (metis snd_conv)
next
  case False
  obtain res c where loop: "read_loop (chunk_data lib r) (ir_chunk_size r) (length (ir_chunk_table r)) off
      (wanted r p off) p 0 (ir_cache r) = (res, c)"
    by (cases "read_loop (chunk_data lib r) (ir_chunk_size r) (length (ir_chunk_table r)) off
      (wanted r p off) p 0 (ir_cache r)")
  have "lru.coherent (decode_chunk lib r) (ir_cache r)" using assms by (simp add: reader_ok_def)
  from read_loop_cached [OF this, of "ir_chunk_size r" "length (ir_chunk_table r)" off "wanted r p off" p 0]
  have "lru.coherent (decode_chunk lib r) c" using loop by (simp add: chunk_data_def)
  then show ?thesis using assms read_at_unguarded [OF False loop] by (auto simp: reader_ok_def)
qed

lemma read_at_loop:
  assumes ok: "reader_ok lib r" and g: "\<not> guarded r p off"
  shows "fst (read_at lib r p off) =
    go_bind (fst (read_loop (fetch_plain (decode_chunk lib r)) (ir_chunk_size r)
        (length (ir_chunk_table r)) off (wanted r p off) p 0 ()))
      (\<lambda>x. Returns (finish_read x))"
proof -
  obtain res c where loop: "read_loop (chunk_data lib r) (ir_chunk_size r) (length (ir_chunk_table r)) off
      (wanted r p off) p 0 (ir_cache r) = (res, c)"
    by (cases "read_loop (chunk_data lib r) (ir_chunk_size r) (length (ir_chunk_table r)) off
      (wanted r p off) p 0 (ir_cache r)")
  have "lru.coherent (decode_chunk lib r) (ir_cache r)" using ok by (simp add: reader_ok_def)
  from read_loop_cached [OF this, of "ir_chunk_size r" "length (ir_chunk_table r)" off "wanted r p off" p 0]
  show ?thesis using loop read_at_unguarded [OF g loop] by (simp add: chunk_data_def)
qed

text \<open>
  A description of a finished read: the first \<open>m\<close> bytes of the buffer are those of the
  device, the rest is untouched, and \<open>m\<close> is as large as it can be.
\<close>

definition longest_read ::
  "golib \<Rightarrow> image_reader \<Rightarrow> int \<Rightarrow> bytes \<Rightarrow> bytes \<Rightarrow> int \<Rightarrow> bool" where
  "longest_read lib r off p q m \<longleftrightarrow>
     0 \<le> m \<and> m \<le> int (length p) \<and> length q = length p \<and>
     (\<forall>i < length p. if int i < m then reader_byte lib r (off + int i) = Some (q ! i) else q ! i = p ! i) \<and>
     (m = int (length p) \<or> reader_byte lib r (off + m) = None)"

lemma longest_read_zero:
  "p = [] \<or> reader_byte lib r off = None \<Longrightarrow> longest_read lib r off p p 0"
  by (auto simp: longest_read_def)

lemma unguarded_wanted:
  assumes "reader_ok lib r" "\<not> guarded r p off"
  shows "off + wanted r p off \<le> 9223372036854775807" "wanted r p off \<le> int (length p)"
    "0 \<le> wanted r p off" "0 < ir_chunk_size r" "0 \<le> off" "off + wanted r p off \<le> ir_logical_size r"
  using assms by (auto simp: reader_ok_def guarded_def wanted_def)

lemma unguarded_byte:
  assumes "\<not> guarded r p off" "0 \<le> j" "j < wanted r p off"
  shows "reader_byte lib r (off + j) =
    device_byte (decode_chunk lib r) (ir_chunk_size r) (length (ir_chunk_table r)) (off + j)"
  using assms by (auto simp: reader_byte_def guarded_def wanted_def)

lemma finish_read_parts:
  "finish_read (q, m, e) = (q, m, if e = None \<and> m < int (length q) then Some EOF else e)"
  by (cases e) (simp_all add: finish_read_def)

lemma read_at_result:
  assumes ok: "reader_ok lib r" and res: "fst (read_at lib r p off) = Returns (q, m, err)"
  shows "longest_read lib r off p q m \<and> (err = None \<longleftrightarrow> m = int (length p))"
proof (cases "guarded r p off")
  case True
  then have "p = [] \<or> reader_byte lib r off = None"
    by (auto simp: guarded_def reader_byte_def device_byte_def pos_imp_zdiv_nonneg_iff)
  moreover have "q = p \<and> m = 0 \<and> (err = None \<longleftrightarrow> p = [])"
    using read_at_guarded [OF True, of lib] res by auto
  ultimately show ?thesis using longest_read_zero by auto
next
  case False
  let ?cs = "ir_chunk_size r" and ?n = "length (ir_chunk_table r)"
  let ?want = "wanted r p off" and ?dec = "decode_chunk lib r"
  note w = unguarded_wanted [OF ok False]
  obtain x where "fst (read_loop (fetch_plain ?dec) ?cs ?n off ?want p 0 ()) = Returns x"
    and "finish_read x = (q, m, err)"
    using res unfolding read_at_loop [OF ok False] by (auto simp: go_bind_Returns_iff)
  then obtain e where loop: "fst (read_loop (fetch_plain ?dec) ?cs ?n off ?want p 0 ()) = Returns (q, m, e)"
    and err: "err = (if e = None \<and> m < int (length q) then Some EOF else e)"
    by (cases x) (auto simp: finish_read_parts)
  have r: "filled ?dec ?cs ?n off p m q" "m \<le> ?want"
    "if e = None then m = ?want else m < ?want \<and> device_byte ?dec ?cs ?n (off + m) = None"
    using read_loop_result [OF filled_start w(4,5,1,2,3), of ?dec ?n] loop by simp_all
  have m: "0 \<le> m" "m \<le> int (length p)" "length q = length p" using r(1) by (simp_all add: filled_def)
  have stop: "m = int (length p) \<or> reader_byte lib r (off + m) = None"
  proof (cases "m < ?want")
    case True
    then show ?thesis using r(3) unguarded_byte [OF False m(1) True, of lib] by (auto split: if_splits)
  next
    case f: False
    then show ?thesis using r(2) by (auto simp: reader_byte_def wanted_def min_def split: if_splits)
  qed
  have "if int i < m then reader_byte lib r (off + int i) = Some (q ! i) else q ! i = p ! i"
    if "i < length p" for i
    using r(1,2) that unguarded_byte [OF False, of "int i" lib] by (auto simp: filled_def)
  then have "longest_read lib r off p q m"
    using m stop by (simp add: longest_read_def)
  moreover have "err = None \<longleftrightarrow> m = int (length p)" using err r(2,3) w(2) m by (auto split: if_splits)
  ultimately show ?thesis by blast
qed

lemma read_at_panics:
  assumes ok: "reader_ok lib r" and res: "fst (read_at lib r p off) = Panics"
  shows "\<exists>j. 0 \<le> j \<and> j < wanted r p off \<and> \<not> guarded r p off \<and>
    (off + j) div ir_chunk_size r < int (length (ir_chunk_table r)) \<and>
    decode_chunk lib r ((off + j) div ir_chunk_size r) = Panics"
proof -
  have g: "\<not> guarded r p off" using read_at_guarded [of r p off lib] res by auto
  note w = unguarded_wanted [OF ok g]
  have "fst (read_loop (fetch_plain (decode_chunk lib r)) (ir_chunk_size r) (length (ir_chunk_table r)) off
      (wanted r p off) p 0 ()) = Panics" (is "?x = _")
    using res unfolding read_at_loop [OF ok g] by (cases ?x) auto
  then show ?thesis
    using read_loop_result [OF filled_start w(4,5,1,2,3), of "decode_chunk lib r" "length (ir_chunk_table r)"] g
    by auto
qed

text \<open>Earlier reads only change the cache.\<close>

definition after_reads :: "golib \<Rightarrow> (bytes \<times> int) list \<Rightarrow> image_reader \<Rightarrow> image_reader" where
  "after_reads lib reqs r = fold (\<lambda>req r. snd (read_at lib r (fst req) (snd req))) reqs r"

lemma after_reads_keeps:
  "reader_ok lib r \<Longrightarrow> reader_ok lib (after_reads lib reqs r) \<and> (\<exists>c. after_reads lib reqs r = r\<lparr>ir_cache := c\<rparr>)"
proof (induction reqs arbitrary: r)
  case Nil
  show ?case using Nil by (auto simp: after_reads_def intro!: exI [of _ "ir_cache r"])
next
  case (Cons req reqs)
  let ?r = "snd (read_at lib r (fst req) (snd req))"
  have r: "reader_ok lib ?r" "\<exists>c. ?r = r\<lparr>ir_cache := c\<rparr>" using read_at_keeps [OF Cons.prems] by blast+
  have "after_reads lib (req # reqs) r = after_reads lib reqs ?r" by (simp add: after_reads_def)
  then show ?case using Cons.IH [OF r(1)] r(2) by auto
qed

lemma reader_byte_cache [simp]: "reader_byte lib (r\<lparr>ir_cache := c\<rparr>) = reader_byte lib r"
  by (simp add: reader_byte_def fun_eq_iff)

lemma longest_read_cache [simp]: "longest_read lib (r\<lparr>ir_cache := c\<rparr>) = longest_read lib r"
  by (simp add: longest_read_def fun_eq_iff)

lemma read_at_same:
  assumes "reader_ok lib r" "reader_ok lib (r\<lparr>ir_cache := c\<rparr>)"
  shows "fst (read_at lib (r\<lparr>ir_cache := c\<rparr>) p off) = fst (read_at lib r p off)"
proof (cases "guarded r p off")
  case True
  then show ?thesis by (auto simp: read_at_def guarded_def)
next
  case False
  then show ?thesis
    using read_at_loop [OF assms(1) False] read_at_loop [OF assms(2), of p off] by (simp add: wanted_def)
qed

text \<open>
  C3. \<open>ReadAt\<close> keeps the contract of \<open>io.ReaderAt\<close> on every image that opens, for every
  request and whatever was read before: it fills the buffer with exactly the bytes of the
  decoded device, as many as there are in a row from the offset (never one at or past the
  size), leaves the rest of the buffer alone, and returns a nil error exactly when the
  whole buffer was filled.
\<close>

theorem read_at_contract:
  assumes "open_segments_with_options lib sources opts = Inr r"
    and "fst (read_at lib (after_reads lib earlier r) p off) = Returns (q, m, err)"
  shows "longest_read lib r off p q m \<and> (err = None \<longleftrightarrow> m = int (length p))"
proof -
  obtain c where "after_reads lib earlier r = r\<lparr>ir_cache := c\<rparr>" "reader_ok lib (after_reads lib earlier r)"
    using after_reads_keeps [OF opened_reader_ok [OF assms(1)]] by blast
  with read_at_result [OF _ assms(2)] show ?thesis by simp
qed

lemma read_at_whole:
  assumes "open_segments_with_options lib sources opts = Inr r"
    and "length d = length p"
    and "\<And>i. i < length p \<Longrightarrow> reader_byte lib r (off + int i) = Some (d ! i)"
  shows "fst (read_at lib (after_reads lib earlier r) p off) = Returns (d, int (length p), None)"
proof -
  obtain c where c: "after_reads lib earlier r = r\<lparr>ir_cache := c\<rparr>" "reader_ok lib (after_reads lib earlier r)"
    using after_reads_keeps [OF opened_reader_ok [OF assms(1)]] by blast
  let ?res = "fst (read_at lib (after_reads lib earlier r) p off)"
  have byte: "reader_byte lib (after_reads lib earlier r) (off + j) \<noteq> None" if "0 \<le> j" "j < int (length p)" for j
    using assms(3) [of "nat j"] that c(1) by simp
  have "?res \<noteq> Panics"
  proof
    assume "?res = Panics"
    from read_at_panics [OF c(2) this] obtain j where j: "0 \<le> j" "j < wanted (after_reads lib earlier r) p off"
      "\<not> guarded (after_reads lib earlier r) p off"
      "decode_chunk lib (after_reads lib earlier r) ((off + j) div ir_chunk_size (after_reads lib earlier r)) = Panics"
      by blast
    have "reader_byte lib (after_reads lib earlier r) (off + j) = None"
      unfolding unguarded_byte [OF j(3,1,2)] device_byte_def j(4) by simp
    moreover have "j < int (length p)" using j(2) by (simp add: wanted_def)
    ultimately show False using byte [of j] j(1) by simp
  qed
  then obtain q m err where res: "?res = Returns (q, m, err)"
    by (metis go.exhaust prod_cases3)
  from read_at_result [OF c(2) this]
  have l: "longest_read lib r off p q m" and e: "err = None \<longleftrightarrow> m = int (length p)"
    using c(1) by simp_all
  have "0 \<le> m" "m \<le> int (length p)" "m = int (length p) \<or> reader_byte lib r (off + m) = None"
    using l by (simp_all add: longest_read_def)
  then have m: "m = int (length p)" using byte [of m] c(1) by (cases "m < int (length p)") simp_all
  have "q = d" using l m assms(2,3) by (intro nth_equalityI) (auto simp: longest_read_def)
  with res e m show ?thesis by simp
qed

text \<open>
  C4. Where the device has all the bytes of a request, \<open>ReadAt\<close> returns them all: it does
  not fail, does not panic and does not read short, for every alignment of the request
  to chunk boundaries and whatever the cache holds.
\<close>

theorem read_at_complete:
  assumes "open_segments_with_options lib sources opts = Inr r"
    and "length d = length p"
    and "\<And>i. i < length p \<Longrightarrow> reader_byte lib r (off + int i) = Some (d ! i)"
  shows "fst (read_at lib (after_reads lib earlier r) p off) = Returns (d, int (length p), None)"
  using assms by (rule read_at_whole)

text \<open>
  C5. The chunk cache cannot be observed: after any earlier reads, a read returns what it
  would return on a reader with no cache at all.
\<close>

theorem cache_transparent:
  assumes "open_segments_with_options lib sources opts = Inr r"
  shows "fst (read_at lib (after_reads lib earlier r) p off) = fst (read_at lib (r\<lparr>ir_cache := None\<rparr>) p off)"
proof -
  have ok: "reader_ok lib r" by (rule opened_reader_ok [OF assms])
  obtain c where c: "after_reads lib earlier r = r\<lparr>ir_cache := c\<rparr>" "reader_ok lib (after_reads lib earlier r)"
    using after_reads_keeps [OF ok] by blast
  have "reader_ok lib (r\<lparr>ir_cache := None\<rparr>)"
    using ok by (simp add: reader_ok_def lru.coherent_def cache_ok_def cache_contents_def)
  then show ?thesis using read_at_same [OF ok] c by metis
qed

section \<open>Types\<close>

text \<open>A chunk descriptor of one of the sources, with an offset an \<open>int64\<close> holds.\<close>

definition chunk_typed :: "io_source \<Rightarrow> chunk_desc \<Rightarrow> bool" where
  "chunk_typed src d \<longleftrightarrow> cd_source d = Some src \<and> is_i64 (cd_offset d)"

lemma chunk_entries_typed: "list_all (chunk_typed src) (chunk_entries src hdr section base overflow rs)"
  by (induction rs arbitrary: overflow) (simp_all add: chunk_typed_def entry_offset_def is_i64_int64_of)

lemma tables_typed:
  "list_all (chunk_typed src) (fst (parse_table_section_v1 src hdr section))"
  "list_all (chunk_typed src) (parse_table_section_v2 src hdr section)"
  by (auto simp: parse_table_section_v1_def decode_table_v1_def parse_table_section_v2_def chunk_entries_typed Let_def
      list_all_iff chunk_typed_def chunk_entry_v2_def is_i64_int64_of split: sum.splits)
     (use chunk_entries_typed in \<open>force simp: list_all_iff chunk_typed_def\<close>)+

lemma group_typed: "list_all (chunk_typed src) (fst (group_result src hdr g))"
proof (cases "si_descriptor_size (fst g) = 76")
  case True
  obtain c1 v1 where p: "parse_table_section_v1 src hdr (fst g) = (c1, v1)"
    by (cases "parse_table_section_v1 src hdr (fst g)")
  have c1: "list_all (chunk_typed src) c1"
    using tables_typed(1) [of src hdr "fst g"] p by simp
  show ?thesis
  proof (cases "snd g")
    case None
    then show ?thesis
      using True p c1 by (simp add: group_result_def parse_table_group_v1_def)
  next
    case (Some b)
    obtain c2 v2 where b: "parse_table_section_v1 src hdr b = (c2, v2)"
      by (cases "parse_table_section_v1 src hdr b")
    have "list_all (chunk_typed src) c2"
      using tables_typed(1) [of src hdr b] b by simp
    then show ?thesis
      using True p c1 b Some by (simp add: group_result_def parse_table_group_v1_def)
  qed
qed (simp add: group_result_def tables_typed(2))

lemma built_typed: "list_all (chunk_typed src) (fst (build_chunk_table src hdr sections))"
  using group_typed by (auto simp: build_chunk_table_def consume_tables_groups Let_def list_all_iff)

text \<open>The metadata of a segment and of a merged set.\<close>

definition info_typed :: "info \<Rightarrow> bool" where
  "info_typed nfo \<longleftrightarrow> info_ok nfo \<and> inf_section_count nfo = length (inf_sections nfo)"

lemma segment_typed:
  assumes "parse_segment lib src = Inr seg"
  shows "info_typed (seg_metadata seg)" "list_all (chunk_typed src) (seg_chunk_table seg)" "seg_source seg = src"
proof -
  obtain t header sections where s: "seg = segment_of lib src t header sections"
    by (rule parse_segment_Inr [OF assms])
  have "info_ok (seg_metadata seg) \<and> inf_section_count (seg_metadata seg) = length (inf_sections (seg_metadata seg))"
    using segment_metadata_sound [of lib src header sections] by (simp add: s segment_of_def Let_def case_prod_beta)
  then show "info_typed (seg_metadata seg)"
    by (simp add: info_typed_def)
  show "list_all (chunk_typed src) (seg_chunk_table seg)" "seg_source seg = src"
    using built_typed [of src header sections] by (simp_all add: s segment_of_def Let_def case_prod_beta)
qed

lemma merge_one_typed: "info_typed m \<Longrightarrow> info_typed (seg_metadata seg) \<Longrightarrow> info_typed (merge_one seg m)"
  by (auto simp: info_typed_def info_ok_def split: option.splits)

lemma merge_typed:
  "list_all (\<lambda>seg. info_typed (seg_metadata seg)) segs \<Longrightarrow> info_typed m \<Longrightarrow> info_typed (fold merge_one segs m)"
  by (induction segs arbitrary: m) (simp_all add: merge_one_typed)

lemma merged_typed:
  assumes "segs \<noteq> []" "list_all (\<lambda>seg. info_typed (seg_metadata seg)) segs"
  shows "info_typed (merge_segment_metadata segs chunks)"
    "inf_observed_chunks (merge_segment_metadata segs chunks) = of_nat (length chunks)"
proof -
  obtain s ss where segs: "segs = s # ss" using assms(1) by (cases segs) auto
  have "info_typed (fold merge_one ss ((seg_metadata s)\<lparr>inf_tables_recovered := a, inf_tables_invalid := b\<rparr>))" for a b
    by (rule merge_typed) (use assms(2) segs in \<open>simp_all add: info_typed_def info_ok_def\<close>)
  then show "info_typed (merge_segment_metadata segs chunks)"
    by (simp add: segs merge_segment_metadata_def info_typed_def info_ok_def Let_def)
  show "inf_observed_chunks (merge_segment_metadata segs chunks) = of_nat (length chunks)"
    by (simp add: merge_segment_metadata_def Let_def)
qed

definition reader_typed :: "io_source list \<Rightarrow> image_reader \<Rightarrow> bool" where
  "reader_typed sources r \<longleftrightarrow>
     info_typed (ir_metadata r) \<and> inf_observed_chunks (ir_metadata r) = of_nat (length (ir_chunk_table r)) \<and>
     ir_source r \<in> set sources \<and> list_all (\<lambda>d. list_ex (\<lambda>src. chunk_typed src d) sources) (ir_chunk_table r) \<and>
     0 \<le> ir_chunk_size r \<and> is_i64 (ir_chunk_size r) \<and> 0 \<le> ir_logical_size r \<and> is_i64 (ir_logical_size r) \<and>
     cache_ok (ir_cache r)"

lemma policy_typed:
  assumes "apply_policy opts m = Inr m'" "info_typed m"
  shows "info_typed m'" "inf_observed_chunks m' = inf_observed_chunks m"
  using assms by (auto simp: apply_policy_def info_typed_def info_ok_def split: checksum_policy.splits if_splits)

text \<open>
  C13. An opened reader is well typed, and stays so whatever is read: its metadata is well
  formed and counts its sections and its chunks, every chunk descriptor points into one
  of the sources at an offset an \<open>int64\<close> holds, the geometry fits an \<open>int64\<close> and the chunk
  cache keeps its invariant.
\<close>

theorem opened_reader_typed:
  assumes "open_segments_with_options lib sources opts = Inr r"
  shows "reader_typed sources (after_reads lib earlier r)"
proof -
  obtain segs where segs: "segs \<noteq> []" "reader_of segs opts = Inr r"
    "\<forall>seg \<in> set segs. \<exists>src \<in> set sources. parse_segment lib src = Inr seg"
    by (rule open_segments_all [OF assms])
  note r = reader_of_Inr [OF segs(2)]
  have typed: "list_all (\<lambda>seg. info_typed (seg_metadata seg)) segs"
    using segs(3) segment_typed(1) by (fastforce simp: list_all_iff)
  have chunks: "list_all (\<lambda>d. list_ex (\<lambda>src. chunk_typed src d) sources) (ir_chunk_table r)"
    using segs(3) segment_typed(2) unfolding r(1) by (fastforce simp: list_all_iff list_ex_iff)
  obtain src where src: "src \<in> set sources" "parse_segment lib src = Inr (hd segs)"
    using segs(1,3) by (meson hd_in_set)
  have source: "ir_source r \<in> set sources"
    using src segment_typed(3) [OF src(2)] by (simp add: r(6))
  have meta: "info_typed (ir_metadata r)" "inf_observed_chunks (ir_metadata r) = of_nat (length (ir_chunk_table r))"
    using policy_typed [OF r(3)] merged_typed [OF segs(1) typed] r(1) by simp_all
  obtain c where c: "after_reads lib earlier r = r\<lparr>ir_cache := c\<rparr>" "reader_ok lib (after_reads lib earlier r)"
    using after_reads_keeps [OF opened_reader_ok [OF assms]] by blast
  have "cache_ok c"
    using c by (simp add: reader_ok_def lru.coherent_def)
  then show ?thesis
    using c chunks source meta by (auto simp: reader_typed_def reader_ok_def is_i64_def max_int64_def)
qed

section \<open>Written chunks are read back\<close>

text \<open>
  A stored chunk decodes to its data: an uncompressed v1 chunk (with the checksum behind
  it), an uncompressed v2 chunk that states its checksum, and a compressed chunk whenever
  the decompressor of its method inverts the compressor that wrote it.
\<close>

theorem stored_chunk_roundtrip:
  assumes cs: "0 < cs" "cs \<le> 1000000000" and data: "int (length data) = cs"
    and sum: "length checksum = 4"
    and packed: "decompress (lib_codecs lib) packed codec = Inr data" "packed \<noteq> []"
      "int (length packed) \<le> cs * 2 + 4096" "int (length packed) \<le> max_read_size"
    and desc: "cd_offset d = int (length pre)" "\<not> cd_pattern d"
    and stored: "uint (cd_size d) = cs + 4 \<and> \<not> cd_compressed d \<and> stored = data @ checksum \<and>
        (cd_has_checksum d \<or> cd_major_version d = 1) \<or>
      uint (cd_size d) = int (length packed) \<and> cd_compressed d \<and> stored = packed \<and>
        codec = (if cd_major_version d = 1 then compression_deflate else cd_compression_method d)"
    and src: "cd_source d = Some (bytes_source (pre @ stored @ post))"
  shows "decode_desc lib fallback cs d = Returns (Inr data)"
proof -
  have size: "uint (cd_size d) = int (length stored)" "stored \<noteq> []"
    "int (length stored) \<le> max_read_size" "int (length stored) \<le> cs * 2 + 4096"
    using stored data sum packed cs by (auto simp: max_read_size_def)
  have r: "read_slice (bytes_source (pre @ stored @ post)) (cd_offset d) (uint (cd_size d)) = Inr stored"
    using size desc by (intro read_slice_mid) auto
  have "decode_desc lib fallback cs d = decode_stored lib d cs stored"
  proof -
    have "cd_size d \<noteq> 0"
    proof
      assume "cd_size d = 0"
      then show False using size by simp
    qed
    moreover have "i64 (cs * 2 + 4096) = cs * 2 + 4096" using cs by (simp add: i64_nonneg_id)
    ultimately show ?thesis using r src size(1,4) desc(1) by (simp add: decode_desc_def)
  qed
  also have "\<dots> = Returns (Inr data)"
    using stored
  proof
    assume s: "uint (cd_size d) = cs + 4 \<and> \<not> cd_compressed d \<and> stored = data @ checksum \<and>
        (cd_has_checksum d \<or> cd_major_version d = 1)"
    then have "slice_go stored 0 (int (length stored) - 4) = Returns data"
      using sum by (simp add: slice_go_def subslice_split)
    then show ?thesis
      using s desc data sum cs by (auto simp: decode_stored_def strip_trailer_def go_defs)
  next
    assume "uint (cd_size d) = int (length packed) \<and> cd_compressed d \<and> stored = packed \<and>
        codec = (if cd_major_version d = 1 then compression_deflate else cd_compression_method d)"
    then show ?thesis using packed desc by (simp add: decode_stored_def Let_def)
  qed
  finally show ?thesis .
qed

theorem stored_chunk_roundtrip_witness:
  "decode_desc plain_lib (bytes_source []) 4
     \<lparr>cd_source = Some (bytes_source ([0] @ ([1, 2, 3, 4] @ [9, 9, 9, 9]) @ [])), cd_offset = 1, cd_size = 8,
      cd_compressed = False, cd_major_version = 1, cd_compression_method = 0, cd_pattern = False,
      cd_has_checksum = False\<rparr> = Returns (Inr [1, 2, 3, 4])"
  by (rule stored_chunk_roundtrip [where checksum = "[9, 9, 9, 9]" and packed = "[1, 2, 3, 4]" and codec = 0
        and pre = "[0]" and post = "[]" and stored = "[1, 2, 3, 4] @ [9, 9, 9, 9]"])
     (simp_all add: max_read_size_def decompress_def go_defs)

theorem decode_chunk_no_panic_witness:
  "decode_chunk plain_lib
     \<lparr>ir_source = bytes_source [], ir_segment_file_type = FileEWF1, ir_header = empty_header,
      ir_sections = [], ir_metadata = initial_info empty_header [],
      ir_chunk_table = [\<lparr>cd_source = None, cd_offset = 0, cd_size = 2, cd_compressed = False,
        cd_major_version = 1, cd_compression_method = 0, cd_pattern = False, cd_has_checksum = False\<rparr>],
      ir_chunk_size = 3, ir_logical_size = 3, ir_cache = None\<rparr> 0 \<noteq> Panics"
  by (rule decode_chunk_no_panic) simp_all

section \<open>The sample image\<close>

definition sample_reader :: image_reader where
  "sample_reader = projr (open_segments_with_options plain_lib [sample_image] default_options)"

lemma sample_reader_opens:
  "open_segments_with_options plain_lib [sample_image] default_options = Inr sample_reader"
proof -
  have "opens (open_segments_with_options plain_lib [sample_image] default_options)" by code_simp
  then show ?thesis by (auto simp: sample_reader_def dest: opens_Inr)
qed

lemma sample_read:
  "fst (read_at plain_lib (after_reads plain_lib [([0, 0], 5)] sample_reader) (replicate 5 0) 2) =
     Returns ([0x63, 0x64, 0x65, 0x66, 0x67], 5, None)"
  by code_simp

lemma sample_bytes:
  "map (\<lambda>i. reader_byte plain_lib sample_reader (2 + i)) [0, 1, 2, 3, 4] =
     map Some [0x63, 0x64, 0x65, 0x66, 0x67]"
  by code_simp

theorem read_at_contract_witness:
  "longest_read plain_lib sample_reader 2 (replicate 5 0) [0x63, 0x64, 0x65, 0x66, 0x67] 5"
  using read_at_contract [OF sample_reader_opens sample_read] by simp

theorem read_at_complete_witness:
  "fst (read_at plain_lib (after_reads plain_lib [([0, 0], 5)] sample_reader) (replicate 5 0) 2) =
     Returns ([0x63, 0x64, 0x65, 0x66, 0x67], int (length (replicate 5 (0 :: u8))), None)"
proof (rule read_at_complete [OF sample_reader_opens])
  fix i :: nat
  assume "i < length (replicate 5 (0 :: u8))"
  then consider "i = 0" | "i = 1" | "i = 2" | "i = 3" | "i = 4" by force
  then show "reader_byte plain_lib sample_reader (2 + int i) = Some ([0x63, 0x64, 0x65, 0x66, 0x67] ! i)"
    using sample_bytes by cases simp_all
qed simp

theorem cache_transparent_witness:
  "fst (read_at plain_lib (after_reads plain_lib [([0, 0], 5)] sample_reader) (replicate 5 0) 2) =
   fst (read_at plain_lib (sample_reader\<lparr>ir_cache := None\<rparr>) (replicate 5 0) 2)"
  by (rule cache_transparent [OF sample_reader_opens])

theorem opened_reader_typed_witness:
  "reader_typed [sample_image] (after_reads plain_lib [([0, 0], 5)] sample_reader)"
  by (rule opened_reader_typed [OF sample_reader_opens])

end
