(* ===== verification/Device_Verify.thy ===== *)
theory Device_Verify
  imports Image_Read
begin

text \<open>
  \<open>verify.go\<close> and the \<open>Reader\<close> interface of \<open>api.go\<close>: hashing the whole decoded
  device, with zeros in place of what cannot be decoded, and comparing with the digests the
  image stores. A reader is a record of operations on a state; \<open>crypto/md5\<close> and
  \<open>crypto/sha1\<close> are functions of the bytes written to them, and the context is what
  \<open>ctx.Err()\<close> says at each pass of the loop.
\<close>

section \<open>Readers\<close>

record 'r reader_ops =
  op_read_at :: "'r \<Rightarrow> bytes \<Rightarrow> int \<Rightarrow> (bytes \<times> int \<times> gerr option) go \<times> 'r"
  op_size :: "'r \<Rightarrow> int"
  op_sector_size :: "'r \<Rightarrow> int"
  op_metadata :: "'r \<Rightarrow> info"
  op_close :: "'r \<Rightarrow> gerr option \<times> 'r"

definition image_ops :: "golib \<Rightarrow> image_reader reader_ops" where
  "image_ops lib =
     \<lparr>op_read_at = read_at lib, op_size = reader_size, op_sector_size = sector_size,
      op_metadata = ir_metadata, op_close = (\<lambda>r. (reader_close r, r))\<rparr>"

section \<open>The result\<close>

record bad_range =
  br_offset :: int
  br_length :: int
  br_err :: string

record verify_result =
  vr_size :: int
  vr_bytes_hashed :: int
  vr_has_md5 :: bool
  vr_stored_md5 :: bytes
  vr_computed_md5 :: bytes
  vr_md5_match :: bool
  vr_has_sha1 :: bool
  vr_stored_sha1 :: bytes
  vr_computed_sha1 :: bytes
  vr_sha1_match :: bool
  vr_bad :: "bad_range list"

definition vr_ok :: "verify_result \<Rightarrow> bool" where
  "vr_ok v =
     (if length (vr_bad v) > 0 then False
      else if \<not> vr_has_md5 v \<and> \<not> vr_has_sha1 v then False
      else if vr_has_md5 v \<and> \<not> vr_md5_match v then False
      else if vr_has_sha1 v \<and> \<not> vr_sha1_match v then False
      else True)"

section \<open>The loop\<close>

record digests =
  md5_sum :: "bytes \<Rightarrow> bytes"
  sha1_sum :: "bytes \<Rightarrow> bytes"

text \<open>The sink is the bytes both hashes have been fed so far.\<close>

function write_zeros :: "bytes \<Rightarrow> int \<Rightarrow> bytes" where
  "write_zeros sink n =
     (if 0 < n then
        let step = (if n < 32768 then n else 32768) in
        write_zeros (sink @ replicate (nat step) 0) (n - step)
      else sink)"
  by pat_completeness auto
termination
  by (relation "measure (\<lambda>(sink, n). nat n)") auto

declare write_zeros.simps [simp del]

record 'r verify_state =
  vs_reader :: 'r
  vs_buf :: bytes
  vs_sink :: bytes
  vs_hashed :: int
  vs_bad :: "bad_range list"

definition gap_message :: "gerr option \<Rightarrow> string" where
  "gap_message err = (case err of None \<Rightarrow> ''short read'' | Some e \<Rightarrow> err_text e)"

text \<open>What one pass does with the \<open>n\<close> bytes a read left at the start of the buffer.\<close>

definition account ::
  "int \<Rightarrow> int \<Rightarrow> int \<Rightarrow> gerr option \<Rightarrow> bytes \<Rightarrow> 'r verify_state \<Rightarrow> 'r verify_state" where
  "account want off n err fed st =
     (let hashed = (if 0 < n then i64 (vs_hashed st + n) else vs_hashed st); gap = want - n in
      if n < want
      then st\<lparr>vs_sink := write_zeros (vs_sink st @ fed) gap, vs_hashed := i64 (hashed + gap),
              vs_bad := vs_bad st @ [\<lparr>br_offset = i64 (off + n), br_length = gap, br_err = gap_message err\<rparr>]\<rparr>
      else st\<lparr>vs_sink := vs_sink st @ fed, vs_hashed := hashed\<rparr>)"

definition verify_span :: "'r reader_ops \<Rightarrow> int \<Rightarrow> int \<Rightarrow> 'r verify_state \<Rightarrow> 'r verify_state go" where
  "verify_span ops want off st =
     (case op_read_at ops (vs_reader st) (take (nat want) (vs_buf st)) off of
        (Panics, r') \<Rightarrow> Panics
      | (Returns (q, n, err), r') \<Rightarrow>
          (let buf = q @ drop (nat want) (vs_buf st) in
           go_bind (if 0 < n then slice_go buf 0 n else Returns [])
             (\<lambda>fed. Returns (account want off n err fed (st\<lparr>vs_reader := r', vs_buf := buf\<rparr>)))))"

text \<open>
  The offset grows by at least one at each pass; the code never has a step below one, so the
  guard on it is always true. \<open>off + want\<close> is at most the size and cannot overflow.
\<close>

function verify_loop ::
  "'r reader_ops \<Rightarrow> (nat \<Rightarrow> gerr option) \<Rightarrow> int \<Rightarrow> int \<Rightarrow> nat \<Rightarrow> int \<Rightarrow> 'r verify_state
     \<Rightarrow> (gerr option \<times> 'r verify_state) go" where
  "verify_loop ops ctx step dev pass off st =
     (if off < dev \<and> 0 < step then
        case ctx pass of
          Some e \<Rightarrow> Returns (Some e, st)
        | None \<Rightarrow>
            (let remaining = dev - off; want = (if remaining < step then remaining else step) in
             go_bind (verify_span ops want off st)
               (\<lambda>st'. verify_loop ops ctx step dev (Suc pass) (off + want) st'))
      else Returns (None, st))"
  by pat_completeness auto
termination
  by (relation "measure (\<lambda>(ops, ctx, step, dev, pass, off, st). nat (dev - off))") auto

declare verify_loop.simps [simp del]

definition verify_step :: "info \<Rightarrow> int" where
  "verify_step meta =
     (case inf_media meta of
        None \<Rightarrow> 2 ^ 20
      | Some m \<Rightarrow> (let cs = i64 (uint (mi_sectors_per_chunk m) * uint (mi_bytes_per_sector m)) in
                   if 0 < cs then cs else 2 ^ 20))"

definition verify_report :: "digests \<Rightarrow> info \<Rightarrow> int \<Rightarrow> 'r verify_state \<Rightarrow> verify_result" where
  "verify_report dg meta dev st =
     (let md5 = md5_sum dg (vs_sink st); sha1 = sha1_sum dg (vs_sink st);
          stored_md5 = (if inf_has_md5 meta then inf_md5 meta else []);
          stored_sha1 = (if inf_has_sha1 meta then inf_sha1 meta else []) in
      \<lparr>vr_size = dev, vr_bytes_hashed = vs_hashed st,
       vr_has_md5 = inf_has_md5 meta, vr_stored_md5 = stored_md5, vr_computed_md5 = md5,
       vr_md5_match = (inf_has_md5 meta \<and> stored_md5 = md5),
       vr_has_sha1 = inf_has_sha1 meta, vr_stored_sha1 = stored_sha1, vr_computed_sha1 = sha1,
       vr_sha1_match = (inf_has_sha1 meta \<and> stored_sha1 = sha1),
       vr_bad = vs_bad st\<rparr>)"

definition verify ::
  "'r reader_ops \<Rightarrow> digests \<Rightarrow> (nat \<Rightarrow> gerr option) \<Rightarrow> 'r \<Rightarrow> ((gerr + verify_result) \<times> 'r) go" where
  "verify ops dg ctx r =
     (let dev = op_size ops r; meta = op_metadata ops r; step = verify_step meta in
      if dev \<le> 0
      then Returns (Inl (wraps ''libewf: image has no logical size to verify'' ErrCorruptImage), r)
      else go_bind (verify_loop ops ctx step dev 0 0
                     \<lparr>vs_reader = r, vs_buf = replicate (nat step) 0, vs_sink = [], vs_hashed = 0, vs_bad = []\<rparr>)
             (\<lambda>res. Returns (case fst res of
                               Some e \<Rightarrow> Inl e
                             | None \<Rightarrow> Inr (verify_report dg meta dev (snd res)),
                             vs_reader (snd res))))"

section \<open>What is hashed\<close>

lemma write_zeros_eq: "write_zeros sink n = sink @ replicate (nat n) 0"
proof (induction sink n rule: write_zeros.induct)
  case (1 sink n)
  show ?case
    by (subst write_zeros.simps) (auto simp: Let_def 1 replicate_add [symmetric] nat_diff_distrib)
qed

definition covered :: "bad_range list \<Rightarrow> int \<Rightarrow> bool" where
  "covered bad i \<longleftrightarrow> list_ex (\<lambda>b. br_offset b \<le> i \<and> i < br_offset b + br_length b) bad"

text \<open>
  The bytes of a device up to an offset, with zeros in the ranges reported as bad, and
  what those ranges are: in order, apart, within the offset, each starting at a byte the
  device does not have.
\<close>

definition hashed_image :: "(int \<Rightarrow> u8 option) \<Rightarrow> bad_range list \<Rightarrow> int \<Rightarrow> bytes \<Rightarrow> bool" where
  "hashed_image byte bad off s \<longleftrightarrow>
     length s = nat off \<and>
     (\<forall>i < length s. if covered bad (int i) then s ! i = 0 else byte (int i) = Some (s ! i))"

definition ranges_ok :: "(int \<Rightarrow> u8 option) \<Rightarrow> bad_range list \<Rightarrow> int \<Rightarrow> bool" where
  "ranges_ok byte bad off \<longleftrightarrow>
     sorted_wrt (\<lambda>a b. br_offset a + br_length a \<le> br_offset b) bad \<and>
     list_all (\<lambda>b. 0 \<le> br_offset b \<and> 0 < br_length b \<and> br_offset b + br_length b \<le> off \<and>
                   byte (br_offset b) = None) bad"

definition longest_from :: "(int \<Rightarrow> u8 option) \<Rightarrow> int \<Rightarrow> bytes \<Rightarrow> bytes \<Rightarrow> int \<Rightarrow> bool" where
  "longest_from byte off p q m \<longleftrightarrow>
     0 \<le> m \<and> m \<le> int (length p) \<and> length q = length p \<and>
     (\<forall>i < length p. if int i < m then byte (off + int i) = Some (q ! i) else q ! i = p ! i) \<and>
     (m = int (length p) \<or> byte (off + m) = None)"

definition verify_inv :: "(int \<Rightarrow> u8 option) \<Rightarrow> int \<Rightarrow> int \<Rightarrow> 'r verify_state \<Rightarrow> bool" where
  "verify_inv byte step off st \<longleftrightarrow>
     length (vs_buf st) = nat step \<and> vs_hashed st = off \<and>
     hashed_image byte (vs_bad st) off (vs_sink st) \<and> ranges_ok byte (vs_bad st) off"

lemma covered_append: "covered (bad @ [b]) i \<longleftrightarrow> covered bad i \<or> br_offset b \<le> i \<and> i < br_offset b + br_length b"
  by (simp add: covered_def)

lemma covered_below: "ranges_ok byte bad off \<Longrightarrow> covered bad i \<Longrightarrow> i < off"
  by (force simp: ranges_ok_def covered_def list_ex_iff list_all_iff)

lemma hashed_image_extend:
  assumes "hashed_image byte bad off s" "0 \<le> off" "0 \<le> n" "n \<le> want" "length fed = nat n"
    and "\<And>i. i < length fed \<Longrightarrow> byte (off + int i) = Some (fed ! i)"
    and "\<And>i. covered bad i \<Longrightarrow> i < off"
    and "\<And>i. covered bad' i \<longleftrightarrow> covered bad i \<or> off + n \<le> i \<and> i < off + want"
  shows "hashed_image byte bad' (off + want) (s @ fed @ replicate (nat (want - n)) 0)"
proof -
  have len: "int (length s) = off" "int (length fed) = n"
    using assms by (simp_all add: hashed_image_def)
  have "if covered bad' (int i) then (s @ fed @ replicate (nat (want - n)) 0) ! i = 0
      else byte (int i) = Some ((s @ fed @ replicate (nat (want - n)) 0) ! i)"
    if i: "i < length s + length fed + nat (want - n)" for i
  proof -
    consider (old) "i < length s" | (new) "length s \<le> i" "i < length s + length fed"
      | (gap) "length s + length fed \<le> i"
      by linarith
    then show ?thesis
    proof cases
      case old
      then show ?thesis
        using assms(1) assms(8) [of "int i"] len by (simp add: hashed_image_def nth_append)
    next
      case new
      then have "\<not> covered bad' (int i)"
        using assms(7) [of "int i"] assms(8) [of "int i"] len by auto
      moreover have "i - length s < length fed"
        using new by linarith
      ultimately show ?thesis
        using new assms(6) [of "i - length s"] len by (simp add: nth_append of_nat_diff)
    next
      case gap
      then have "covered bad' (int i)"
        using i assms(4) assms(8) [of "int i"] len by auto
      moreover have "\<not> i - length s < length fed"
        using gap by linarith
      ultimately show ?thesis
        using gap i by (simp add: nth_append)
    qed
  qed
  then show ?thesis
    using len assms(2-4) by (simp add: hashed_image_def)
qed

lemma account_keeps:
  assumes inv: "verify_inv byte step off st" and read: "longest_from byte off p q n"
    and len: "int (length p) = want" "0 < want" "0 \<le> off" "off + want \<le> 9223372036854775807"
    and buf: "length (vs_buf st) = nat step" 
  shows "verify_inv byte step (off + want) (account want off n err (take (nat n) q) st)"
proof -
  have n: "0 \<le> n" "n \<le> want" "length (take (nat n) q) = nat n"
    using read len by (auto simp: longest_from_def)
  have h: "(if 0 < n then i64 (vs_hashed st + n) else vs_hashed st) = off + n"
    using inv n len by (simp add: verify_inv_def i64_nonneg_id)
  have fed: "byte (off + int i) = Some (take (nat n) q ! i)" if "i < length (take (nat n) q)" for i
  proof -
    have i: "int i < n" "i < length p"
      using that n len by auto
    then show ?thesis
      using read by (auto simp: longest_from_def)
  qed
  have below: "covered (vs_bad st) i \<Longrightarrow> i < off" for i
    using inv covered_below by (auto simp: verify_inv_def)
  have image: "hashed_image byte (vs_bad st) off (vs_sink st)" and ranges: "ranges_ok byte (vs_bad st) off"
    using inv by (simp_all add: verify_inv_def)
  show ?thesis
  proof (cases "n < want")
    case True
    let ?b = "\<lparr>br_offset = off + n, br_length = want - n, br_err = gap_message err\<rparr>"
    have a: "account want off n err (take (nat n) q) st =
        st\<lparr>vs_sink := vs_sink st @ take (nat n) q @ replicate (nat (want - n)) 0, vs_hashed := off + want,
           vs_bad := vs_bad st @ [?b]\<rparr>"
      using True n len by (simp add: account_def Let_def h write_zeros_eq i64_nonneg_id)
    have "hashed_image byte (vs_bad st @ [?b]) (off + want)
        (vs_sink st @ take (nat n) q @ replicate (nat (want - n)) 0)"
      by (rule hashed_image_extend [OF image len(3) n fed below]) (unfold covered_append, auto)
    moreover have "byte (off + n) = None"
      using read True len by (auto simp: longest_from_def)
    then have "ranges_ok byte (vs_bad st @ [?b]) (off + want)"
      using ranges True n len by (auto simp: ranges_ok_def sorted_wrt_append list_all_iff)
    ultimately show ?thesis
      using inv by (simp add: verify_inv_def a)
  next
    case False
    then have nw: "n = want"
      using n by simp
    have "hashed_image byte (vs_bad st) (off + want)
        (vs_sink st @ take (nat n) q @ replicate (nat (want - n)) 0)"
      by (rule hashed_image_extend [OF image len(3) n fed below]) (auto simp: nw)
    moreover have "ranges_ok byte (vs_bad st) (off + want)"
      using ranges len by (auto simp: ranges_ok_def list_all_iff)
    ultimately show ?thesis
      using inv len by (simp add: verify_inv_def account_def Let_def h nw i64_nonneg_id)
  qed
qed


section \<open>The context\<close>

text \<open>
  How the context ends a loop that asks it before each of its steps: at the first pass at
  which it is done and something is left to read, and not at all when there is none.
\<close>

definition stopped_at :: "(nat \<Rightarrow> gerr option) \<Rightarrow> int \<Rightarrow> int \<Rightarrow> nat \<Rightarrow> int \<Rightarrow> gerr option \<Rightarrow> bool" where
  "stopped_at ctx step dev pass off stopped \<longleftrightarrow>
     (case stopped of
        Some e \<Rightarrow> \<exists>k. ctx (pass + k) = Some e \<and> off + int k * step < dev \<and> (\<forall>j < k. ctx (pass + j) = None)
      | None \<Rightarrow> \<forall>k. off + int k * step < dev \<longrightarrow> ctx (pass + k) = None)"

lemma stopped_at_end:
  assumes "dev \<le> off" "0 < step"
  shows "stopped_at ctx step dev pass off None"
proof -
  have "0 \<le> int k * step" for k
    using assms(2) by simp
  then have "\<not> off + int k * step < dev" for k
    using assms(1) by (meson add_increasing2 leD order_trans)
  then show ?thesis
    by (simp add: stopped_at_def)
qed

lemma stopped_at_now: "ctx pass = Some e \<Longrightarrow> off < dev \<Longrightarrow> stopped_at ctx step dev pass off (Some e)"
  by (auto simp: stopped_at_def intro: exI [of _ 0])

lemma stopped_at_later:
  assumes later: "stopped_at ctx step dev (Suc pass) (off + (if dev - off < step then dev - off else step)) stopped"
    and "ctx pass = None" "0 < step"
  shows "stopped_at ctx step dev pass off stopped"
proof -
  have next_off: "off + (if dev - off < step then dev - off else step) + int k * step < dev \<longleftrightarrow> off + int (Suc k) * step < dev" for k
  proof -
    have "0 \<le> int k * step"
      using assms(3) by simp
    then show ?thesis
      by (auto simp: algebra_simps)
  qed
  have all: "(\<forall>j < Suc k. ctx (pass + j) = None) \<longleftrightarrow> (\<forall>j < k. ctx (Suc pass + j) = None)" for k
    using assms(2) by (auto simp: less_Suc_eq_0_disj)
  show ?thesis
  proof (cases stopped)
    case None
    have "ctx (pass + k) = None" if "off + int k * step < dev" for k
      using later [unfolded stopped_at_def next_off None] that assms(2) by (cases k) simp_all
    then show ?thesis
      by (simp add: stopped_at_def None)
  next
    case (Some e)
    then obtain k where "ctx (Suc pass + k) = Some e" "off + int (Suc k) * step < dev" "\<forall>j < k. ctx (Suc pass + j) = None"
      using later [unfolded stopped_at_def next_off] by auto
    then show ?thesis
      unfolding stopped_at_def Some option.case by (intro exI [of _ "Suc k"]) (simp only: all add_Suc_right add_Suc simp_thms)
  qed
qed

lemma verify_loop_context:
  assumes "verify_loop ops ctx step dev pass off st = Returns (stopped, st')" "0 < step"
  shows "stopped_at ctx step dev pass off stopped"
  using assms
proof (induction "nat (dev - off)" arbitrary: pass off st rule: less_induct)
  case less
  show ?case
  proof (cases "off < dev")
    case True
    let ?next = "off + (if dev - off < step then dev - off else step)"
    show ?thesis
    proof (cases "ctx pass")
      case None
      then obtain st1 where rest: "verify_loop ops ctx step dev (Suc pass) ?next st1 = Returns (stopped, st')"
        using less.prems True
        by (subst (asm) verify_loop.simps) (auto simp: Let_def go_bind_Returns_iff)
      have "nat (dev - ?next) < nat (dev - off)"
        using True less.prems(2) by auto
      from less.hyps [OF this rest less.prems(2)] None less.prems(2) show ?thesis
        by (rule stopped_at_later)
    next
      case (Some e)
      then show ?thesis
        using less.prems True stopped_at_now [of ctx pass e off dev] by (simp add: verify_loop.simps)
    qed
  next
    case False
    then show ?thesis
      using less.prems stopped_at_end by (simp add: verify_loop.simps)
  qed
qed

section \<open>What a report says\<close>

text \<open>
  What \<open>Verify\<close> reports on a device of \<open>dev\<close> bytes, which \<open>byte\<close> gives: the digests of the whole
  device with zeros in the ranges listed as bad, and a verdict that holds exactly when
  nothing was bad, at least one digest is stored and each that is stored is that of the
  device.
\<close>

definition report_on :: "digests \<Rightarrow> (int \<Rightarrow> u8 option) \<Rightarrow> int \<Rightarrow> info \<Rightarrow> verify_result \<Rightarrow> bool" where
  "report_on dg byte dev meta v \<longleftrightarrow>
     (\<exists>d. hashed_image byte (vr_bad v) dev d \<and> ranges_ok byte (vr_bad v) dev \<and>
        vr_size v = dev \<and> vr_bytes_hashed v = dev \<and>
        vr_computed_md5 v = md5_sum dg d \<and> vr_computed_sha1 v = sha1_sum dg d \<and>
        (vr_ok v \<longleftrightarrow>
           vr_bad v = [] \<and> (inf_has_md5 meta \<or> inf_has_sha1 meta) \<and>
           (if inf_has_md5 meta then inf_md5 meta = md5_sum dg d else True) \<and>
           (if inf_has_sha1 meta then inf_sha1 meta = sha1_sum dg d else True)))"

lemma verify_report_on:
  assumes "verify_inv byte step dev st"
  shows "report_on dg byte dev meta (verify_report dg meta dev st)"
  using assms by (auto simp: report_on_def verify_report_def verify_inv_def vr_ok_def Let_def intro!: exI [of _ "vs_sink st"])

definition verify_start :: "'r \<Rightarrow> int \<Rightarrow> 'r verify_state" where
  "verify_start r step = \<lparr>vs_reader = r, vs_buf = replicate (nat step) 0, vs_sink = [], vs_hashed = 0, vs_bad = []\<rparr>"

lemma verify_start_inv: "verify_inv byte step 0 (verify_start r step)"
  by (simp add: verify_start_def verify_inv_def hashed_image_def ranges_ok_def)

lemma verify_step_pos: "0 < verify_step meta"
  by (simp add: verify_step_def Let_def split: option.split)

text \<open>How a verification ends: no device, the context, or a report when the loop is through.\<close>

lemma verify_cases:
  assumes "verify ops dg ctx r = Returns (res, r')"
  obtains
    (empty) "op_size ops r \<le> 0" "res = Inl (wraps ''libewf: image has no logical size to verify'' ErrCorruptImage)" "r' = r"
  | (loop) stopped st where "0 < op_size ops r" "r' = vs_reader st"
      "verify_loop ops ctx (verify_step (op_metadata ops r)) (op_size ops r) 0 0
         (verify_start r (verify_step (op_metadata ops r))) = Returns (stopped, st)"
      "stopped_at ctx (verify_step (op_metadata ops r)) (op_size ops r) 0 0 stopped"
      "res = (case stopped of Some e \<Rightarrow> Inl e
                | None \<Rightarrow> Inr (verify_report dg (op_metadata ops r) (op_size ops r) st))"
proof (cases "op_size ops r \<le> 0")
  case True
  then show thesis
    using assms by (intro empty) (auto simp: verify_def Let_def)
next
  case False
  let ?step = "verify_step (op_metadata ops r)"
  obtain out where out: "verify_loop ops ctx ?step (op_size ops r) 0 0 (verify_start r ?step) = Returns out"
    "(case fst out of Some e \<Rightarrow> Inl e | None \<Rightarrow> Inr (verify_report dg (op_metadata ops r) (op_size ops r) (snd out)),
      vs_reader (snd out)) = (res, r')"
    using assms False by (auto simp: verify_def verify_start_def Let_def go_bind_Returns_iff)
  have l: "verify_loop ops ctx ?step (op_size ops r) 0 0 (verify_start r ?step) = Returns (fst out, snd out)"
    using out(1) by simp
  show thesis
    by (rule loop [OF _ _ l verify_loop_context [OF l verify_step_pos]]) (use False out(2) in simp_all)
qed

section \<open>The loop over any reader\<close>

text \<open>
  What \<open>Verify\<close> needs of a reader: a state that stays good and shows the same device after
  every read, and the contract of \<open>io.ReaderAt\<close> on that device.
\<close>

locale device_reader =
  fixes ops :: "'r reader_ops"
    and ok :: "'r \<Rightarrow> bool"
    and byte_at :: "'r \<Rightarrow> int \<Rightarrow> u8 option"
  assumes keeps: "ok r \<Longrightarrow> ok (snd (op_read_at ops r p off)) \<and> byte_at (snd (op_read_at ops r p off)) = byte_at r"
    and contract: "ok r \<Longrightarrow> fst (op_read_at ops r p off) = Returns (q, n, err) \<Longrightarrow> longest_from (byte_at r) off p q n"
    and total: "ok r \<Longrightarrow> fst (op_read_at ops r p off) = Panics
      \<Longrightarrow> \<exists>j. 0 \<le> j \<and> j < int (length p) \<and> byte_at r (off + j) = None"
begin

definition good :: "(int \<Rightarrow> u8 option) \<Rightarrow> int \<Rightarrow> int \<Rightarrow> 'r verify_state \<Rightarrow> bool" where
  "good byte step off st \<longleftrightarrow> ok (vs_reader st) \<and> byte_at (vs_reader st) = byte \<and> verify_inv byte step off st"

lemma span_keeps:
  assumes g: "good byte step off st" and run: "verify_span ops want off st = Returns st'"
    and b: "0 < want" "want \<le> step" "0 \<le> off" "off + want \<le> 9223372036854775807"
  shows "good byte step (off + want) st'"
proof -
  let ?p = "take (nat want) (vs_buf st)"
  obtain q n err r' where read: "op_read_at ops (vs_reader st) ?p off = (Returns (q, n, err), r')"
    using run by (auto simp: verify_span_def split: prod.splits go.splits)
  have ok: "ok (vs_reader st)" "byte_at (vs_reader st) = byte" and buf: "length (vs_buf st) = nat step"
    using g by (simp_all add: good_def verify_inv_def)
  have p: "int (length ?p) = want"
    using buf b by simp
  have l: "longest_from byte off ?p q n"
    using contract [OF ok(1), of ?p off q n err] read ok(2) by simp
  have r': "ok r'" "byte_at r' = byte"
    using keeps [OF ok(1), of ?p off] read ok(2) by simp_all
  let ?buf = "q @ drop (nat want) (vs_buf st)"
  have q: "length q = nat want" "0 \<le> n" "n \<le> want"
    using l p by (auto simp: longest_from_def)
  have fed: "(if 0 < n then slice_go ?buf 0 n else Returns []) = Returns (take (nat n) q)"
    using q by (auto simp: slice_go_def subslice_def)
  let ?st = "st\<lparr>vs_reader := r', vs_buf := ?buf\<rparr>"
  have st': "st' = account want off n err (take (nat n) q) ?st"
    using run read by (simp add: verify_span_def fed)
  have "length ?buf = nat step"
    using q buf b by simp
  moreover from this have "verify_inv byte step off ?st"
    using g by (simp add: good_def verify_inv_def)
  ultimately have "verify_inv byte step (off + want) st'"
    unfolding st' using account_keeps [OF _ l p b(1,3,4), of step ?st] by simp
  moreover have "vs_reader st' = r'"
    by (simp add: st' account_def Let_def)
  ultimately show ?thesis
    using r' by (simp add: good_def)
qed

text \<open>The loop keeps the state good as far as it came, which is the end unless it was stopped.\<close>

lemma loop_keeps:
  assumes "verify_loop ops ctx step dev pass off st = Returns (stopped, st')" "good byte step off st"
    and "0 < step" "0 \<le> off" "off \<le> dev" "dev \<le> 9223372036854775807"
  shows "\<exists>reached. good byte step reached st' \<and> (stopped = None \<longrightarrow> reached = dev)"
  using assms
proof (induction "nat (dev - off)" arbitrary: pass off st rule: less_induct)
  case less
  show ?case
  proof (cases "off < dev \<and> ctx pass = None")
    case True
    let ?want = "if dev - off < step then dev - off else step"
    obtain st1 where span: "verify_span ops ?want off st = Returns st1"
      and rest: "verify_loop ops ctx step dev (Suc pass) (off + ?want) st1 = Returns (stopped, st')"
      using less.prems(1) True less.prems(3)
      by (subst (asm) verify_loop.simps) (auto simp: Let_def go_bind_Returns_iff split: option.splits)
    have w: "0 < ?want" "?want \<le> step" "off + ?want \<le> dev"
      using True less.prems(3) by auto
    have "good byte step (off + ?want) st1"
      using span_keeps [OF less.prems(2) span w(1,2) less.prems(4)] w(3) less.prems(6) by linarith
    from less.hyps [OF _ rest this] show ?thesis
      using w less.prems by auto
  next
    case False
    then consider "off = dev" | e where "off < dev" "ctx pass = Some e"
      using less.prems(5) by fastforce
    then have "st' = st \<and> (stopped = None \<longrightarrow> off = dev)"
      by cases (use less.prems(1,3) in \<open>(simp_all add: verify_loop.simps [of ops ctx step dev pass], metis option.distinct(1))\<close>)
    then show ?thesis
      using less.prems(2) by blast
  qed
qed

lemma span_total:
  assumes g: "good byte step off st" and b: "0 < want" "want \<le> step"
    and whole: "\<And>j. 0 \<le> j \<Longrightarrow> j < want \<Longrightarrow> byte (off + j) \<noteq> None"
  shows "verify_span ops want off st \<noteq> Panics"
proof -
  let ?p = "take (nat want) (vs_buf st)"
  have ok: "ok (vs_reader st)" "byte_at (vs_reader st) = byte" and buf: "length (vs_buf st) = nat step"
    using g by (simp_all add: good_def verify_inv_def)
  have p: "int (length ?p) = want"
    using buf b by simp
  have "fst (op_read_at ops (vs_reader st) ?p off) \<noteq> Panics"
    using total [OF ok(1), of ?p off] whole p ok(2) by force
  then obtain q n err r' where read: "op_read_at ops (vs_reader st) ?p off = (Returns (q, n, err), r')"
    by (metis eq_fst_iff go.exhaust prod_cases3)
  have "longest_from byte off ?p q n"
    using contract [OF ok(1), of ?p off q n err] read ok(2) by simp
  then have "length q = nat want" "0 \<le> n" "n \<le> want"
    using p by (auto simp: longest_from_def)
  then show ?thesis
    using read by (simp add: verify_span_def slice_go_def Let_def)
qed

lemma loop_total:
  assumes "good byte step off st" "0 < step" "0 \<le> off" "dev \<le> 9223372036854775807"
    and "\<And>j. 0 \<le> j \<Longrightarrow> j < dev \<Longrightarrow> byte j \<noteq> None" "\<And>k. ctx k = None"
  shows "\<exists>st'. verify_loop ops ctx step dev pass off st = Returns (None, st')"
  using assms
proof (induction "nat (dev - off)" arbitrary: pass off st rule: less_induct)
  case less
  show ?case
  proof (cases "off < dev")
    case True
    let ?want = "if dev - off < step then dev - off else step"
    have w: "0 < ?want" "?want \<le> step" "off + ?want \<le> dev"
      using True less.prems(2) by auto
    have "verify_span ops ?want off st \<noteq> Panics"
      by (rule span_total [OF less.prems(1) w(1,2)]) (use less.prems(3,5) w(3) in auto)
    then obtain st1 where span: "verify_span ops ?want off st = Returns st1"
      by (cases "verify_span ops ?want off st") auto
    have "good byte step (off + ?want) st1"
      using span_keeps [OF less.prems(1) span w(1,2) less.prems(3)] w(3) less.prems(4) by linarith
    then have "\<exists>st'. verify_loop ops ctx step dev (Suc pass) (off + ?want) st1 = Returns (None, st')"
      by (intro less.hyps) (use w less.prems in auto)
    then show ?thesis
      using True less.prems(2,6) span by (subst verify_loop.simps) (auto simp: Let_def)
  next
    case False
    then show ?thesis
      by (simp add: verify_loop.simps)
  qed
qed

lemma good_start: "ok r \<Longrightarrow> good (byte_at r) step 0 (verify_start r step)"
  by (simp add: good_def verify_start_inv) (simp add: verify_start_def)

text \<open>
  The contract of \<open>Verify\<close>: whatever it returns, the reader is still good and shows the same
  device, and a report it returns is right about that device. On a device without damage
  it does return one, unless the context stops it.
\<close>

lemma verify_contract:
  assumes "ok r" "op_size ops r \<le> 9223372036854775807" "verify ops dg ctx r = Returns (res, r')"
  shows "ok r' \<and> byte_at r' = byte_at r \<and>
    (case res of
       Inl e \<Rightarrow> op_size ops r \<le> 0 \<and> e = wraps ''libewf: image has no logical size to verify'' ErrCorruptImage
         \<or> stopped_at ctx (verify_step (op_metadata ops r)) (op_size ops r) 0 0 (Some e)
     | Inr v \<Rightarrow> 0 < op_size ops r \<and> stopped_at ctx (verify_step (op_metadata ops r)) (op_size ops r) 0 0 None
         \<and> report_on dg (byte_at r) (op_size ops r) (op_metadata ops r) v)"
  using assms(3)
proof (cases rule: verify_cases)
  case empty
  then show ?thesis
    using assms(1) by simp
next
  case (loop stopped st)
  obtain reached where g: "good (byte_at r) (verify_step (op_metadata ops r)) reached st"
    "stopped = None \<Longrightarrow> reached = op_size ops r"
    using loop_keeps [OF loop(3) good_start [OF assms(1)] verify_step_pos] loop(1) assms(2) by auto
  have "report_on dg (byte_at r) (op_size ops r) (op_metadata ops r) (verify_report dg (op_metadata ops r) (op_size ops r) st)"
    if "stopped = None"
    using g that by (intro verify_report_on [of _ "verify_step (op_metadata ops r)"]) (simp add: good_def)
  then show ?thesis
    using g(1) loop by (cases stopped) (simp_all add: good_def)
qed

lemma verify_returns:
  assumes "ok r" "0 < op_size ops r" "op_size ops r \<le> 9223372036854775807"
    and "\<And>j. 0 \<le> j \<Longrightarrow> j < op_size ops r \<Longrightarrow> byte_at r j \<noteq> None" "\<And>k. ctx k = None"
  shows "\<exists>v r'. verify ops dg ctx r = Returns (Inr v, r')"
proof -
  let ?step = "verify_step (op_metadata ops r)"
  have "\<exists>st. verify_loop ops ctx ?step (op_size ops r) 0 0 (verify_start r ?step) = Returns (None, st)"
    by (rule loop_total [OF good_start [OF assms(1)] verify_step_pos]) (use assms(3-5) in auto)
  then show ?thesis
    using assms(2) by (auto simp: verify_def verify_start_def Let_def)
qed

end


section \<open>The reader of an opened image\<close>

lemma longest_read_from: "longest_read lib r = longest_from (reader_byte lib r)"
  by (simp add: longest_read_def longest_from_def fun_eq_iff)

lemma read_at_panics_short:
  assumes "reader_ok lib r" "fst (read_at lib r p off) = Panics"
  shows "\<exists>j. 0 \<le> j \<and> j < int (length p) \<and> reader_byte lib r (off + j) = None"
proof -
  obtain j where j: "0 \<le> j" "j < wanted r p off" "\<not> guarded r p off"
      "decode_chunk lib r ((off + j) div ir_chunk_size r) = Panics"
    using read_at_panics [OF assms] by blast
  then have "reader_byte lib r (off + j) = None"
    unfolding unguarded_byte [OF j(3,1,2)] device_byte_def by simp
  moreover have "j < int (length p)"
    using j(2) by (simp add: wanted_def)
  ultimately show ?thesis
    using j(1) by blast
qed

interpretation image: device_reader "image_ops lib" "reader_ok lib" "reader_byte lib"
proof
  fix r p off q n err
  assume ok: "reader_ok lib r"
  show "reader_ok lib (snd (op_read_at (image_ops lib) r p off)) \<and>
      reader_byte lib (snd (op_read_at (image_ops lib) r p off)) = reader_byte lib r"
    using read_at_keeps [OF ok, of p off] by (auto simp: image_ops_def)
  show "longest_from (reader_byte lib r) off p q n" if "fst (op_read_at (image_ops lib) r p off) = Returns (q, n, err)"
    using read_at_result [OF ok, of p off q n err] that by (simp add: image_ops_def longest_read_from)
  show "\<exists>j. 0 \<le> j \<and> j < int (length p) \<and> reader_byte lib r (off + j) = None"
    if "fst (op_read_at (image_ops lib) r p off) = Panics"
    using read_at_panics_short [OF ok, of p off] that by (simp add: image_ops_def)
qed

text \<open>A finished verification of a good reader.\<close>

lemma verify_finished:
  assumes "reader_ok lib r" "verify (image_ops lib) dg ctx r = Returns (Inr res, r')"
  shows "0 < ir_logical_size r" "report_on dg (reader_byte lib r) (ir_logical_size r) (ir_metadata r) res"
  using image.verify_contract [OF assms(1) _ assms(2)] assms(1) by (simp_all add: reader_ok_def image_ops_def reader_size_def)

section \<open>Properties\<close>

definition device_is :: "golib \<Rightarrow> image_reader \<Rightarrow> bytes \<Rightarrow> bool" where
  "device_is lib r d \<longleftrightarrow>
     int (length d) = ir_logical_size r \<and> list_all (\<lambda>i. reader_byte lib r (int i) = Some (d ! i)) [0..<length d]"

lemma device_is_nth: "device_is lib r d \<Longrightarrow> i < length d \<Longrightarrow> reader_byte lib r (int i) = Some (d ! i)"
  by (simp add: device_is_def list_all_iff)

lemma device_is_in:
  assumes "device_is lib r d" "0 \<le> j" "j < ir_logical_size r"
  shows "reader_byte lib r j \<noteq> None"
proof -
  have "nat j < length d"
    using assms unfolding device_is_def by linarith
  then show ?thesis
    using device_is_nth [OF assms(1), of "nat j"] assms(2) by simp
qed

lemma device_is_unique: "device_is lib r d \<Longrightarrow> device_is lib r d' \<Longrightarrow> d = d'"
  by (rule nth_equalityI) (auto simp: device_is_def list_all_iff)

text \<open>A device without damage is read in full, with \<open>EOF\<close> at its end and no other error.\<close>

lemma read_at_readable:
  assumes ok: "reader_ok lib r" and d: "device_is lib r d" and p: "p \<noteq> []"
    and off: "0 \<le> off" "off < int (length d)"
  shows "\<exists>q m err. fst (read_at lib r p off) = Returns (q, m, err) \<and> (err = None \<or> err = Some EOF) \<and>
    m = int (min (length p) (length d - nat off)) \<and> length q = length p \<and>
    take (nat m) q = take (length p) (drop (nat off) d)"
proof -
  let ?cs = "ir_chunk_size r" and ?n = "length (ir_chunk_table r)" and ?dec = "decode_chunk lib r"
  let ?want = "wanted r p off"
  let ?loop = "fst (read_loop (fetch_plain ?dec) ?cs ?n off ?want p 0 ())"
  have size: "ir_logical_size r = int (length d)"
    using d by (simp add: device_is_def)
  have some: "reader_byte lib r off \<noteq> None"
    by (rule device_is_in [OF d]) (use off size in auto)
  then have g: "\<not> guarded r p off"
    using p off size by (auto simp: guarded_def reader_byte_def device_byte_def pos_imp_zdiv_nonneg_iff split: if_splits)
  note w = unguarded_wanted [OF ok g]
  note res = read_loop_result [OF filled_start w(4,5,1,2,3), of ?dec ?n]
  have byte: "device_byte ?dec ?cs ?n (off + j) = Some (d ! nat (off + j))" if "0 \<le> j" "j < ?want" for j
    using unguarded_byte [OF g that, of lib] device_is_nth [OF d, of "nat (off + j)"] that w(5,6) size by auto
  have "?loop \<noteq> Panics"
  proof
    assume "?loop = Panics"
    with res obtain j where "0 \<le> j" "j < ?want" "?dec ((off + j) div ?cs) = Panics"
      by auto
    then show False
      using byte [of j] by (simp add: device_byte_def split: if_splits)
  qed
  then obtain q m e where loop: "?loop = Returns (q, m, e)"
    by (metis go.exhaust prod_cases3)
  have f: "filled ?dec ?cs ?n off p m q" "m \<le> ?want" "if e = None then m = ?want else
      m < ?want \<and> device_byte ?dec ?cs ?n (off + m) = None"
    using res loop by simp_all
  have m: "0 \<le> m" "length q = length p"
    using f(1) by (simp_all add: filled_def)
  have e: "e = None" "m = ?want"
    using f(3) byte [of m] m by (auto split: if_splits)
  have len: "m = int (min (length p) (length d - nat off))"
    using e(2) size off by (simp add: wanted_def min_def) linarith
  have bytes: "take (nat m) q = take (length p) (drop (nat off) d)"
  proof (rule nth_equalityI)
    show "length (take (nat m) q) = length (take (length p) (drop (nat off) d))"
      using len m by (simp add: min.commute)
    fix i
    assume "i < length (take (nat m) q)"
    then have i: "i < nat m" "i < length p" "i < length d - nat off"
      using len m by auto
    then have "device_byte ?dec ?cs ?n (off + int i) = Some (q ! i)"
      using f(1) by (auto simp: filled_def)
    then have "q ! i = d ! nat (off + int i)"
      using byte [of "int i"] i(1) e(2) by auto
    also have "nat (off + int i) = nat off + i"
      using off by simp
    finally show "take (nat m) q ! i = take (length p) (drop (nat off) d) ! i"
      using i by simp
  qed
  have "fst (read_at lib r p off) = Returns (finish_read (q, m, None))"
    using read_at_loop [OF ok g] loop e by simp
  then show ?thesis
    using len m(2) bytes unfolding finish_read_parts by auto
qed

lemma device_kept:
  assumes "reader_ok lib r" "device_is lib r d"
  shows "reader_ok lib (snd (read_at lib r p off)) \<and> device_is lib (snd (read_at lib r p off)) d"
  using read_at_keeps [OF assms(1), of p off] assms(2) by (auto simp: device_is_def)

lemma hashed_whole:
  assumes "hashed_image (reader_byte lib r) bad (ir_logical_size r) s" "0 < ir_logical_size r"
    and "ranges_ok (reader_byte lib r) bad (ir_logical_size r)"
  shows "bad = [] \<longleftrightarrow> device_is lib r s" and "bad \<noteq> [] \<Longrightarrow> \<not> device_is lib r d"
proof -
  have none: "\<not> device_is lib r d" if "bad \<noteq> []" for d
  proof
    assume d: "device_is lib r d"
    obtain b bs where b: "bad = b # bs"
      using \<open>bad \<noteq> []\<close> by (meson neq_Nil_conv)
    then have "0 \<le> br_offset b" "br_offset b < ir_logical_size r" "reader_byte lib r (br_offset b) = None"
      using assms(3) by (auto simp: ranges_ok_def)
    then show False
      using device_is_in [OF d] by simp
  qed
  have "device_is lib r s" if "bad = []"
    using assms(1,2) that by (simp add: hashed_image_def device_is_def covered_def list_all_iff)
  with none show "bad = [] \<longleftrightarrow> device_is lib r s" "bad \<noteq> [] \<Longrightarrow> \<not> device_is lib r d"
    by blast+
qed

lemma after_reads_device:
  assumes "open_segments_with_options lib sources opts = Inr r"
  shows "reader_ok lib (after_reads lib earlier r)" "ir_logical_size (after_reads lib earlier r) = ir_logical_size r"
    "ir_metadata (after_reads lib earlier r) = ir_metadata r"
    "reader_byte lib (after_reads lib earlier r) = reader_byte lib r"
  using after_reads_keeps [OF opened_reader_ok [OF assms], of earlier] by auto

text \<open>
  C16. Whatever is damaged, a verification that returns has hashed exactly as many bytes as
  the device has: the device's own bytes, and zeros in the ranges it reports, which are in
  order, apart, inside the device and start at a byte that cannot be read.
\<close>

theorem verify_hashes_device:
  assumes "open_segments_with_options lib sources opts = Inr r"
    and "verify (image_ops lib) dg ctx (after_reads lib earlier r) = Returns (Inr res, r')"
  shows "\<exists>s. hashed_image (reader_byte lib r) (vr_bad res) (vr_size res) s
    \<and> ranges_ok (reader_byte lib r) (vr_bad res) (vr_size res)
    \<and> vr_size res = ir_logical_size r \<and> vr_bytes_hashed res = ir_logical_size r
    \<and> vr_computed_md5 res = md5_sum dg s \<and> vr_computed_sha1 res = sha1_sum dg s"
  using verify_finished(2) [OF after_reads_device(1) [OF assms(1)] assms(2)]
  unfolding report_on_def after_reads_device [OF assms(1)] by metis

lemma verify_ok_exact:
  assumes "open_segments_with_options lib sources opts = Inr r"
    and "verify (image_ops lib) dg ctx (after_reads lib earlier r) = Returns (Inr res, r')"
  shows "vr_ok res \<longleftrightarrow>
    (\<exists>d. device_is lib r d \<and> (inf_has_md5 (ir_metadata r) \<or> inf_has_sha1 (ir_metadata r))
       \<and> (if inf_has_md5 (ir_metadata r) then inf_md5 (ir_metadata r) = md5_sum dg d else True)
       \<and> (if inf_has_sha1 (ir_metadata r) then inf_sha1 (ir_metadata r) = sha1_sum dg d else True))"
proof -
  note same = after_reads_device [OF assms(1), of earlier]
  obtain s where s: "0 < ir_logical_size r" "hashed_image (reader_byte lib r) (vr_bad res) (ir_logical_size r) s"
    "ranges_ok (reader_byte lib r) (vr_bad res) (ir_logical_size r)"
    and ok: "vr_ok res \<longleftrightarrow> vr_bad res = [] \<and> (inf_has_md5 (ir_metadata r) \<or> inf_has_sha1 (ir_metadata r))
       \<and> (if inf_has_md5 (ir_metadata r) then inf_md5 (ir_metadata r) = md5_sum dg s else True)
       \<and> (if inf_has_sha1 (ir_metadata r) then inf_sha1 (ir_metadata r) = sha1_sum dg s else True)"
    using verify_finished [OF same(1) assms(2)] unfolding report_on_def same by metis
  show ?thesis
  proof (cases "vr_bad res = []")
    case True
    then have d: "device_is lib r s"
      using hashed_whole(1) [OF s(2,1,3)] by blast
    have "device_is lib r d \<longleftrightarrow> d = s" for d
      using device_is_unique d by blast
    then show ?thesis
      unfolding ok by (simp add: True)
  next
    case False
    then show ?thesis
      unfolding ok using hashed_whole(2) [OF s(2,1,3) False] by simp
  qed
qed

text \<open>
  C15. \<open>OK\<close> means what it says: it holds exactly when every byte of the device decodes, the
  image stores at least one digest, and each digest it stores is that of the device.
\<close>

theorem verify_ok_iff:
  assumes "open_segments_with_options lib sources opts = Inr r"
    and "verify (image_ops lib) dg ctx (after_reads lib earlier r) = Returns (Inr res, r')"
  shows "vr_ok res \<longleftrightarrow>
    (\<exists>d. device_is lib r d \<and> (inf_has_md5 (ir_metadata r) \<or> inf_has_sha1 (ir_metadata r))
       \<and> (if inf_has_md5 (ir_metadata r) then inf_md5 (ir_metadata r) = md5_sum dg d else True)
       \<and> (if inf_has_sha1 (ir_metadata r) then inf_sha1 (ir_metadata r) = sha1_sum dg d else True))"
  using assms by (rule verify_ok_exact)

lemma verify_total:
  assumes "open_segments_with_options lib sources opts = Inr r"
    and "device_is lib r d" "d \<noteq> []" "ctx = (\<lambda>pass. None)"
  shows "\<exists>res r'. verify (image_ops lib) dg ctx (after_reads lib earlier r) = Returns (Inr res, r')
    \<and> vr_bad res = [] \<and> vr_computed_md5 res = md5_sum dg d \<and> vr_computed_sha1 res = sha1_sum dg d"
proof -
  note same = after_reads_device [OF assms(1), of earlier]
  let ?r = "after_reads lib earlier r"
  have pos: "0 < ir_logical_size r"
    using assms(2,3) unfolding device_is_def by (metis length_greater_0_conv of_nat_0_less_iff)
  have "reader_byte lib ?r j \<noteq> None" if "0 \<le> j" "j < ir_logical_size r" for j
    using device_is_in [OF assms(2) that] same(4) by simp
  then obtain res r' where run: "verify (image_ops lib) dg ctx ?r = Returns (Inr res, r')"
    using image.verify_returns [OF same(1), of ctx dg] same(1,2) pos assms(4)
    by (auto simp: reader_ok_def image_ops_def reader_size_def)
  obtain s where s: "hashed_image (reader_byte lib r) (vr_bad res) (ir_logical_size r) s"
    "ranges_ok (reader_byte lib r) (vr_bad res) (ir_logical_size r)"
    "vr_computed_md5 res = md5_sum dg s" "vr_computed_sha1 res = sha1_sum dg s"
    using verify_finished(2) [OF same(1) run] unfolding report_on_def same by metis
  have bad: "vr_bad res = []"
    using hashed_whole(2) [OF s(1) pos s(2)] assms(2) by blast
  then have "s = d"
    using hashed_whole(1) [OF s(1) pos s(2)] device_is_unique assms(2) by blast
  then show ?thesis
    using run bad s(3,4) by blast
qed

text \<open>
  C17. An undamaged image verifies without an error or a panic, whatever was read before: no
  range is reported and the digests are those of the device.
\<close>

theorem verify_intact:
  assumes "open_segments_with_options lib sources opts = Inr r"
    and "device_is lib r d" "d \<noteq> []" "ctx = (\<lambda>pass. None)"
  shows "\<exists>res r'. verify (image_ops lib) dg ctx (after_reads lib earlier r) = Returns (Inr res, r')
    \<and> vr_bad res = [] \<and> vr_computed_md5 res = md5_sum dg d \<and> vr_computed_sha1 res = sha1_sum dg d"
  using assms by (rule verify_total)

text \<open>A source kept as pages, and an image with a stored MD5 in it.\<close>

fun read_pages :: "(int \<times> bytes) list \<Rightarrow> int \<Rightarrow> nat \<Rightarrow> bytes" where
  "read_pages [] off n = []"
| "read_pages (p # ps) off n =
     (if fst p \<le> off then read_pages ps (off - fst p) n
      else let got = take n (drop (nat off) (snd p)) in
           if length got < n then got @ read_pages ps 0 (n - length got) else got)"

definition paged_source :: "bytes list \<Rightarrow> io_source" where
  "paged_source pages =
     \<lparr>src_read = (\<lambda>n off. if off < 0 then ([], Some (Plain ''negative offset''))
        else let bs = read_pages (map (\<lambda>p. (int (length p), p)) pages) off n in
             (bs, if length bs < n then Some EOF else None)),
      src_probe = LenMethod (int (length (concat pages)))\<rparr>"

definition sample_digest :: bytes where
  "sample_digest = map word_of_int [0x61, 0x62, 0x63, 0x64, 0x65, 0x66, 0x67, 0x68, 0, 0, 0, 0, 0, 0, 0, 0]"

definition sample_hashed :: io_source where
  "sample_hashed = paged_source [
     encode_header_v1 FileEWF1 1,
     encode_descriptor_v1 ''volume'' 183 170, sample_volume,
     encode_descriptor_v1 ''sectors'' 275 92, sample_chunks,
     encode_descriptor_v1 ''table'' 387 112, encode_table_v1 0 [259, 267],
     encode_descriptor_v1 ''hash'' 499 112,
     sample_digest @ replicate 16 0 @ put32 (adler32 (sample_digest @ replicate 16 0)),
     encode_descriptor_v1 ''done'' 499 76]"

definition sample_digests :: digests where
  "sample_digests = \<lparr>md5_sum = (\<lambda>b. b @ replicate 8 0), sha1_sum = (\<lambda>b. b)\<rparr>"

definition hashed_reader :: image_reader where
  "hashed_reader = projr (open_segments_with_options plain_lib [sample_hashed] default_options)"

lemma hashed_reader_opens:
  "open_segments_with_options plain_lib [sample_hashed] default_options = Inr hashed_reader"
proof -
  have "opens (open_segments_with_options plain_lib [sample_hashed] default_options)" by code_simp
  then show ?thesis using opens_Inr hashed_reader_def by (metis sum.sel(2))
qed

definition image_facts ::
  "golib \<Rightarrow> image_reader \<Rightarrow> int \<times> bool \<times> bool \<times> bytes \<times> (bytes \<times> int \<times> gerr option) go" where
  "image_facts lib r =
     (ir_logical_size r, inf_has_md5 (ir_metadata r), inf_has_sha1 (ir_metadata r), inf_md5 (ir_metadata r),
      fst (read_at lib r (replicate 8 0) 0))"

lemma hashed_reader_facts:
  "image_facts plain_lib hashed_reader = (8, True, False, sample_digest, Returns (take 8 sample_digest, 8, None))"
  by code_simp

lemma hashed_device: "device_is plain_lib hashed_reader (take 8 sample_digest)"
proof -
  have r: "fst (read_at plain_lib hashed_reader (replicate 8 0) 0) = Returns (take 8 sample_digest, 8, None)"
    and n: "ir_logical_size hashed_reader = 8"
    using hashed_reader_facts by (simp_all add: image_facts_def)
  have "longest_read plain_lib hashed_reader 0 (replicate 8 0) (take 8 sample_digest) 8"
    using read_at_result [OF opened_reader_ok [OF hashed_reader_opens] r] by blast
  then show ?thesis
    using n by (auto simp: longest_read_def device_is_def list_all_iff)
qed

lemma sample_digest_facts:
  "take 8 sample_digest \<noteq> []" "md5_sum sample_digests (take 8 sample_digest) = sample_digest"
  by code_simp+

theorem verify_intact_witness:
  "\<exists>res r'. verify (image_ops plain_lib) sample_digests (\<lambda>pass. None) (after_reads plain_lib [([0], 3)] hashed_reader)
     = Returns (Inr res, r')
    \<and> vr_bad res = [] \<and> vr_computed_md5 res = sample_digest"
  using verify_intact [OF hashed_reader_opens hashed_device sample_digest_facts(1) refl, of sample_digests "[([0], 3)]"]
  unfolding sample_digest_facts(2) by blast

lemma hashed_verifies:
  obtains res r' where "verify (image_ops plain_lib) sample_digests (\<lambda>pass. None) (after_reads plain_lib [] hashed_reader)
    = Returns (Inr res, r')" "vr_bad res = []"
  using verify_total [OF hashed_reader_opens hashed_device sample_digest_facts(1) refl] by metis

theorem verify_ok_iff_witness:
  "\<exists>res r'. verify (image_ops plain_lib) sample_digests (\<lambda>pass. None) (after_reads plain_lib [] hashed_reader)
     = Returns (Inr res, r') \<and> vr_ok res"
proof -
  obtain res r' where v: "verify (image_ops plain_lib) sample_digests (\<lambda>pass. None)
      (after_reads plain_lib [] hashed_reader) = Returns (Inr res, r')"
    by (rule hashed_verifies)
  have "inf_has_md5 (ir_metadata hashed_reader)" "\<not> inf_has_sha1 (ir_metadata hashed_reader)"
    "inf_md5 (ir_metadata hashed_reader) = md5_sum sample_digests (take 8 sample_digest)"
    using hashed_reader_facts by (simp_all add: image_facts_def sample_digest_facts)
  then have "vr_ok res"
    using verify_ok_iff [OF hashed_reader_opens v] hashed_device by auto
  then show ?thesis
    using v by blast
qed

theorem verify_hashes_device_witness:
  "\<exists>(res :: verify_result) s. hashed_image (reader_byte plain_lib hashed_reader) (vr_bad res) 8 s \<and> vr_computed_sha1 res = s
     \<and> vr_bytes_hashed res = 8"
proof -
  obtain res r' where v: "verify (image_ops plain_lib) sample_digests (\<lambda>pass. None)
      (after_reads plain_lib [] hashed_reader) = Returns (Inr res, r')"
    by (rule hashed_verifies)
  have n: "ir_logical_size hashed_reader = 8"
    using hashed_reader_facts by (simp add: image_facts_def)
  obtain s where "hashed_image (reader_byte plain_lib hashed_reader) (vr_bad res) (vr_size res) s"
    "vr_size res = 8" "vr_bytes_hashed res = 8" "vr_computed_sha1 res = sha1_sum sample_digests s"
    using verify_hashes_device [OF hashed_reader_opens v] unfolding n by blast
  moreover have "sha1_sum sample_digests s = s"
    by (simp add: sample_digests_def)
  ultimately show ?thesis
    by metis
qed

end
