(* ===== verification/Seg_Names.thy ===== *)
theory Seg_Names
  imports Go_Text "HOL-Library.AList"
begin

text \<open>
  \<open>internal/segname/segname.go\<close>: the names of the files of a segment set, and the
  discovery of a set in a directory. The operating system is a record of the calls the
  code makes; a Go byte of a name is a character, its arithmetic is on the code.
\<close>

section \<open>Letters and digits\<close>

abbreviation code :: "char \<Rightarrow> int" where
  "code c \<equiv> of_char c"

definition is_digit :: "char \<Rightarrow> bool" where
  "is_digit c \<longleftrightarrow> 48 \<le> code c \<and> code c \<le> 57"

definition is_upper :: "char \<Rightarrow> bool" where
  "is_upper c \<longleftrightarrow> 65 \<le> code c \<and> code c \<le> 90"

definition is_letter :: "char \<Rightarrow> bool" where
  "is_letter c \<longleftrightarrow> is_upper c \<or> 97 \<le> code c \<and> code c \<le> 122"

definition lower_char :: "char \<Rightarrow> char" where
  "lower_char c = (if is_upper c then char_of (code c + 32) else c)"

definition upper_char :: "char \<Rightarrow> char" where
  "upper_char c = (if 97 \<le> code c \<and> code c \<le> 122 then char_of (code c - 32) else c)"

section \<open>Families and extensions\<close>

record family =
  fam_base :: char
  fam_v2 :: bool

definition zero_family :: family where
  "zero_family = \<lparr>fam_base = CHR 0x00, fam_v2 = False\<rparr>"

definition letter_base :: u32 where [go_defs]: "letter_base = 100"
definition letters_per_leading :: u32 where [go_defs]: "letters_per_leading = 676"
definition max_numeric :: u32 where [go_defs]: "max_numeric = 99"
definition v2_marker :: char where [go_defs]: "v2_marker = CHR ''x''"

definition family_valid :: "family \<Rightarrow> bool" where
  "family_valid f \<longleftrightarrow> lower_char (fam_base f) \<in> {CHR ''e'', CHR ''l'', CHR ''s''}"

definition split_ext :: "string \<Rightarrow> (family \<times> string) option" where
  "split_ext ext =
     (case ext of
        dot # base # rest \<Rightarrow>
          (if dot \<noteq> CHR ''.'' \<or> \<not> is_letter base then None
           else if length rest = 2 then Some (\<lparr>fam_base = base, fam_v2 = False\<rparr>, rest)
           else if length rest = 3 \<and> lower_char (hd rest) = CHR ''x''
           then Some (\<lparr>fam_base = base, fam_v2 = True\<rparr>, tl rest)
           else None)
      | _ \<Rightarrow> None)"

definition field_number :: "string \<Rightarrow> u32 \<Rightarrow> u32 option" where
  "field_number field carry =
     (case field of
        [a, b] \<Rightarrow>
          (if is_digit a \<and> is_digit b then
             (if carry \<noteq> 0 then None
              else let n = word_of_int (code a - 48) * 10 + word_of_int (code b - 48) in
                   if n = 0 then None else Some n)
           else if is_letter a \<and> is_letter b then
             Some (letter_base + carry * letters_per_leading
                   + 26 * word_of_int (code (upper_char a) - 65) + word_of_int (code (upper_char b) - 65))
           else None)
      | _ \<Rightarrow> None)"

definition parse_family :: "string \<Rightarrow> (family \<times> u32) option" where
  "parse_family ext =
     (case split_ext ext of
        None \<Rightarrow> None
      | Some (family, field) \<Rightarrow>
          (if \<not> family_valid family then None
           else case field_number field 0 of None \<Rightarrow> None | Some n \<Rightarrow> Some (family, n)))"

definition family_number :: "family \<Rightarrow> string \<Rightarrow> u32 option" where
  "family_number f ext =
     (if \<not> family_valid f then None
      else case split_ext ext of
             None \<Rightarrow> None
           | Some (other, field) \<Rightarrow>
               (if fam_v2 other \<noteq> fam_v2 f then None
                else let carry = code (upper_char (fam_base other)) - code (upper_char (fam_base f)) in
                     if carry < 0 then None else field_number field (word_of_int carry)))"

text \<open>\<open>%02d\<close> of a number below 100.\<close>

definition two_digits :: "u32 \<Rightarrow> string" where
  "two_digits n = [char_of (48 + uint n div 10), char_of (48 + uint n mod 10)]"

definition marker :: "family \<Rightarrow> string" where
  "marker f = (if fam_v2 f then [v2_marker] else [])"

definition family_string :: "family \<Rightarrow> string" where
  "family_string f =
     (if \<not> family_valid f then ''<none>''
      else if fam_v2 f then [CHR ''.'', fam_base f, v2_marker]
      else [CHR ''.'', fam_base f])"

definition family_ext :: "family \<Rightarrow> u32 \<Rightarrow> gerr + string" where
  "family_ext f n =
     (if \<not> family_valid f then Inl (Plain (''segname: cannot name segment '' @ dec_of_nat (unat n) @ '' without a family''))
      else if n = 0 then Inl (Plain ''segname: segment 0 does not exist'')
      else if n \<le> max_numeric then Inr (CHR ''.'' # fam_base f # marker f @ two_digits n)
      else let offset = n - letter_base;
               carry = offset div letters_per_leading in
           if 90 < code (upper_char (fam_base f)) + uint carry
           then Inl (Plain (''segname: segment '' @ dec_of_nat (unat n) @ '' is beyond the naming range of a ''
                           @ family_string f @ '' set''))
           else let rest = offset mod letters_per_leading;
                    alpha = (if \<not> is_upper (fam_base f) then 97 else 65) in
                Inr (CHR ''.'' # char_of (code (fam_base f) + uint carry) # marker f
                     @ [char_of (alpha + uint (rest div 26)), char_of (alpha + uint (rest mod 26))]))"

section \<open>Segment sets\<close>

record segment_file =
  sf_number :: u32
  sf_path :: string

record segment_set =
  set_family :: family
  set_dir :: string
  set_stem :: string
  set_segments :: "segment_file list"

definition set_paths :: "segment_set \<Rightarrow> string list" where
  "set_paths s = map sf_path (set_segments s)"

definition set_numbers :: "segment_set \<Rightarrow> u32 list" where
  "set_numbers s = map sf_number (set_segments s)"

text \<open>
  What discovery asks the operating system: \<open>os.Stat\<close> (which follows links),
  \<open>os.ReadDir\<close> with the type of each entry, and \<open>strings.EqualFold\<close> of the
  Unicode tables.
\<close>

datatype file_kind = RegularFile | DirectoryFile | OtherFile
datatype entry_kind = RegularEntry | SymlinkEntry | OtherEntry

record file_system =
  fs_stat :: "string \<Rightarrow> gerr + file_kind"
  fs_read_dir :: "string \<Rightarrow> gerr + (string \<times> entry_kind) list"
  fs_equal_fold :: "string \<Rightarrow> string \<Rightarrow> bool"

definition is_regular :: "file_system \<Rightarrow> entry_kind \<Rightarrow> string \<Rightarrow> bool" where
  "is_regular fs kind path =
     (case kind of
        RegularEntry \<Rightarrow> True
      | OtherEntry \<Rightarrow> False
      | SymlinkEntry \<Rightarrow> fs_stat fs path = Inr RegularFile)"

text \<open>The number a directory entry has in the set, if it belongs to it.\<close>

definition member_number ::
  "file_system \<Rightarrow> family \<Rightarrow> string \<Rightarrow> string \<Rightarrow> string \<times> entry_kind \<Rightarrow> u32 option" where
  "member_number fs family dir stem entry =
     (let candidate = fst entry; ext = path_ext candidate in
      if \<not> fs_equal_fold fs (trim_suffix candidate ext) stem then None
      else case family_number family ext of
             None \<Rightarrow> None
           | Some n \<Rightarrow>
               (if is_regular fs (snd entry) (path_join dir candidate) then Some n else None))"

type_synonym found_map = "(u32 \<times> string) list"

fun scan_entries ::
  "file_system \<Rightarrow> family \<Rightarrow> string \<Rightarrow> string \<Rightarrow> (string \<times> entry_kind) list \<Rightarrow> found_map
     \<Rightarrow> gerr + found_map" where
  "scan_entries fs family dir stem [] found = Inr found"
| "scan_entries fs family dir stem (entry # entries) found =
     (case member_number fs family dir stem entry of
        None \<Rightarrow> scan_entries fs family dir stem entries found
      | Some n \<Rightarrow>
          (case map_of found n of
             Some previous \<Rightarrow>
               Inl (wraps ''segname: two files both name one segment of the set'' ErrCorruptImage)
           | None \<Rightarrow> scan_entries fs family dir stem entries (AList.update n (fst entry) found)))"

definition saturated :: "found_map \<Rightarrow> bool" where
  "saturated found \<longleftrightarrow> list_all (\<lambda>n. map_of found (word_of_int n) \<noteq> None) [1..uint max_numeric]"

definition segments_of :: "string \<Rightarrow> found_map \<Rightarrow> segment_file list" where
  "segments_of dir found =
     map (\<lambda>p. \<lparr>sf_number = fst p, sf_path = path_join dir (snd p)\<rparr>) (sort_key (\<lambda>p. uint (fst p)) found)"

definition collect_set ::
  "file_system \<Rightarrow> string \<Rightarrow> string \<Rightarrow> string \<Rightarrow> family \<Rightarrow> u32 \<Rightarrow> (string \<times> entry_kind) list
     \<Rightarrow> gerr + segment_set" where
  "collect_set fs dir name stem family self entries =
     (case scan_entries fs family dir stem entries [] of
        Inl e \<Rightarrow> Inl e
      | Inr found \<Rightarrow>
          (let kept = (if \<not> saturated found then filter (\<lambda>p. fst p < letter_base) found else found);
               all = AList.update self name kept in
           Inr \<lparr>set_family = family, set_dir = dir, set_stem = stem,
                set_segments = segments_of dir all\<rparr>))"

definition discover :: "file_system \<Rightarrow> string \<Rightarrow> gerr + segment_set" where
  "discover fs path =
     (case fs_stat fs path of
        Inl e \<Rightarrow> Inl (Wrapped ''segname'' e)
      | Inr kind \<Rightarrow>
          (if kind = DirectoryFile
           then Inl (wraps ''segname: path is a directory, not a segment file'' ErrUnsupportedFormat)
           else let dir = path_dir path; name = path_base path; ext = path_ext name;
                    stem = trim_suffix name ext in
                case parse_family ext of
                  None \<Rightarrow> Inr \<lparr>set_family = zero_family, set_dir = dir, set_stem = stem,
                               set_segments = [\<lparr>sf_number = 0, sf_path = path\<rparr>]\<rparr>
                | Some (family, self) \<Rightarrow>
                    (case fs_read_dir fs dir of
                       Inl e \<Rightarrow> Inl (Wrapped ''segname: unable to read directory'' e)
                     | Inr entries \<Rightarrow> collect_set fs dir name stem family self entries)))"

text \<open>
  The loop of \<open>Missing\<close> counts in 32 bits. For a highest number of 2^32 - 1 it would not
  end, so the model of the loop is partial.
\<close>

partial_function (option) missing_loop :: "u32 list \<Rightarrow> u32 \<Rightarrow> u32 \<Rightarrow> u32 list option" where
  "missing_loop present highest n =
     (if highest < n then Some []
      else Option.bind (missing_loop present highest (n + 1))
             (\<lambda>rest. Some (if n \<in> set present then rest else n # rest)))"

declare missing_loop.simps [code]

definition set_missing :: "segment_set \<Rightarrow> u32 list option" where
  "set_missing s =
     (if set_segments s = [] then Some []
      else missing_loop (set_numbers s) (sf_number (last (set_segments s))) 1)"

fun set_names :: "segment_set \<Rightarrow> u32 list \<Rightarrow> string list" where
  "set_names s [] = []"
| "set_names s (n # ns) =
     (case family_ext (set_family s) n of
        Inl _ \<Rightarrow> set_names s ns
      | Inr ext \<Rightarrow> (set_stem s @ ext) # set_names s ns)"


section \<open>Case of names\<close>

lemma code_bounds: "0 \<le> code c" "code c < 256"
  using pos_mod_bound [of 256 "code c"] pos_mod_sign [of 256 "code c"] by simp_all

lemma code_char_of: "0 \<le> k \<Longrightarrow> k < 256 \<Longrightarrow> code (char_of k) = k"
  by simp

lemma char_code_iff: "c = d \<longleftrightarrow> code c = code d"
  by simp

lemma code_upper_char: "code (upper_char c) = (if 97 \<le> code c \<and> code c \<le> 122 then code c - 32 else code c)"
  using code_bounds [of c] by (simp add: upper_char_def)

lemma code_lower_char: "code (lower_char c) = (if 65 \<le> code c \<and> code c \<le> 90 then code c + 32 else code c)"
  using code_bounds [of c] by (simp add: lower_char_def is_upper_def)

lemmas char_class_defs = is_digit_def is_letter_def is_upper_def code_upper_char code_lower_char

lemma upper_char_facts [simp]:
  "upper_char (upper_char c) = upper_char c"
  "is_letter (upper_char c) = is_letter c"
  "is_digit (upper_char c) = is_digit c"
  "lower_char (upper_char c) = lower_char c"
  by (auto simp: char_class_defs char_code_iff [of "upper_char (upper_char c)"]
      char_code_iff [of "lower_char (upper_char c)"])

lemma upper_char_digit: "is_digit c \<Longrightarrow> upper_char c = c"
  by (auto simp: char_class_defs char_code_iff [of "upper_char c"])

lemma upper_char_dot: "upper_char c = CHR ''.'' \<longleftrightarrow> c = CHR ''.''"
  by (auto simp: char_class_defs char_code_iff [of _ "CHR ''.''"])

lemma letter_not_digit: "is_letter c \<Longrightarrow> \<not> is_digit c"
  by (auto simp: char_class_defs)

section \<open>Names and numbers\<close>

lemma split_ext_upper:
  "split_ext (map upper_char e)
     = map_option (\<lambda>p. (fst p\<lparr>fam_base := upper_char (fam_base (fst p))\<rparr>, map upper_char (snd p))) (split_ext e)"
proof (cases "\<exists>d b rest. e = d # b # rest")
  case True
  then obtain d b rest where e: "e = d # b # rest"
    by blast
  show ?thesis
    by (cases rest) (auto simp: e split_ext_def upper_char_dot)
next
  case False
  then show ?thesis
    by (cases e; cases "tl e") (auto simp: split_ext_def)
qed

lemma field_number_upper: "field_number (map upper_char fd) carry = field_number fd carry"
  by (auto simp: field_number_def Let_def upper_char_digit split: list.splits)

lemma family_number_upper: "family_number f (map upper_char e) = family_number f e"
  by (simp add: family_number_def split_ext_upper field_number_upper Let_def case_prod_beta split: option.splits)

lemma family_number_cong: "map upper_char e = map upper_char e' \<Longrightarrow> family_number f e = family_number f e'"
  by (metis family_number_upper)

lemma valid_base:
  "family_valid f \<Longrightarrow> code (fam_base f) \<in> {101, 108, 115, 69, 76, 83}"
  by (auto simp: family_valid_def char_code_iff [of "lower_char _"] code_lower_char split: if_splits)

lemma letter_range: "is_letter c \<Longrightarrow> 65 \<le> code (upper_char c)" "is_letter c \<Longrightarrow> code (upper_char c) \<le> 90"
  by (auto simp: char_class_defs)

lemma digit_range: "is_digit c \<Longrightarrow> 48 \<le> code c" "is_digit c \<Longrightarrow> code c \<le> 57"
  by (simp_all add: is_digit_def)

lemma letter_sum_bound:
  "65 \<le> (i :: int) \<Longrightarrow> i \<le> 90 \<Longrightarrow> 65 \<le> (j :: int) \<Longrightarrow> j \<le> 90 \<Longrightarrow> 0 \<le> k \<Longrightarrow> k \<le> 100
    \<Longrightarrow> 0 \<le> 100 + k * 676 + 26 * (i - 65) + (j - 65) \<and> 100 + k * 676 + 26 * (i - 65) + (j - 65) < 4294967296"
  by auto

lemma field_number_letters:
  assumes "is_letter a" "is_letter b" "uint carry \<le> 100"
  shows "\<exists>n. field_number [a, b] carry = Some n
     \<and> uint n = 100 + 676 * uint carry + 26 * (code (upper_char a) - 65) + (code (upper_char b) - 65)"
proof -
  let ?m = "100 + uint carry * 676 + 26 * (code (upper_char a) - 65) + (code (upper_char b) - 65)"
  have w: "letter_base + carry * letters_per_leading + 26 * word_of_int (code (upper_char a) - 65)
      + word_of_int (code (upper_char b) - 65) = (word_of_int ?m :: u32)"
    by (simp add: letter_base_def letters_per_leading_def of_int_add of_int_mult)
  have "0 \<le> ?m \<and> ?m < 4294967296"
    by (rule letter_sum_bound) (use assms letter_range in auto)
  then have u: "uint (word_of_int ?m :: u32) = ?m"
    by (intro uint_u32_id) auto
  have "field_number [a, b] carry = Some (letter_base + carry * letters_per_leading
      + 26 * word_of_int (code (upper_char a) - 65) + word_of_int (code (upper_char b) - 65))"
    using assms by (simp add: field_number_def letter_not_digit)
  then have "field_number [a, b] carry = Some (word_of_int ?m)"
    unfolding w .
  moreover have "?m = 100 + 676 * uint carry + 26 * (code (upper_char a) - 65) + (code (upper_char b) - 65)"
    by simp
  ultimately show ?thesis
    using u by metis
qed

lemma field_number_digits:
  assumes "is_digit a" "is_digit b"
  shows "field_number [a, b] 0 = (if code a = 48 \<and> code b = 48 then None
     else Some (word_of_int (10 * (code a - 48) + (code b - 48))))"
proof -
  let ?m = "10 * (code a - 48) + (code b - 48)"
  have w: "word_of_int (code a - 48) * 10 + word_of_int (code b - 48) = (word_of_int ?m :: u32)"
    by (simp add: of_int_add of_int_mult algebra_simps)
  have "0 \<le> ?m \<and> ?m < 4294967296"
    using assms by (auto simp: char_class_defs)
  then have u: "uint (word_of_int ?m :: u32) = ?m"
    by (intro uint_u32_id) auto
  have "word_of_int ?m = (0 :: u32) \<longleftrightarrow> ?m = 0"
    using u by (metis unsigned_0 of_int_0)
  also have "\<dots> \<longleftrightarrow> code a = 48 \<and> code b = 48"
    using digit_range [OF assms(1)] digit_range [OF assms(2)] by presburger
  finally show ?thesis
    using assms by (simp add: field_number_def w Let_def del: of_int_add of_int_diff)
qed

lemma family_number_base:
  assumes "family_valid f" "is_letter c" "code (upper_char (fam_base f)) \<le> code (upper_char c)"
    and "field = [a, b]"
  shows "family_number f (CHR ''.'' # c # marker f @ field)
     = field_number field (word_of_int (code (upper_char c) - code (upper_char (fam_base f))))"
  using assms by (cases "fam_v2 f")
    (auto simp: family_number_def split_ext_def marker_def v2_marker_def Let_def lower_char_def is_upper_def)

lemma family_number_parts:
  assumes "family_number f e = Some n"
  obtains c m a b where "family_valid f" "is_letter c" "code (upper_char (fam_base f)) \<le> code (upper_char c)"
    "map upper_char e = map upper_char (CHR ''.'' # c # marker f @ [a, b])"
    "field_number [a, b] (word_of_int (code (upper_char c) - code (upper_char (fam_base f)))) = Some n"
proof -
  from assms obtain other field where v: "family_valid f" and s: "split_ext e = Some (other, field)"
    and m: "fam_v2 other = fam_v2 f" and le: "code (upper_char (fam_base f)) \<le> code (upper_char (fam_base other))"
    and fn: "field_number field (word_of_int (code (upper_char (fam_base other)) - code (upper_char (fam_base f)))) = Some n"
    by (auto simp: family_number_def Let_def split: if_splits option.splits)
  from fn obtain a b where ab: "field = [a, b]"
    by (auto simp: field_number_def split: list.splits if_splits)
  have x: "lower_char d = CHR ''x'' \<Longrightarrow> upper_char d = upper_char (CHR ''x'')" for d
    by (auto simp: char_code_iff [of "lower_char d"] char_code_iff [of "upper_char d"] code_lower_char code_upper_char
        split: if_splits)
  from s have "is_letter (fam_base other)"
    "map upper_char e = map upper_char (CHR ''.'' # fam_base other # marker f @ field)"
    using m by (auto simp: split_ext_def marker_def v2_marker_def length_Suc_conv numeral_2_eq_2 numeral_3_eq_3 x
        split: list.splits if_splits)
  then show thesis
    using that v le fn ab by blast
qed

lemma uint_numeral_26: "uint (26 :: u32) = 26"
  by simp

lemma family_ext_letters:
  assumes v: "family_valid f" and n: "uint n = 100 + 676 * k + 26 * i + j" and ij: "0 \<le> i" "i < 26" "0 \<le> j" "j < 26"
    and k: "0 \<le> k" "code (upper_char (fam_base f)) + k \<le> 90"
  defines "alpha \<equiv> if is_upper (fam_base f) then 65 else 97"
  shows "family_ext f n = Inr (CHR ''.'' # char_of (code (fam_base f) + k) # marker f
                                 @ [char_of (alpha + i), char_of (alpha + j)])"
proof -
  have big: "\<not> n \<le> max_numeric" "n \<noteq> 0"
    using n ij k by (auto simp: max_numeric_def word_le_def)
  have off: "uint (n - letter_base) = 676 * k + (26 * i + j)"
    using n ij k uint_u32_less [of n] by (simp add: letter_base_def uint_word_ariths)
  have "(26 * i + j) div 676 = 0" "(26 * i + j) mod 676 = 26 * i + j"
    using ij by (simp_all add: div_pos_pos_trivial)
  then have q: "uint ((n - letter_base) div letters_per_leading) = k"
    and r: "uint ((n - letter_base) mod letters_per_leading) = 26 * i + j"
    by (simp_all add: uint_div uint_mod off letters_per_leading_def)
  let ?r = "(n - letter_base) mod letters_per_leading"
  have "uint (?r div 26) = uint ?r div 26" "uint (?r mod 26) = uint ?r mod 26"
    by (simp_all only: uint_div uint_mod uint_numeral_26)
  then have d: "uint (?r div 26) = i" "uint (?r mod 26) = j"
    unfolding r using ij by simp_all
  show ?thesis
    using v big k by (simp add: family_ext_def Let_def q d alpha_def)
qed

lemma family_ext_digits:
  assumes "family_valid f" "uint n = 10 * i + j" "n \<noteq> 0" "0 \<le> i" "i < 10" "0 \<le> j" "j < 10"
  shows "family_ext f n = Inr (CHR ''.'' # fam_base f # marker f @ [char_of (48 + i), char_of (48 + j)])"
proof -
  have "n \<le> max_numeric"
    using assms by (simp add: max_numeric_def word_le_def)
  moreover have "(10 * i + j) div 10 = i" "(10 * i + j) mod 10 = j"
    using assms by simp_all
  ultimately show ?thesis
    using assms by (simp add: family_ext_def two_digits_def)
qed


lemma base_upper: "is_upper (fam_base f) \<longleftrightarrow> code (upper_char (fam_base f)) = code (fam_base f)" if "family_valid f"
  using valid_base [OF that] by (auto simp: char_class_defs)

lemma base_range:
  assumes "family_valid f"
  shows "69 \<le> code (upper_char (fam_base f))" "code (upper_char (fam_base f)) \<le> 83"
    "code (fam_base f) = (if is_upper (fam_base f) then code (upper_char (fam_base f)) else code (upper_char (fam_base f)) + 32)"
  using valid_base [OF assms] by (auto simp: char_class_defs)

lemma char_eqI: "code c = code d \<Longrightarrow> c = d"
  by (simp add: of_char_eq_iff)

lemma letter_at:
  assumes "0 \<le> i" "i < 26" "alpha = 65 \<or> alpha = (97 :: int)"
  shows "is_letter (char_of (alpha + i))" "code (upper_char (char_of (alpha + i))) = 65 + i"
proof -
  have c: "code (char_of (alpha + i)) = alpha + i"
    using assms by (intro code_char_of) auto
  show "is_letter (char_of (alpha + i))" "code (upper_char (char_of (alpha + i))) = 65 + i"
    using assms by (auto simp: is_letter_def is_upper_def code_upper_char c simp del: of_char_of)
qed

lemma base_carry:
  assumes "family_valid f" "0 \<le> k" "code (upper_char (fam_base f)) + k \<le> 90"
  shows "is_letter (char_of (code (fam_base f) + k))"
    "code (upper_char (char_of (code (fam_base f) + k))) = code (upper_char (fam_base f)) + k"
proof -
  let ?a = "if is_upper (fam_base f) then 65 else 97 :: int"
  have e: "code (fam_base f) + k = ?a + (code (upper_char (fam_base f)) - 65 + k)"
    using base_range(3) [OF assms(1)] by simp
  show "is_letter (char_of (code (fam_base f) + k))"
    "code (upper_char (char_of (code (fam_base f) + k))) = code (upper_char (fam_base f)) + k"
    unfolding e using assms base_range(1) [OF assms(1)]
    by (subst letter_at; simp)+
qed

lemma number_of_ext_digits:
  assumes v: "family_valid f" and n: "n \<noteq> 0" "n \<le> max_numeric" and e: "family_ext f n = Inr e"
  shows "family_number f e = Some n"
proof -
  let ?a = "char_of (48 + uint n div 10) :: char" and ?b = "char_of (48 + uint n mod 10) :: char"
  have u: "uint n \<le> 99" "uint n \<noteq> 0"
    using n by (simp_all add: max_numeric_def word_le_def unsigned_eq_0_iff)
  have b: "0 \<le> uint n div 10" "uint n div 10 < 10" "0 \<le> uint n mod 10" "uint n mod 10 < 10"
    using u by (auto simp: pos_imp_zdiv_nonneg_iff)
  then have c: "code ?a = 48 + uint n div 10" "code ?b = 48 + uint n mod 10"
    by (simp_all only: code_char_of)
  then have d: "is_digit ?a" "is_digit ?b"
    using b by (simp_all only: is_digit_def) auto
  have "is_letter (fam_base f)"
    using valid_base [OF v] by (auto simp: char_class_defs)
  moreover have "e = CHR ''.'' # fam_base f # marker f @ [?a, ?b]"
    using e v n by (simp add: family_ext_def two_digits_def)
  ultimately have "family_number f e = field_number [?a, ?b] 0"
    by (simp add: family_number_base [OF v])
  also have "\<dots> = Some n"
    using u by (simp add: field_number_digits [OF d] c del: of_char_of)
  finally show ?thesis .
qed

lemma number_of_ext_letters:
  assumes v: "family_valid f" and n: "\<not> n \<le> max_numeric" and e: "family_ext f n = Inr e"
  shows "family_number f e = Some n"
proof -
  define k where "k = uint ((n - letter_base) div letters_per_leading)"
  define r where "r = uint ((n - letter_base) mod letters_per_leading)"
  have kr: "uint (n - letter_base) = 676 * k + r" "0 \<le> r" "r < 676" "0 \<le> k"
    by (simp_all add: k_def r_def uint_div uint_mod letters_per_leading_def pos_imp_zdiv_nonneg_iff)
  have big: "99 < uint n"
    using n by (simp add: max_numeric_def word_le_def)
  then have "uint (n - letter_base) = uint n - 100"
    by (simp add: letter_base_def uint_sub_lem [THEN iffD1] word_le_def)
  then have un: "uint n = 100 + 676 * k + 26 * (r div 26) + r mod 26"
    using kr by simp
  have range: "code (upper_char (fam_base f)) + k \<le> 90"
    using e v n by (auto simp: family_ext_def Let_def k_def split: if_splits)
  have ij: "0 \<le> r div 26" "r div 26 < 26" "0 \<le> r mod 26" "r mod 26 < 26"
    using kr by auto
  let ?alpha = "if is_upper (fam_base f) then 65 else 97 :: int"
  let ?c = "char_of (code (fam_base f) + k) :: char"
  let ?a = "char_of (?alpha + r div 26) :: char" and ?b = "char_of (?alpha + r mod 26) :: char"
  have e': "e = CHR ''.'' # ?c # marker f @ [?a, ?b]"
    using e family_ext_letters [OF v un ij kr(4) range] by simp
  note lc = base_carry [OF v kr(4) range]
  have al: "?alpha = 65 \<or> ?alpha = 97"
    by simp
  note la = letter_at [OF ij(1,2) al] letter_at [OF ij(3,4) al]
  have "family_number f e = field_number [?a, ?b] (word_of_int k)"
    unfolding e' using lc kr(4) by (subst family_number_base [OF v]) (simp_all del: of_char_of)
  moreover have uk: "uint (word_of_int k :: u32) = k"
    by (simp add: k_def)
  moreover have "k \<le> 100"
    using base_range(1) [OF v] range by linarith
  ultimately have "\<exists>m. family_number f e = Some m
      \<and> uint m = 100 + 676 * k + 26 * (65 + r div 26 - 65) + (65 + r mod 26 - 65)"
    using field_number_letters [OF la(1,3), of "word_of_int k"] unfolding la uk by simp
  then show ?thesis
    using un by (auto simp: word_uint_eq_iff)
qed

lemma ext_defined: "family_ext f n = Inr e \<Longrightarrow> family_valid f \<and> n \<noteq> 0"
  by (simp add: family_ext_def split: if_splits)

lemma number_of_ext: "family_ext f n = Inr e \<Longrightarrow> family_number f e = Some n"
  using number_of_ext_digits [of f n e] number_of_ext_letters [of f n e]
    ext_defined [of f n e] by auto

lemma digits_carry:
  "field_number [a, b] carry = Some n \<Longrightarrow> is_digit a \<Longrightarrow> is_digit b \<Longrightarrow> carry = 0"
  by (simp add: field_number_def split: if_splits)

text \<open>The name of a number has the parts the number was read from, up to case.\<close>

lemma ext_of_digits:
  assumes v: "family_valid f" and d: "is_digit a" "is_digit b"
    and fn: "field_number [a, b] (word_of_int k) = Some n" and k: "0 \<le> k" "k \<le> 100"
  shows "k = 0" "family_ext f n = Inr (CHR ''.'' # fam_base f # marker f @ [a, b])"
proof -
  let ?m = "10 * (code a - 48) + (code b - 48)"
  have zero: "word_of_int k = (0 :: u32)"
    using digits_carry [OF fn d] .
  moreover have "uint (word_of_int k :: u32) = k"
    using k by (intro uint_u32_id) auto
  ultimately show "k = 0"
    by simp
  have "field_number [a, b] 0 = Some n"
    using fn zero by (simp only:)
  then have m: "\<not> (code a = 48 \<and> code b = 48)" "word_of_int ?m = n"
    by (simp_all add: field_number_digits [OF d] split: if_splits)
  have "n = word_of_int ?m"
    using m(2) by (rule sym)
  moreover have "?m \<noteq> 0"
    using digit_range [OF d(1)] digit_range [OF d(2)] m(1) by presburger
  moreover have "uint (word_of_int ?m :: u32) = ?m"
    using digit_range [OF d(1)] digit_range [OF d(2)] by (intro uint_u32_id) auto
  ultimately have "uint n = ?m" "n \<noteq> 0"
    by (auto simp: word_uint_eq_iff)
  from family_ext_digits [OF v this] show "family_ext f n = Inr (CHR ''.'' # fam_base f # marker f @ [a, b])"
    using digit_range [OF d(1)] digit_range [OF d(2)] by simp
qed

lemma ext_of_letters:
  assumes v: "family_valid f" and l: "is_letter a" "is_letter b" and c: "is_letter c"
    and k: "k = code (upper_char c) - code (upper_char (fam_base f))" "0 \<le> k" "k \<le> 100"
    and fn: "field_number [a, b] (word_of_int k) = Some n"
  shows "\<exists>c' a' b'. family_ext f n = Inr (CHR ''.'' # c' # marker f @ [a', b'])
    \<and> upper_char c' = upper_char c \<and> upper_char a' = upper_char a \<and> upper_char b' = upper_char b"
proof -
  let ?i = "code (upper_char a) - 65" and ?j = "code (upper_char b) - 65"
  have "uint (word_of_int k :: u32) = k"
    using k by (intro uint_u32_id) auto
  then have un: "uint n = 100 + 676 * k + 26 * ?i + ?j"
    using field_number_letters [OF l, of "word_of_int k"] k(2,3) fn by auto
  define alpha :: int where "alpha = (if is_upper (fam_base f) then 65 else 97)"
  have al: "alpha = 65 \<or> alpha = 97"
    by (simp add: alpha_def)
  have ext: "family_ext f n = Inr (CHR ''.'' # char_of (code (fam_base f) + k) # marker f
                               @ [char_of (alpha + ?i), char_of (alpha + ?j)])"
    unfolding alpha_def
    by (rule family_ext_letters [OF v un])
      (use letter_range [OF l(1)] letter_range [OF l(2)] letter_range [OF c] k in \<open>simp_all add: k(1)\<close>)
  have up: "upper_char (char_of (alpha + (code (upper_char d) - 65))) = upper_char d" if "is_letter d" for d
    using letter_at(2) [of "code (upper_char d) - 65", OF _ _ al] letter_range [OF that]
    by (intro char_eqI) simp
  have "upper_char (char_of (code (fam_base f) + k)) = upper_char c"
    using base_carry(2) [OF v k(2)] letter_range [OF c] by (intro char_eqI) (simp add: k(1))
  then show ?thesis
    using ext up [OF l(1)] up [OF l(2)] by blast
qed

lemma ext_of_number:
  assumes "family_number f e = Some n"
  shows "\<exists>e'. family_ext f n = Inr e' \<and> map upper_char e' = map upper_char e"
proof -
  obtain c a b where v: "family_valid f" and c: "is_letter c" and le: "code (upper_char (fam_base f)) \<le> code (upper_char c)"
    and e: "map upper_char e = map upper_char (CHR ''.'' # c # marker f @ [a, b])"
    and fn: "field_number [a, b] (word_of_int (code (upper_char c) - code (upper_char (fam_base f)))) = Some n"
    by (rule family_number_parts [OF assms])
  define k where "k = code (upper_char c) - code (upper_char (fam_base f))"
  have k: "0 \<le> k" "k \<le> 100"
    using le letter_range [OF c] base_range [OF v] unfolding k_def by linarith+
  note fn = fn [folded k_def]
  show ?thesis
  proof (cases "is_digit a \<and> is_digit b")
    case True
    then have ext: "k = 0" "family_ext f n = Inr (CHR ''.'' # fam_base f # marker f @ [a, b])"
      using ext_of_digits [OF v _ _ fn k] by blast+
    then have "upper_char (fam_base f) = upper_char c"
      by (intro char_eqI) (simp add: k_def)
    then show ?thesis
      using ext(2) e by simp
  next
    case False
    then have "is_letter a" "is_letter b"
      using fn by (auto simp: field_number_def split: if_splits)
    from ext_of_letters [OF v this c k_def k fn] show ?thesis
      using e by auto
  qed
qed

lemma family_number_bounds:
  assumes "family_number f e = Some n"
  shows "n \<noteq> 0" "uint n < 100000"
proof -
  obtain e' where e: "family_ext f n = Inr e'"
    using ext_of_number [OF assms] by blast
  show "n \<noteq> 0"
    using ext_defined [OF e] by blast
  show "uint n < 100000"
  proof (cases "n \<le> max_numeric")
    case True
    then show ?thesis
      by (simp add: max_numeric_def word_le_def)
  next
    case False
    then have big: "99 < uint n"
      by (simp add: max_numeric_def word_le_def)
    have v: "family_valid f"
      using ext_defined [OF e] by blast
    have "code (upper_char (fam_base f)) + uint ((n - letter_base) div letters_per_leading) \<le> 90"
      using e v False by (simp add: family_ext_def Let_def split: if_splits)
    then have "uint ((n - letter_base) div letters_per_leading) \<le> 21"
      using base_range(1) [OF v] by linarith
    moreover have "uint (n - letter_base) = uint n - 100"
      using big by (simp add: letter_base_def uint_sub_lem [THEN iffD1] word_le_def)
    ultimately have "(uint n - 100) div 676 \<le> 21"
      by (simp add: uint_div letters_per_leading_def)
    then show ?thesis
      by linarith
  qed
qed

section \<open>Holes in the numbering\<close>

lemma missing_loop_exact:
  assumes "uint highest < 4294967295"
  shows "missing_loop present highest n
     = Some (filter (\<lambda>k. k \<notin> set present) (map word_of_int [uint n..uint highest]))"
proof (induction "nat (uint highest + 1 - uint n)" arbitrary: n)
  case 0
  then have "highest < n"
    by (simp add: word_less_def)
  then show ?case
    by (subst missing_loop.simps) (simp add: word_less_def)
next
  case (Suc k)
  then have le: "\<not> highest < n" "uint n \<le> uint highest"
    by (simp_all add: word_less_def)
  then have "uint (n + 1) = uint n + 1"
    using assms by (simp add: uint_word_ariths)
  moreover from this have "missing_loop present highest (n + 1)
      = Some (filter (\<lambda>k. k \<notin> set present) (map word_of_int [uint (n + 1)..uint highest]))"
    using Suc by (intro Suc(1)) simp
  ultimately show ?case
    using le by (subst missing_loop.simps) (simp add: upto_rec1)
qed

lemma set_missing_exact:
  assumes "set_segments s \<noteq> []" "uint (last (set_numbers s)) < 4294967295"
  shows "set_missing s
     = Some (filter (\<lambda>k. k \<notin> set (set_numbers s)) (map word_of_int [1..uint (last (set_numbers s))]))"
  using missing_loop_exact [of "last (set_numbers s)" "set_numbers s" 1] assms
  by (simp add: set_missing_def set_numbers_def last_map)

section \<open>The directory scan\<close>

definition members ::
  "file_system \<Rightarrow> family \<Rightarrow> string \<Rightarrow> string \<Rightarrow> (string \<times> entry_kind) list \<Rightarrow> found_map" where
  "members fs family dir stem entries =
     List.map_filter (\<lambda>e. map_option (\<lambda>n. (n, fst e)) (member_number fs family dir stem e)) entries"

lemma members_simps [simp]:
  "members fs family dir stem [] = []"
  "members fs family dir stem (e # es) =
     (case member_number fs family dir stem e of
        None \<Rightarrow> members fs family dir stem es
      | Some n \<Rightarrow> (n, fst e) # members fs family dir stem es)"
  by (simp_all add: members_def List.map_filter_simps split: option.split)

lemma set_members:
  "(n, c) \<in> set (members fs family dir stem entries)
     \<longleftrightarrow> (\<exists>e \<in> set entries. member_number fs family dir stem e = Some n \<and> c = fst e)"
  by (induction entries) (auto split: option.splits)

lemma update_fresh: "map_of al k = None \<Longrightarrow> AList.update k v al = al @ [(k, v)]"
  by (induction al) (auto split: if_splits)

definition clash_error :: gerr where
  "clash_error = wraps ''segname: two files both name one segment of the set'' ErrCorruptImage"

lemma scan_entries_exact:
  "distinct (map fst found) \<Longrightarrow>
   scan_entries fs family dir stem entries found =
     (let all = found @ members fs family dir stem entries in
      if distinct (map fst all) then Inr all else Inl clash_error)"
proof (induction entries arbitrary: found)
  case (Cons e es)
  show ?case
  proof (cases "member_number fs family dir stem e")
    case None
    then show ?thesis
      using Cons by simp
  next
    case (Some n)
    show ?thesis
    proof (cases "map_of found n")
      case None
      then have "distinct (map fst (found @ [(n, fst e)]))"
        using Cons.prems by (simp add: map_of_eq_None_iff)
      then show ?thesis
        using Cons.IH Some None by (simp add: update_fresh Let_def)
    next
      case (Some p)
      then have "n \<in> set (map fst found)"
        by (metis map_of_eq_None_iff option.distinct(1) set_map)
      then show ?thesis
        using \<open>member_number fs family dir stem e = Some n\<close> Some by (auto simp: clash_error_def Let_def)
    qed
  qed
qed simp

lemma saturated_iff: "saturated found \<longleftrightarrow> (\<forall>k. 1 \<le> k \<and> k \<le> 99 \<longrightarrow> word_of_int k \<in> fst ` set found)"
  by (auto simp: saturated_def list_all_iff max_numeric_def map_of_eq_None_iff)

lemma segments_of_sorted:
  assumes "distinct (map fst found)"
  shows "sorted_wrt (<) (map sf_number (segments_of dir found))"
proof -
  let ?l = "sort_key (\<lambda>p. uint (fst p)) found"
  have "sorted (map (\<lambda>p. uint (fst p)) ?l)"
    by simp
  moreover have "distinct (map fst ?l)"
    using assms by (simp add: distinct_map)
  then have "distinct (map uint (map fst ?l))"
    by (subst distinct_map) (auto simp: inj_on_def word_uint_eqI)
  then have "distinct (map (\<lambda>p. uint (fst p)) ?l)"
    by (simp add: comp_def)
  ultimately have "sorted_wrt (<) (map (\<lambda>p. uint (fst p)) ?l)"
    by (simp add: strict_sorted_iff)
  then show ?thesis
    by (simp add: segments_of_def sorted_wrt_map word_less_def comp_def)
qed

lemma set_segments_of:
  "set (segments_of dir found) = (\<lambda>p. \<lparr>sf_number = fst p, sf_path = path_join dir (snd p)\<rparr>) ` set found"
  by (simp add: segments_of_def)


lemma sorted_segments_unique:
  assumes "sorted_wrt (<) (map sf_number xs)" "sorted_wrt (<) (map sf_number ys)" "set xs = set ys"
  shows "xs = (ys :: segment_file list)"
proof (rule map_inj_on)
  show "map sf_number xs = map sf_number ys"
    using assms by (intro strict_sorted_equal) simp_all
  have "distinct (map sf_number xs)"
    using assms(1) by (simp add: strict_sorted_iff)
  then show "inj_on sf_number (set xs \<union> set ys)"
    using assms(3) by (simp add: distinct_map)
qed

definition in_range :: "found_map \<Rightarrow> u32 \<Rightarrow> bool" where
  "in_range found n \<longleftrightarrow> n < letter_base \<or> saturated found"

lemma set_update_distinct:
  "distinct (map fst al) \<Longrightarrow> set (AList.update k v al) = insert (k, v) {p \<in> set al. fst p \<noteq> k}"
  by (induction al) (auto simp: image_iff split: if_splits)

lemma collect_set_exact:
  "collect_set fs dir name stem family self entries = Inr s \<longleftrightarrow>
     (let found = members fs family dir stem entries in
      distinct (map fst found) \<and> set_family s = family \<and> set_dir s = dir \<and> set_stem s = stem
      \<and> sorted_wrt (<) (set_numbers s)
      \<and> set (set_segments s) =
          insert \<lparr>sf_number = self, sf_path = path_join dir name\<rparr>
            {\<lparr>sf_number = n, sf_path = path_join dir c\<rparr> | n c.
               (n, c) \<in> set found \<and> n \<noteq> self \<and> in_range found n})"
proof -
  define found where "found = members fs family dir stem entries"
  define kept where "kept = (if \<not> saturated found then filter (\<lambda>p. fst p < letter_base) found else found)"
  define al where "al = AList.update self name kept"
  have scan: "scan_entries fs family dir stem entries [] = (if distinct (map fst found) then Inr found else Inl clash_error)"
    by (simp add: scan_entries_exact found_def Let_def)
  show ?thesis
  proof (cases "distinct (map fst found)")
    case True
    then have dk: "distinct (map fst kept)"
      by (simp add: kept_def distinct_map_filter)
    then have da: "distinct (map fst al)"
      unfolding al_def by (rule distinct_update)
    have kept: "p \<in> set kept \<longleftrightarrow> p \<in> set found \<and> in_range found (fst p)" for p
      by (auto simp: kept_def in_range_def)
    have segs: "set (segments_of dir al) =
        insert \<lparr>sf_number = self, sf_path = path_join dir name\<rparr>
            {\<lparr>sf_number = n, sf_path = path_join dir c\<rparr> | n c.
               (n, c) \<in> set found \<and> n \<noteq> self \<and> in_range found n}"
      by (auto simp: set_segments_of al_def set_update_distinct [OF dk] kept image_iff)
    have run: "collect_set fs dir name stem family self entries =
        Inr \<lparr>set_family = family, set_dir = dir, set_stem = stem, set_segments = segments_of dir al\<rparr>"
      using True by (simp add: collect_set_def scan Let_def al_def kept_def)
    show ?thesis
      unfolding run Let_def found_def [symmetric] segs [symmetric]
      using True segments_of_sorted [OF da, of dir] sorted_segments_unique [of "set_segments s" "segments_of dir al"]
      by (cases s) (auto simp: set_numbers_def)
  next
    case False
    then show ?thesis
      by (simp add: collect_set_def scan Let_def flip: found_def)
  qed
qed

lemma discover_numbered:
  assumes "fs_stat fs path = Inr kind" "kind \<noteq> DirectoryFile"
    and "parse_family (path_ext (path_base path)) = Some (family, self)"
    and "fs_read_dir fs (path_dir path) = Inr entries"
  shows "discover fs path = collect_set fs (path_dir path) (path_base path)
           (trim_suffix (path_base path) (path_ext (path_base path))) family self entries"
  using assms by (simp add: discover_def Let_def)

lemma discover_single:
  assumes "fs_stat fs path = Inr kind" "kind \<noteq> DirectoryFile"
    and "parse_family (path_ext (path_base path)) = None"
  shows "\<exists>s. discover fs path = Inr s \<and> set_segments s = [\<lparr>sf_number = 0, sf_path = path\<rparr>]"
  using assms by (simp add: discover_def Let_def)

lemma parse_family_number: "parse_family ext = Some (family, n) \<Longrightarrow> family_number family ext = Some n"
  by (auto simp: parse_family_def family_number_def split: option.splits prod.splits if_splits)

lemma collect_set_numbers:
  assumes "collect_set fs dir name stem family self entries = Inr s" "family_number family e = Some self"
    and "sg \<in> set (set_segments s)"
  shows "\<exists>ext. family_number family ext = Some (sf_number sg)"
  using assms unfolding collect_set_exact Let_def
  by (auto simp: set_members member_number_def Let_def split: if_splits option.splits)

lemma discover_bounds:
  assumes "discover fs path = Inr s"
  shows "set_segments s \<noteq> []" "sg \<in> set (set_segments s) \<Longrightarrow> uint (sf_number sg) < 100000"
    "sorted_wrt (<) (set_numbers s)"
proof -
  have "set_segments s \<noteq> [] \<and> (\<forall>sg \<in> set (set_segments s). uint (sf_number sg) < 100000)
      \<and> sorted_wrt (<) (set_numbers s)"
  proof (cases "parse_family (path_ext (path_base path))")
    case None
    then show ?thesis
      using assms by (auto simp: discover_def Let_def set_numbers_def split: sum.splits if_splits)
  next
    case (Some p)
    then obtain family self entries dir name stem where "collect_set fs dir name stem family self entries = Inr s"
      and fam: "parse_family (path_ext (path_base path)) = Some (family, self)"
      using assms by (cases p) (auto simp: discover_def Let_def split: sum.splits if_splits)
    note run = this(1)
    have "set_segments s \<noteq> [] \<and> sorted_wrt (<) (set_numbers s)"
      using run unfolding collect_set_exact Let_def by auto
    moreover have "uint (sf_number sg) < 100000" if "sg \<in> set (set_segments s)" for sg
      using collect_set_numbers [OF run parse_family_number [OF fam] that] family_number_bounds(2) by blast
    ultimately show ?thesis
      by blast
  qed
  then show "set_segments s \<noteq> []" "sg \<in> set (set_segments s) \<Longrightarrow> uint (sf_number sg) < 100000"
    "sorted_wrt (<) (set_numbers s)"
    by auto
qed

lemma discover_missing_total:
  assumes "discover fs path = Inr s"
  shows "set_missing s
     = Some (filter (\<lambda>k. k \<notin> set (set_numbers s)) (map word_of_int [1..uint (last (set_numbers s))]))"
proof (rule set_missing_exact)
  show "set_segments s \<noteq> []"
    by (rule discover_bounds(1) [OF assms])
  then show "uint (last (set_numbers s)) < 4294967295"
    using discover_bounds(2) [OF assms, of "last (set_segments s)"] by (simp add: set_numbers_def last_map)
qed

section \<open>Segments in order\<close>

text \<open>Segments compare by their number, so a set in order is an ascending list.\<close>

instantiation segment_file_ext :: (type) preorder
begin

definition less_eq_segment_file_ext :: "'a segment_file_scheme \<Rightarrow> 'a segment_file_scheme \<Rightarrow> bool" where
  "less_eq_segment_file_ext a b \<longleftrightarrow> sf_number a \<le> sf_number b"

definition less_segment_file_ext :: "'a segment_file_scheme \<Rightarrow> 'a segment_file_scheme \<Rightarrow> bool" where
  "less_segment_file_ext a b \<longleftrightarrow> sf_number a < sf_number b"

instance
  by standard (auto simp: less_eq_segment_file_ext_def less_segment_file_ext_def)

end

lemma ascending_numbers: "sorted_wrt (<) (set_numbers s) \<longleftrightarrow> sorted_wrt (<) (set_segments s)"
proof -
  have "(<) = (\<lambda>a b :: segment_file. sf_number a < sf_number b)"
    by (simp add: fun_eq_iff less_segment_file_ext_def)
  then show ?thesis
    by (simp add: set_numbers_def sorted_wrt_map)
qed

lemma discover_ascending: "discover fs path = Inr s \<Longrightarrow> sorted_wrt (<) (set_segments s)"
  using discover_bounds(3) by (simp add: ascending_numbers)

section \<open>Properties\<close>

text \<open>
  C23. The naming progression is a bijection up to case: an extension has number \<open>n\<close> in a
  family exactly when it spells, in any mix of cases, the extension the family generates for
  \<open>n\<close>, through \<open>.E99\<close>, \<open>.EAA\<close> and the carry into the leading letter.
\<close>

theorem segment_names_bijective:
  "family_number f e = Some n
     \<longleftrightarrow> (\<exists>e'. family_ext f n = Inr e' \<and> map upper_char e' = map upper_char e)"
proof
  show "\<exists>e'. family_ext f n = Inr e' \<and> map upper_char e' = map upper_char e" if "family_number f e = Some n"
    using that by (rule ext_of_number)
next
  assume "\<exists>e'. family_ext f n = Inr e' \<and> map upper_char e' = map upper_char e"
  then show "family_number f e = Some n"
    using number_of_ext family_number_cong by metis
qed

text \<open>
  C24. Discovery from any numbered member succeeds exactly when no two entries of the
  directory claim one number, and then the set is strictly ascending and holds the file
  named and every regular file of the same stem whose extension has a number in the family;
  a letter-pair name (\<open>.log\<close>, \<open>.lst\<close>) counts only when 1 to 99 are all there.
\<close>

theorem discover_exact:
  assumes "fs_stat fs path = Inr kind" "kind \<noteq> DirectoryFile"
    and "parse_family (path_ext (path_base path)) = Some (family, self)"
    and "fs_read_dir fs (path_dir path) = Inr entries"
    and "stem = trim_suffix (path_base path) (path_ext (path_base path))"
  shows "discover fs path = Inr s \<longleftrightarrow>
     (let found = members fs family (path_dir path) stem entries in
      distinct (map fst found) \<and> set_family s = family \<and> set_dir s = path_dir path \<and> set_stem s = stem
      \<and> sorted_wrt (<) (set_numbers s)
      \<and> set (set_segments s) =
          insert \<lparr>sf_number = self, sf_path = path_join (path_dir path) (path_base path)\<rparr>
            {\<lparr>sf_number = n, sf_path = path_join (path_dir path) c\<rparr> | n c.
               (n, c) \<in> set found \<and> n \<noteq> self \<and> in_range found n})"
  using collect_set_exact discover_numbered [OF assms(1-4)] assms(5) by simp

definition ascii_fold :: "string \<Rightarrow> string \<Rightarrow> bool" where
  "ascii_fold a b \<longleftrightarrow> map upper_char a = map upper_char b"

definition sample_fs :: file_system where
  "sample_fs = \<lparr>fs_stat = (\<lambda>p. Inr RegularFile),
     fs_read_dir = (\<lambda>p. Inr [(''d.E01'', RegularEntry), (''D.e02'', SymlinkEntry), (''d.log'', RegularEntry),
                             (''d.E01.md5'', RegularEntry), (''d.E03'', OtherEntry), (''d.E04'', RegularEntry)]),
     fs_equal_fold = ascii_fold\<rparr>"

definition sample_set :: segment_set where
  "sample_set = \<lparr>set_family = \<lparr>fam_base = CHR ''E'', fam_v2 = False\<rparr>, set_dir = ''/c'', set_stem = ''d'',
     set_segments = [\<lparr>sf_number = 1, sf_path = ''/c/d.E01''\<rparr>, \<lparr>sf_number = 2, sf_path = ''/c/D.e02''\<rparr>,
                     \<lparr>sf_number = 4, sf_path = ''/c/d.E04''\<rparr>]\<rparr>"

lemma sample_discovers: "discover sample_fs ''/c/d.E04'' = Inr sample_set"
  by code_simp

theorem discover_exact_witness:
  "(let found = members sample_fs \<lparr>fam_base = CHR ''E'', fam_v2 = False\<rparr> ''/c'' ''d''
                  [(''d.E01'', RegularEntry), (''D.e02'', SymlinkEntry), (''d.log'', RegularEntry),
                   (''d.E01.md5'', RegularEntry), (''d.E03'', OtherEntry), (''d.E04'', RegularEntry)] in
    set (set_segments sample_set) =
      insert \<lparr>sf_number = 4, sf_path = ''/c/d.E04''\<rparr>
        {\<lparr>sf_number = n, sf_path = path_join ''/c'' c\<rparr> | n c. (n, c) \<in> set found \<and> n \<noteq> 4 \<and> in_range found n})"
proof -
  have facts: "path_dir ''/c/d.E04'' = ''/c''" "path_base ''/c/d.E04'' = ''d.E04''" "path_ext ''d.E04'' = ''.E04''"
    "path_join ''/c'' ''d.E04'' = ''/c/d.E04''" "parse_family ''.E04'' = Some (\<lparr>fam_base = CHR ''E'', fam_v2 = False\<rparr>, 4)"
    "trim_suffix ''d.E04'' ''.E04'' = ''d''"
    by code_simp+
  have "discover sample_fs ''/c/d.E04'' = Inr sample_set"
    by (rule sample_discovers)
  then show ?thesis
    using discover_exact [of sample_fs "''/c/d.E04''" RegularFile "\<lparr>fam_base = CHR ''E'', fam_v2 = False\<rparr>" 4
      "[(''d.E01'', RegularEntry), (''D.e02'', SymlinkEntry), (''d.log'', RegularEntry),
        (''d.E01.md5'', RegularEntry), (''d.E03'', OtherEntry), (''d.E04'', RegularEntry)]" "''d''" sample_set]
    by (simp add: facts sample_fs_def Let_def)
qed

text \<open>
  On every discovered set the search for holes ends, although its loop counts in 32 bits,
  and returns exactly the absent numbers below the highest one, ascending.
\<close>

theorem missing_exact:
  assumes "discover fs path = Inr s"
  shows "set_missing s
     = Some (filter (\<lambda>k. k \<notin> set (set_numbers s)) (map word_of_int [1..uint (last (set_numbers s))]))"
  using assms by (rule discover_missing_total)

theorem missing_exact_witness: "set_missing sample_set = Some [3]"
proof -
  have "filter (\<lambda>k. k \<notin> set (set_numbers sample_set)) (map word_of_int [1..uint (last (set_numbers sample_set))]) = [3]"
    by code_simp
  then show ?thesis
    using missing_exact [OF sample_discovers] by simp
qed

end
