(* ===== verification/Open_Path.thy ===== *)
theory Open_Path
  imports Device_Verify Seg_Names
begin

text \<open>
  \<open>api.go\<close> and \<open>openpath.go\<close>: options, the constructors, and the reader that finds,
  opens and owns the files of its segment set. The files of the process are a log of the
  handles it opened and closed; what the operating system answers may depend on that log.
\<close>

section \<open>Options and constructors\<close>

definition lib_version :: string where "lib_version = ''0.3.0''"
definition lib_author :: string where "lib_author = ''libewf contributors''"

type_synonym option_fun = "options \<Rightarrow> options"

definition with_checksum_policy :: "checksum_policy \<Rightarrow> option_fun" where
  "with_checksum_policy p o' = o'\<lparr>opt_checksum_policy := p\<rparr>"

definition with_chunk_cache :: "int \<Rightarrow> option_fun" where
  "with_chunk_cache chunks o' = o'\<lparr>opt_chunk_cache_chunks := chunks\<rparr>"

definition allow_incomplete_segment_set :: option_fun where
  "allow_incomplete_segment_set o' = o'\<lparr>opt_allow_incomplete := True\<rparr>"

definition build_options :: "option_fun list \<Rightarrow> options" where
  "build_options opts = fold (\<lambda>opt o'. opt o') opts default_options"

definition api_open :: "golib \<Rightarrow> io_source \<Rightarrow> gerr + image_reader" where
  "api_open lib source = open_image lib source"

definition api_open_segments :: "golib \<Rightarrow> io_source list \<Rightarrow> gerr + image_reader" where
  "api_open_segments lib sources = open_segments lib sources"

definition api_open_with_options :: "golib \<Rightarrow> io_source \<Rightarrow> option_fun list \<Rightarrow> gerr + image_reader" where
  "api_open_with_options lib source opts = open_with_options lib source (build_options opts)"

definition api_open_segments_with_options ::
  "golib \<Rightarrow> io_source list \<Rightarrow> option_fun list \<Rightarrow> gerr + image_reader" where
  "api_open_segments_with_options lib sources opts = open_segments_with_options lib sources (build_options opts)"

definition create_writer :: "'w \<Rightarrow> gerr + unit" where
  "create_writer w = Inl (Sentinel ErrNotImplemented)"

section \<open>Files\<close>

datatype file_event = Opened nat string | Closed nat

type_synonym file_log = "file_event list"

record os_calls =
  os_fs :: file_system
  os_open :: "file_log \<Rightarrow> string \<Rightarrow> gerr + io_source"
  os_close :: "file_log \<Rightarrow> nat \<Rightarrow> gerr option"

record open_file =
  of_handle :: nat
  of_source :: io_source

definition file_open :: "os_calls \<Rightarrow> string \<Rightarrow> file_log \<Rightarrow> (gerr + open_file) \<times> file_log" where
  "file_open os path log =
     (case os_open os log path of
        Inl e \<Rightarrow> (Inl e, log)
      | Inr src \<Rightarrow> (Inr \<lparr>of_handle = length log, of_source = src\<rparr>, log @ [Opened (length log) path]))"

definition file_close :: "os_calls \<Rightarrow> open_file \<Rightarrow> file_log \<Rightarrow> gerr option \<times> file_log" where
  "file_close os f log = (os_close os log (of_handle f), log @ [Closed (of_handle f)])"

fun close_files :: "os_calls \<Rightarrow> open_file list \<Rightarrow> file_log \<Rightarrow> file_log" where
  "close_files os [] log = log"
| "close_files os (f # fs) log = close_files os fs (snd (file_close os f log))"

section \<open>OpenPath\<close>

text \<open>\<open>None\<close> would be a search for missing segments that does not end.\<close>

definition discover_segments :: "file_system \<Rightarrow> string \<Rightarrow> bool \<Rightarrow> (gerr + string list) option" where
  "discover_segments fs path allow_incomplete =
     (case discover fs path of
        Inl e \<Rightarrow> Some (Inl e)
      | Inr s \<Rightarrow>
          (if \<not> allow_incomplete then
             case set_missing s of
               None \<Rightarrow> None
             | Some missing \<Rightarrow>
                 Some (if length missing > 0
                       then Inl (MissingSegmentsError path missing (set_numbers s) (set_names s missing))
                       else Inr (set_paths s))
           else Some (Inr (set_paths s))))"

definition segment_paths :: "file_system \<Rightarrow> string \<Rightarrow> (gerr + string list) option" where
  "segment_paths fs path = discover_segments fs path False"

record path_reader =
  pr_reader :: image_reader
  pr_files :: "open_file list"
  pr_once :: bool
  pr_close_err :: "gerr option"

fun open_files ::
  "os_calls \<Rightarrow> nat \<Rightarrow> string list \<Rightarrow> open_file list \<Rightarrow> file_log \<Rightarrow> (gerr + open_file list) \<times> file_log" where
  "open_files os i [] files log = (Inr files, log)"
| "open_files os i (p # ps) files log =
     (case file_open os p log of
        (Inl e, log') \<Rightarrow> (Inl (SegmentError 0 i ''open'' e), close_files os files log')
      | (Inr f, log') \<Rightarrow> open_files os (Suc i) ps (files @ [f]) log')"

definition open_path_with_options ::
  "golib \<Rightarrow> os_calls \<Rightarrow> string \<Rightarrow> option_fun list \<Rightarrow> file_log \<Rightarrow> ((gerr + path_reader) \<times> file_log) option" where
  "open_path_with_options lib os path opts log =
     (let options = build_options opts in
      case discover_segments (os_fs os) path (opt_allow_incomplete options) of
        None \<Rightarrow> None
      | Some (Inl e) \<Rightarrow> Some (Inl e, log)
      | Some (Inr paths) \<Rightarrow>
          Some (case open_files os 0 paths [] log of
                  (Inl e, log') \<Rightarrow> (Inl e, log')
                | (Inr files, log') \<Rightarrow>
                    (case open_segments_with_options lib (map of_source files) options of
                       Inl e \<Rightarrow> (Inl e, close_files os files log')
                     | Inr img \<Rightarrow>
                         (Inr \<lparr>pr_reader = img, pr_files = files, pr_once = False, pr_close_err = None\<rparr>, log'))))"

definition open_path :: "golib \<Rightarrow> os_calls \<Rightarrow> string \<Rightarrow> file_log \<Rightarrow> ((gerr + path_reader) \<times> file_log) option" where
  "open_path lib os path log = open_path_with_options lib os path [] log"

section \<open>Close\<close>

text \<open>\<open>errors.Join\<close>: nil errors are dropped, and joining none gives nil.\<close>

definition errors_join :: "gerr option list \<Rightarrow> gerr option" where
  "errors_join errs =
     (let es = List.map_filter id errs in if es = [] then None else Some (Joined es))"

fun close_each :: "os_calls \<Rightarrow> open_file list \<Rightarrow> gerr option list \<Rightarrow> file_log \<Rightarrow> gerr option list \<times> file_log" where
  "close_each os [] errs log = (errs, log)"
| "close_each os (f # fs) errs log =
     (let (e, log') = file_close os f log in close_each os fs (errs @ [e]) log')"

definition path_close :: "os_calls \<Rightarrow> path_reader \<Rightarrow> file_log \<Rightarrow> gerr option \<times> path_reader \<times> file_log" where
  "path_close os r log =
     (if pr_once r then (pr_close_err r, r, log)
      else let (errs, log') = close_each os (pr_files r) [reader_close (pr_reader r)] log;
               err = errors_join errs in
           (err, r\<lparr>pr_once := True, pr_close_err := err\<rparr>, log'))"

definition path_unwrap :: "path_reader \<Rightarrow> image_reader" where
  "path_unwrap r = pr_reader r"

text \<open>The embedded reader's methods, with \<open>Close\<close> overridden.\<close>

definition path_ops :: "golib \<Rightarrow> os_calls \<Rightarrow> (path_reader \<times> file_log) reader_ops" where
  "path_ops lib os =
     \<lparr>op_read_at = (\<lambda>s p off. let (res, img) = read_at lib (pr_reader (fst s)) p off in
                              (res, ((fst s)\<lparr>pr_reader := img\<rparr>, snd s))),
      op_size = (\<lambda>s. reader_size (pr_reader (fst s))),
      op_sector_size = (\<lambda>s. sector_size (pr_reader (fst s))),
      op_metadata = (\<lambda>s. ir_metadata (pr_reader (fst s))),
      op_close = (\<lambda>s. let (e, r, log) = path_close os (fst s) (snd s) in (e, (r, log)))\<rparr>"

section \<open>Handles\<close>

fun opened :: "file_log \<Rightarrow> nat list" where
  "opened [] = []"
| "opened (Opened h p # log) = h # opened log"
| "opened (Closed h # log) = opened log"

fun closed_handles :: "file_log \<Rightarrow> nat list" where
  "closed_handles [] = []"
| "closed_handles (Opened h p # log) = closed_handles log"
| "closed_handles (Closed h # log) = h # closed_handles log"

definition still_open :: "file_log \<Rightarrow> nat list" where
  "still_open log = filter (\<lambda>h. h \<notin> set (closed_handles log)) (opened log)"

text \<open>A log no handle of which was closed twice, or closed without having been opened.\<close>

definition log_ok :: "file_log \<Rightarrow> bool" where
  "log_ok log \<longleftrightarrow>
     distinct (opened log) \<and> distinct (closed_handles log) \<and> set (closed_handles log) \<subseteq> set (opened log) \<and>
     list_all (\<lambda>h. h < length log) (opened log)"

lemma handles_append [simp]:
  "opened (a @ b) = opened a @ opened b"
  "closed_handles (a @ b) = closed_handles a @ closed_handles b"
  by (induction a rule: opened.induct) auto

lemma still_open_distinct: "log_ok log \<Longrightarrow> distinct (still_open log)"
  by (simp add: log_ok_def still_open_def)

lemma file_open_log:
  assumes "log_ok log" "file_open os path log = (Inr f, log')"
  shows "log_ok log'" "still_open log' = still_open log @ [of_handle f]" "of_handle f \<notin> set (still_open log)"
    "os_open os log path = Inr (of_source f)"
proof -
  have log': "log' = log @ [Opened (length log) path]" "of_handle f = length log" "os_open os log path = Inr (of_source f)"
    using assms(2) by (auto simp: file_open_def split: sum.splits)
  have new: "length log \<notin> set (opened log)"
    using assms(1) by (auto simp: log_ok_def list_all_iff)
  then have "length log \<notin> set (closed_handles log)"
    using assms(1) by (auto simp: log_ok_def)
  then show "log_ok log'" "still_open log' = still_open log @ [of_handle f]" "of_handle f \<notin> set (still_open log)"
    using assms(1) new by (auto simp: log' log_ok_def still_open_def list_all_iff)
  show "os_open os log path = Inr (of_source f)"
    by (rule log'(3))
qed

lemma file_close_log:
  assumes "log_ok log" "of_handle f \<in> set (still_open log)"
  shows "log_ok (snd (file_close os f log))"
    "still_open (snd (file_close os f log)) = filter (\<lambda>h. h \<noteq> of_handle f) (still_open log)"
  using assms by (auto simp: file_close_def log_ok_def still_open_def list_all_iff intro!: filter_cong)

lemma close_files_log:
  assumes "log_ok log" "distinct (map of_handle fs)" "of_handle ` set fs \<subseteq> set (still_open log)"
  shows "log_ok (close_files os fs log)
    \<and> still_open (close_files os fs log) = filter (\<lambda>h. h \<notin> of_handle ` set fs) (still_open log)"
  using assms
proof (induction fs arbitrary: log)
  case (Cons f fs)
  let ?log = "snd (file_close os f log)"
  have f: "of_handle f \<in> set (still_open log)"
    using Cons.prems(3) by simp
  have "log_ok (close_files os fs ?log)
      \<and> still_open (close_files os fs ?log) = filter (\<lambda>h. h \<notin> of_handle ` set fs) (still_open ?log)"
    by (rule Cons.IH) (use Cons.prems file_close_log [OF Cons.prems(1) f] in \<open>auto simp: image_iff\<close>)
  then show ?case
    by (auto simp: file_close_log(2) [OF Cons.prems(1) f] intro!: filter_cong)
qed simp

lemma close_each_log: "snd (close_each os fs errs log) = close_files os fs log"
  by (induction fs arbitrary: errs log) (simp_all add: Let_def case_prod_beta)

text \<open>What opening the remaining paths leaves of the handles, with \<open>files\<close> already open.\<close>

definition opened_rest :: "open_file list \<Rightarrow> nat \<Rightarrow> file_log \<Rightarrow> (gerr + open_file list) \<Rightarrow> file_log \<Rightarrow> bool" where
  "opened_rest files n log res log' \<longleftrightarrow> log_ok log' \<and>
    (case res of
       Inl e \<Rightarrow> still_open log' = filter (\<lambda>h. h \<notin> of_handle ` set files) (still_open log)
     | Inr all \<Rightarrow> \<exists>new. all = files @ new \<and> still_open log' = still_open log @ map of_handle new \<and>
                   length new = n)"

lemma opened_rest_Suc:
  assumes "opened_rest (files @ [f]) n log1 res log'"
    and "still_open log1 = still_open log @ [of_handle f]" "of_handle f \<notin> set (still_open log)"
  shows "opened_rest files (Suc n) log res log'"
proof (cases res)
  case (Inl e)
  then show ?thesis
    using assms by (auto simp: opened_rest_def intro!: filter_cong)
next
  case (Inr all)
  then obtain new where "all = files @ f # new" "still_open log' = still_open log @ map of_handle (f # new)"
      "length new = n"
    using assms by (auto simp: opened_rest_def)
  then show ?thesis
    using assms(1) Inr by (auto simp: opened_rest_def intro!: exI [of _ "f # new"])
qed

lemma open_files_log:
  assumes "log_ok log" "distinct (map of_handle files)" "of_handle ` set files \<subseteq> set (still_open log)"
    and "open_files os i ps files log = (res, log')"
  shows "opened_rest files (length ps) log res log'"
  using assms
proof (induction ps arbitrary: i files log)
  case Nil
  then show ?case by (auto simp: opened_rest_def)
next
  case (Cons p ps)
  show ?case
  proof (cases "file_open os p log")
    case (Pair r log1)
    show ?thesis
    proof (cases r)
      case (Inl e)
      then have "log1 = log"
        using Pair by (auto simp: file_open_def split: sum.splits)
      then show ?thesis
        using Cons.prems close_files_log [OF Cons.prems(1-3), of os] Pair Inl by (auto simp: opened_rest_def)
    next
      case (Inr f)
      note f = file_open_log [OF Cons.prems(1) Pair [unfolded Inr]]
      have run: "open_files os (Suc i) ps (files @ [f]) log1 = (res, log')"
        using Cons.prems(4) Pair Inr by simp
      have "opened_rest (files @ [f]) (length ps) log1 res log'"
        by (rule Cons.IH [OF f(1) _ _ run]) (use Cons.prems(2,3) f(2,3) in auto)
      from opened_rest_Suc [OF this f(2,3)] show ?thesis
        by simp
    qed
  qed
qed

text \<open>What a run of \<open>OpenPath\<close> that returned has done.\<close>

lemma open_path_cases:
  assumes "open_path_with_options lib os path opts log = Some (res, log')"
  obtains
    (no_set) e where "discover_segments (os_fs os) path (opt_allow_incomplete (build_options opts)) = Some (Inl e)"
      "res = Inl e" "log' = log"
  | (no_file) paths e where
      "discover_segments (os_fs os) path (opt_allow_incomplete (build_options opts)) = Some (Inr paths)"
      "open_files os 0 paths [] log = (Inl e, log')" "res = Inl e"
  | (no_image) paths files log1 e where
      "discover_segments (os_fs os) path (opt_allow_incomplete (build_options opts)) = Some (Inr paths)"
      "open_files os 0 paths [] log = (Inr files, log1)"
      "open_segments_with_options lib (map of_source files) (build_options opts) = Inl e"
      "res = Inl e" "log' = close_files os files log1"
  | (success) paths files img where
      "discover_segments (os_fs os) path (opt_allow_incomplete (build_options opts)) = Some (Inr paths)"
      "open_files os 0 paths [] log = (Inr files, log')"
      "open_segments_with_options lib (map of_source files) (build_options opts) = Inr img"
      "res = Inr \<lparr>pr_reader = img, pr_files = files, pr_once = False, pr_close_err = None\<rparr>"
  using assms
  by (auto simp: open_path_with_options_def Let_def split: option.splits sum.splits prod.splits)


lemma open_files_events:
  assumes "open_files os i ps files log = (Inr all, log')"
  shows "\<exists>new. all = files @ new \<and> length new = length ps \<and>
    log' = log @ map2 (\<lambda>f p. Opened (of_handle f) p) new ps"
  using assms
proof (induction ps arbitrary: i files log)
  case (Cons p ps)
  obtain f log1 where f: "file_open os p log = (Inr f, log1)"
    and run: "open_files os (Suc i) ps (files @ [f]) log1 = (Inr all, log')"
    using Cons.prems by (auto split: prod.splits sum.splits)
  have "log1 = log @ [Opened (of_handle f) p]"
    using f by (auto simp: file_open_def split: sum.splits)
  moreover obtain new where "all = (files @ [f]) @ new" "length new = length ps"
      "log' = log1 @ map2 (\<lambda>f p. Opened (of_handle f) p) new ps"
    using Cons.IH [OF run] by blast
  ultimately show ?case
    by (intro exI [of _ "f # new"]) simp
qed simp

lemma path_close_log:
  assumes "log_ok log" "distinct (map of_handle (pr_files r))" "of_handle ` set (pr_files r) \<subseteq> set (still_open log)"
    and "\<not> pr_once r" "path_close os r log = (err, r', log')"
  shows "log_ok log'" "still_open log' = filter (\<lambda>h. h \<notin> of_handle ` set (pr_files r)) (still_open log)"
    "path_close os r' log' = (err, r', log')"
proof -
  have "log' = close_files os (pr_files r) log" "r' = r\<lparr>pr_once := True, pr_close_err := err\<rparr>"
    using assms(4,5) close_each_log [of os "pr_files r" "[reader_close (pr_reader r)]" log]
    by (auto simp: path_close_def Let_def split: prod.splits)
  then show "log_ok log'" "still_open log' = filter (\<lambda>h. h \<notin> of_handle ` set (pr_files r)) (still_open log)"
    "path_close os r' log' = (err, r', log')"
    using close_files_log [OF assms(1-3)] by (simp_all add: path_close_def)
qed

text \<open>What a reader from \<open>OpenPath\<close> owns, and what closing it leaves, whatever was read in between.\<close>

lemma opened_path:
  assumes "log_ok log" "open_path_with_options lib os path opts log = Some (Inr r, log')"
  shows "log_ok log'" "still_open log' = still_open log @ map of_handle (pr_files r)" "\<not> pr_once r"
    and "\<exists>sources. open_segments_with_options lib sources (build_options opts) = Inr (pr_reader r)"
proof -
  obtain paths files img where o: "open_files os 0 paths [] log = (Inr files, log')"
    "open_segments_with_options lib (map of_source files) (build_options opts) = Inr img"
    "r = \<lparr>pr_reader = img, pr_files = files, pr_once = False, pr_close_err = None\<rparr>"
    using assms(2) by (cases rule: open_path_cases) auto
  show "log_ok log'" "still_open log' = still_open log @ map of_handle (pr_files r)" "\<not> pr_once r"
    "\<exists>sources. open_segments_with_options lib sources (build_options opts) = Inr (pr_reader r)"
    using open_files_log [OF assms(1) _ _ o(1)] o(2,3) by (auto simp: opened_rest_def)
qed

lemma opened_path_closes:
  assumes "log_ok log'" "still_open log' = before @ map of_handle (pr_files r)" "\<not> pr_once r"
    and "path_close os r log' = (err, r', log'')"
  shows "log_ok log''" "still_open log'' = before" "path_close os r' log'' = (err, r', log'')"
proof -
  have d: "distinct (before @ map of_handle (pr_files r))"
    using still_open_distinct [OF assms(1)] assms(2) by simp
  then have rest: "filter (\<lambda>h. h \<notin> of_handle ` set (pr_files r)) (before @ map of_handle (pr_files r)) = before"
    by (auto simp: filter_empty_conv filter_id_conv)
  have "distinct (map of_handle (pr_files r))" "of_handle ` set (pr_files r) \<subseteq> set (still_open log')"
    using d assms(2) by simp_all
  from path_close_log [OF assms(1) this assms(3,4)] show "log_ok log''" "still_open log'' = before"
    "path_close os r' log'' = (err, r', log'')"
    using rest assms(2) by simp_all
qed

section \<open>The path reader as a reader\<close>

text \<open>
  The states a path reader goes through while it is only read: the image changes, the files,
  the state of \<open>Close\<close> and the log do not.
\<close>

definition path_holds :: "golib \<Rightarrow> path_reader \<Rightarrow> file_log \<Rightarrow> path_reader \<times> file_log \<Rightarrow> bool" where
  "path_holds lib r log s \<longleftrightarrow>
     reader_ok lib (pr_reader (fst s)) \<and> fst s = r\<lparr>pr_reader := pr_reader (fst s)\<rparr> \<and> snd s = log"

interpretation path: device_reader "path_ops lib os" "path_holds lib r log" "\<lambda>s. reader_byte lib (pr_reader (fst s))"
  for lib os r log
proof
  fix s :: "path_reader \<times> file_log" and p off q n err
  assume "path_holds lib r log s"
  then have ok: "reader_ok lib (pr_reader (fst s))" and same: "fst s = r\<lparr>pr_reader := pr_reader (fst s)\<rparr>" "snd s = log"
    by (simp_all add: path_holds_def)
  have "(fst s)\<lparr>pr_reader := img\<rparr> = r\<lparr>pr_reader := img\<rparr>" for img
    by (subst same(1)) simp
  then show "path_holds lib r log (snd (op_read_at (path_ops lib os) s p off)) \<and>
      reader_byte lib (pr_reader (fst (snd (op_read_at (path_ops lib os) s p off)))) = reader_byte lib (pr_reader (fst s))"
    using read_at_keeps [OF ok, of p off] same(2) by (auto simp: path_ops_def path_holds_def case_prod_beta)
  show "longest_from (reader_byte lib (pr_reader (fst s))) off p q n"
    if "fst (op_read_at (path_ops lib os) s p off) = Returns (q, n, err)"
    using read_at_result [OF ok, of p off q n err] that by (simp add: path_ops_def case_prod_beta longest_read_from)
  show "\<exists>j. 0 \<le> j \<and> j < int (length p) \<and> reader_byte lib (pr_reader (fst s)) (off + j) = None"
    if "fst (op_read_at (path_ops lib os) s p off) = Panics"
    using read_at_panics_short [OF ok, of p off] that by (simp add: path_ops_def case_prod_beta)
qed

lemma path_ops_simps:
  "op_size (path_ops lib os) s = reader_size (pr_reader (fst s))"
  "op_metadata (path_ops lib os) s = ir_metadata (pr_reader (fst s))"
  by (simp_all add: path_ops_def)

section \<open>Concurrent Close\<close>

text \<open>
  Goroutines calling \<open>Close\<close> on one reader. \<open>sync.Once\<close> lets the first in, keeps the
  others waiting (they have no step) while it runs, and lets them through when it is done.
\<close>

datatype closer = Calling | Inside "open_file list" "gerr option list" | Returned "gerr option"

datatype once_state = OnceNew | OnceRunning | OnceDone

record close_conf =
  cc_threads :: "closer list"
  cc_once :: once_state
  cc_err :: "gerr option"
  cc_log :: file_log

inductive close_step :: "os_calls \<Rightarrow> path_reader \<Rightarrow> close_conf \<Rightarrow> close_conf \<Rightarrow> bool"
  for os :: os_calls and r :: path_reader where
  enter: "i < length (cc_threads c) \<Longrightarrow> cc_threads c ! i = Calling \<Longrightarrow> cc_once c = OnceNew \<Longrightarrow>
    close_step os r c (c\<lparr>cc_threads := (cc_threads c)[i := Inside (pr_files r) [reader_close (pr_reader r)]],
                         cc_once := OnceRunning\<rparr>)"
| close_one: "i < length (cc_threads c) \<Longrightarrow> cc_threads c ! i = Inside (f # fs) errs \<Longrightarrow>
    file_close os f (cc_log c) = (e, log') \<Longrightarrow>
    close_step os r c (c\<lparr>cc_threads := (cc_threads c)[i := Inside fs (errs @ [e])], cc_log := log'\<rparr>)"
| finish: "i < length (cc_threads c) \<Longrightarrow> cc_threads c ! i = Inside [] errs \<Longrightarrow>
    close_step os r c (c\<lparr>cc_threads := (cc_threads c)[i := Returned (errors_join errs)],
                         cc_once := OnceDone, cc_err := errors_join errs\<rparr>)"
| again: "i < length (cc_threads c) \<Longrightarrow> cc_threads c ! i = Calling \<Longrightarrow> cc_once c = OnceDone \<Longrightarrow>
    close_step os r c (c\<lparr>cc_threads := (cc_threads c)[i := Returned (cc_err c)]\<rparr>)"

inductive_cases close_stepE: "close_step os r c c'"

definition close_start :: "nat \<Rightarrow> file_log \<Rightarrow> close_conf" where
  "close_start n log = \<lparr>cc_threads = replicate n Calling, cc_once = OnceNew, cc_err = None, cc_log = log\<rparr>"

abbreviation close_steps :: "os_calls \<Rightarrow> path_reader \<Rightarrow> close_conf \<Rightarrow> close_conf \<Rightarrow> bool" where
  "close_steps os r \<equiv> (close_step os r)\<^sup>*\<^sup>*"

definition running :: "os_calls \<Rightarrow> path_reader \<Rightarrow> file_log \<Rightarrow> close_conf \<Rightarrow> nat \<Rightarrow> bool" where
  "running os r log0 c i \<longleftrightarrow>
     (\<exists>closed fs errs. i < length (cc_threads c) \<and> cc_threads c ! i = Inside fs errs \<and>
        (\<forall>j < length (cc_threads c). j \<noteq> i \<longrightarrow> cc_threads c ! j = Calling) \<and>
        pr_files r = closed @ fs \<and> close_each os closed [reader_close (pr_reader r)] log0 = (errs, cc_log c))"

definition close_inv :: "os_calls \<Rightarrow> path_reader \<Rightarrow> file_log \<Rightarrow> close_conf \<Rightarrow> bool" where
  "close_inv os r log0 c \<longleftrightarrow>
     (case cc_once c of
        OnceNew \<Rightarrow> (\<forall>i < length (cc_threads c). cc_threads c ! i = Calling) \<and> cc_log c = log0
      | OnceRunning \<Rightarrow> (\<exists>i. running os r log0 c i)
      | OnceDone \<Rightarrow>
          (\<forall>i < length (cc_threads c). cc_threads c ! i = Calling \<or> cc_threads c ! i = Returned (cc_err c)) \<and>
          (\<exists>errs. close_each os (pr_files r) [reader_close (pr_reader r)] log0 = (errs, cc_log c) \<and>
                  cc_err c = errors_join errs))"

lemma close_each_append:
  "close_each os (a @ b) errs log =
     (case close_each os a errs log of (errs', log') \<Rightarrow> close_each os b errs' log')"
  by (induction a arbitrary: errs log) (auto simp: Let_def split: prod.splits)

lemma running_unique:
  assumes "running os r log0 c k" "i < length (cc_threads c)" "cc_threads c ! i \<noteq> Calling"
  shows "i = k"
  using assms unfolding running_def by blast

lemma close_inv_inside:
  assumes "close_inv os r log0 c" "i < length (cc_threads c)" "cc_threads c ! i = Inside fs errs"
  shows "cc_once c = OnceRunning \<and> running os r log0 c i"
proof (cases "cc_once c")
  case OnceRunning
  then obtain k where "running os r log0 c k"
    using assms(1) by (auto simp: close_inv_def)
  with running_unique [OF this assms(2)] assms(3) OnceRunning show ?thesis
    by simp
qed (use assms in \<open>auto simp: close_inv_def\<close>)

lemma close_step_inv:
  assumes "close_step os r c c'" "close_inv os r log0 c"
  shows "close_inv os r log0 c'"
  using assms(1)
proof (cases rule: close_step.cases)
  case (enter i)
  then have "running os r log0 c' i"
    using assms(2) by (auto simp: close_inv_def running_def nth_list_update intro!: exI [of _ "[]"])
  then show ?thesis
    using enter by (auto simp: close_inv_def)
next
  case (close_one i f fs errs e log')
  note run = close_inv_inside [OF assms(2) close_one(2,3)]
  then obtain closed where cl: "pr_files r = closed @ f # fs"
      "close_each os closed [reader_close (pr_reader r)] log0 = (errs, cc_log c)"
      "\<forall>j < length (cc_threads c). j \<noteq> i \<longrightarrow> cc_threads c ! j = Calling"
    using close_one(3) by (auto simp: running_def)
  have "close_each os (closed @ [f]) [reader_close (pr_reader r)] log0 = (errs @ [e], log')"
    using cl(2) close_one(4) by (simp add: close_each_append)
  then have "running os r log0 c' i"
    using cl close_one by (auto simp: running_def intro!: exI [of _ "closed @ [f]"])
  then show ?thesis
    using run close_one(1) by (auto simp: close_inv_def)
next
  case (finish i errs)
  note run = close_inv_inside [OF assms(2) finish(2,3)]
  then show ?thesis
    using finish by (auto simp: close_inv_def running_def nth_list_update)
next
  case (again i)
  then show ?thesis
    using assms(2) by (auto simp: close_inv_def nth_list_update)
qed

lemma close_steps_inv: "close_steps os r (close_start n log0) c \<Longrightarrow> close_inv os r log0 c"
proof (induction rule: rtranclp_induct)
  case base
  show ?case by (simp add: close_inv_def close_start_def)
next
  case (step c c')
  then show ?case using close_step_inv by blast
qed

lemma close_steps_length: "close_steps os r c c' \<Longrightarrow> length (cc_threads c') = length (cc_threads c)"
  by (induction rule: rtranclp_induct) (auto elim!: close_stepE)

lemma close_progress:
  assumes "close_inv os r log0 c" "i < length (cc_threads c)" "\<not> (\<exists>e. cc_threads c ! i = Returned e)"
  shows "\<exists>c'. close_step os r c c'"
proof (cases "cc_once c")
  case OnceNew
  then show ?thesis
    using assms close_step.enter [of i c os r] by (auto simp: close_inv_def)
next
  case OnceRunning
  then obtain k fs errs where k: "k < length (cc_threads c)" "cc_threads c ! k = Inside fs errs"
    using assms(1) by (auto simp: close_inv_def running_def)
  show ?thesis
  proof (cases fs)
    case Nil
    then show ?thesis
      using close_step.finish [of k c errs os r] k by auto
  next
    case (Cons f fs')
    then show ?thesis
      using close_step.close_one [of k c f fs' errs os _ _ r] k by (metis surj_pair)
  qed
next
  case OnceDone
  then show ?thesis
    using assms close_step.again [of i c os r] by (auto simp: close_inv_def)
qed

lemma close_returned:
  assumes "close_inv os r log0 c" "\<not> pr_once r" "path_close os r log0 = (err, r', log1)"
    and "i < length (cc_threads c)" "cc_threads c ! i = Returned e"
  shows "e = err \<and> cc_log c = log1"
proof (cases "cc_once c")
  case OnceRunning
  then obtain k where k: "running os r log0 c k"
    using assms(1) by (auto simp: close_inv_def)
  have "i = k"
    using running_unique [OF k assms(4)] assms(5) by simp
  then show ?thesis
    using k assms(5) by (simp add: running_def)
qed (use assms in \<open>auto simp: close_inv_def path_close_def Let_def split: prod.splits\<close>)

lemma close_log_prefix:
  assumes "close_inv os r log0 c"
  shows "\<exists>fs. prefix fs (pr_files r) \<and> cc_log c = close_files os fs log0"
proof -
  have log: "cc_log c = close_files os fs log0"
    if "close_each os fs [reader_close (pr_reader r)] log0 = (errs, cc_log c)" for fs errs
    using close_each_log [of os fs "[reader_close (pr_reader r)]" log0] that by simp
  show ?thesis
  proof (cases "cc_once c")
    case OnceNew
    then show ?thesis
      using assms by (auto simp: close_inv_def intro!: exI [of _ "[]"])
  next
    case OnceRunning
    then obtain closed fs errs where "pr_files r = closed @ fs"
        "close_each os closed [reader_close (pr_reader r)] log0 = (errs, cc_log c)"
      using assms by (auto simp: close_inv_def running_def)
    then show ?thesis
      using log [of closed] by (auto intro!: exI [of _ closed])
  next
    case OnceDone
    then show ?thesis
      using assms log [of "pr_files r"] by (auto simp: close_inv_def intro!: exI [of _ "pr_files r"])
  qed
qed

section \<open>Properties\<close>

text \<open>
  C18. \<open>OpenPath\<close> never leaks a file: when it fails, at whatever step, every file it opened
  is closed again, and when it succeeds the files it opened are those the reader owns;
  its \<open>Close\<close> closes them all, none twice, and a second \<open>Close\<close> does nothing but return
  the same error.
\<close>

theorem open_path_owns_files:
  assumes "log_ok log" "open_path_with_options lib os path opts log = Some (res, log')"
  shows "log_ok log' \<and>
    (case res of
       Inl e \<Rightarrow> still_open log' = still_open log
     | Inr r \<Rightarrow> still_open log' = still_open log @ map of_handle (pr_files r) \<and>
         (case path_close os r log' of
            (err, r', log'') \<Rightarrow> log_ok log'' \<and> still_open log'' = still_open log \<and>
                               path_close os r' log'' = (err, r', log'')))"
  using assms(2)
proof (cases rule: open_path_cases)
  case no_set
  then show ?thesis
    using assms(1) by simp
next
  case (no_file paths e)
  then show ?thesis
    using open_files_log [OF assms(1) _ _ no_file(2)] by (simp add: opened_rest_def)
next
  case (no_image paths files log1 e)
  have f: "log_ok log1" "still_open log1 = still_open log @ map of_handle files"
    using open_files_log [OF assms(1) _ _ no_image(2)] by (auto simp: opened_rest_def)
  moreover have "distinct (still_open log @ map of_handle files)"
    using still_open_distinct [OF f(1)] f(2) by simp
  moreover from this have "filter (\<lambda>h. h \<notin> of_handle ` set files) (still_open log @ map of_handle files) = still_open log"
    by (auto simp: filter_empty_conv filter_id_conv)
  ultimately show ?thesis
    using no_image close_files_log [OF f(1), of files os] by auto
next
  case (success paths files img)
  then obtain r where r: "res = Inr r" "pr_files r = files"
    by simp
  note o = opened_path [OF assms(1) assms(2) [unfolded r(1)]]
  show ?thesis
    using o(1,2) opened_path_closes [OF o(1-3), of os] by (cases "path_close os r log'") (auto simp: r(1))
qed

text \<open>
  C20. A reader from \<open>OpenPath\<close> reads the discovered set: it opened exactly the set's files,
  in segment order, its image is what \<open>OpenSegments\<close> makes of them under the options, and
  unless an incomplete set was allowed no number is missing.
\<close>

theorem open_path_reads_set:
  assumes "discover (os_fs os) path = Inr s" "open_path_with_options lib os path opts log = Some (Inr r, log')"
  shows "open_segments_with_options lib (map of_source (pr_files r)) (build_options opts) = Inr (pr_reader r)
    \<and> length (pr_files r) = length (set_segments s)
    \<and> log' = log @ map2 (\<lambda>f p. Opened (of_handle f) p) (pr_files r) (set_paths s)
    \<and> (if opt_allow_incomplete (build_options opts) then True else set_missing s = Some [])"
  using assms(2)
proof (cases rule: open_path_cases)
  case (success paths files img)
  have "paths = set_paths s \<and> (if opt_allow_incomplete (build_options opts) then True else set_missing s = Some [])"
    using success(1) assms(1) by (auto simp: discover_segments_def split: if_splits option.splits)
  then show ?thesis
    using success open_files_events [OF success(2)] by (auto simp: set_paths_def)
qed simp_all

text \<open>
  C21. A set with holes is refused with the numbers that are missing, those that are there and
  the names of the missing files, an error that is \<open>ErrMissingSegment\<close>; a set without is
  its paths in segment order. The search for holes always ends.
\<close>

theorem discover_segments_exact:
  assumes "discover fs path = Inr s"
    and "missing = filter (\<lambda>k. k \<notin> set (set_numbers s)) (map word_of_int [1..uint (last (set_numbers s))])"
  shows "discover_segments fs path allow = Some (
      if allow \<or> missing = [] then Inr (set_paths s)
      else Inl (MissingSegmentsError path missing (set_numbers s) (set_names s missing)))
    \<and> is_sentinel (MissingSegmentsError path missing (set_numbers s) (set_names s missing)) ErrMissingSegment"
  using discover_missing_total [OF assms(1), folded assms(2)] by (simp add: discover_segments_def assms(1))

text \<open>
  C22. A whole session on a path: open, verify, close. Whatever state the image is in, a
  verification that returns either fails because the device has no size, or with the error
  of the context at the first pass at which it was done, or reports on the whole device
  the files hold: its digests with zeros exactly in the bad ranges, and a verdict that is
  right about the stored digests. Verifying opens and closes nothing, and closing the
  reader afterwards leaves open exactly the files that were open before the session.
\<close>

theorem path_session:
  assumes "log_ok log" "open_path_with_options lib os path opts log = Some (Inr r, log1)"
    and "verify (path_ops lib os) dg ctx (r, log1) = Returns (res, (r2, log2))"
    and "path_close os r2 log2 = (err, r3, log3)"
  shows "log2 = log1 \<and> still_open log1 = still_open log @ map of_handle (pr_files r)
    \<and> log_ok log3 \<and> still_open log3 = still_open log
    \<and> (let img = pr_reader r; passes = stopped_at ctx (verify_step (ir_metadata img)) (reader_size img) 0 0 in
       case res of
         Inl e \<Rightarrow> reader_size img \<le> 0 \<and> e = wraps ''libewf: image has no logical size to verify'' ErrCorruptImage
           \<or> passes (Some e)
       | Inr v \<Rightarrow> 0 < reader_size img \<and> passes None
           \<and> report_on dg (reader_byte lib img) (reader_size img) (ir_metadata img) v)"
proof -
  note o = opened_path [OF assms(1,2)]
  obtain sources where "open_segments_with_options lib sources (build_options opts) = Inr (pr_reader r)"
    using o(4) by blast
  then have ok: "reader_ok lib (pr_reader r)"
    by (rule opened_reader_ok)
  then have start: "path_holds lib r log1 (r, log1)" "reader_size (pr_reader r) \<le> 9223372036854775807"
    by (simp_all add: path_holds_def reader_ok_def reader_size_def)
  note v = path.verify_contract [OF start(1) _ assms(3), unfolded path_ops_simps fst_conv, OF start(2)]
  have "log2 = log1" "pr_files r2 = pr_files r" "pr_once r2 = pr_once r"
    using v by (auto simp: path_holds_def dest: arg_cong [where f = pr_files] arg_cong [where f = pr_once])
  moreover from this have "log_ok log3" "still_open log3 = still_open log"
    using opened_path_closes [OF o(1) _ _ assms(4) [unfolded \<open>log2 = log1\<close>], of "still_open log"] o(2,3) by simp_all
  ultimately show ?thesis
    using v o(2) by (simp add: Let_def)
qed

text \<open>
  C19. \<open>Close\<close> may be called by any number of goroutines at once: in every interleaving the
  files are closed once each, in order, as by a single call; every call that returns does
  so after the last file was closed and with the error of that one call; and as long as a
  call has not returned some goroutine can take a step.
\<close>

theorem concurrent_close:
  assumes "\<not> pr_once r" "path_close os r log0 = (err, r', log1)"
    and "close_steps os r (close_start n log0) c"
  shows "\<not> (\<exists>i e. i < n \<and> cc_threads c ! i = Returned e \<and> (e \<noteq> err \<or> cc_log c \<noteq> log1))
    \<and> (\<exists>fs. prefix fs (pr_files r) \<and> cc_log c = close_files os fs log0)
    \<and> \<not> ((\<exists>i < n. \<not> (\<exists>e. cc_threads c ! i = Returned e)) \<and> \<not> (\<exists>c'. close_step os r c c'))"
proof -
  have inv: "close_inv os r log0 c" and len: "length (cc_threads c) = n"
    using close_steps_inv [OF assms(3)] close_steps_length [OF assms(3)] by (simp_all add: close_start_def)
  have "e = err \<and> cc_log c = log1" if "i < n" "cc_threads c ! i = Returned e" for i e
    using close_returned [OF inv assms(1,2)] that len by simp
  moreover have "\<exists>c'. close_step os r c c'" if "i < n" "\<not> (\<exists>e. cc_threads c ! i = Returned e)" for i
    using close_progress [OF inv] that len by simp
  moreover note close_log_prefix [OF inv]
  ultimately show ?thesis
    by blast
qed

definition pair_fs :: file_system where
  "pair_fs = \<lparr>fs_stat = (\<lambda>p. Inr RegularFile),
     fs_read_dir = (\<lambda>p. Inr [(''d.E02'', RegularEntry), (''d.E01'', RegularEntry), (''notes.txt'', RegularEntry)]),
     fs_equal_fold = ascii_fold\<rparr>"

definition pair_os :: os_calls where
  "pair_os = \<lparr>os_fs = pair_fs,
     os_open = (\<lambda>log p. if p = ''/c/d.E01'' then Inr sample_first
                        else if p = ''/c/d.E02'' then Inr sample_last else Inl (Plain ''no such file'')),
     os_close = (\<lambda>log h. None)\<rparr>"

definition pair_set :: segment_set where
  "pair_set = \<lparr>set_family = \<lparr>fam_base = CHR ''E'', fam_v2 = False\<rparr>, set_dir = ''/c'', set_stem = ''d'',
     set_segments = [\<lparr>sf_number = 1, sf_path = ''/c/d.E01''\<rparr>, \<lparr>sf_number = 2, sf_path = ''/c/d.E02''\<rparr>]\<rparr>"

lemma pair_discovers: "discover pair_fs ''/c/d.E02'' = Inr pair_set"
  by code_simp

lemma pair_missing: "set_missing pair_set = Some []"
  by code_simp

lemma pair_paths: "set_paths pair_set = [''/c/d.E01'', ''/c/d.E02'']"
  by (simp add: set_paths_def pair_set_def)

lemma pair_opens:
  obtains r where "open_path_with_options plain_lib pair_os ''/c/d.E02'' [] []
      = Some (Inr r, [Opened 0 ''/c/d.E01'', Opened 1 ''/c/d.E02''])" "map of_handle (pr_files r) = [0, 1]"
    "map of_source (pr_files r) = [sample_first, sample_last]"
proof -
  obtain img where img: "open_segments_with_options plain_lib [sample_first, sample_last] default_options = Inr img"
    using opens_Inr [OF sample_pair_opens] by blast
  have "discover_segments pair_fs ''/c/d.E02'' False = Some (Inr [''/c/d.E01'', ''/c/d.E02''])"
    by (simp add: discover_segments_def pair_discovers pair_missing pair_paths)
  then have "open_path_with_options plain_lib pair_os ''/c/d.E02'' [] []
      = Some (Inr \<lparr>pr_reader = img, pr_files = [\<lparr>of_handle = 0, of_source = sample_first\<rparr>,
                                            \<lparr>of_handle = 1, of_source = sample_last\<rparr>],
                   pr_once = False, pr_close_err = None\<rparr>,
              [Opened 0 ''/c/d.E01'', Opened 1 ''/c/d.E02''])"
    by (simp add: open_path_with_options_def build_options_def default_options_def file_open_def pair_os_def
        img [unfolded default_options_def])
  from that [OF this] show thesis
    by simp
qed

theorem open_path_owns_files_witness:
  "\<exists>r log'. open_path_with_options plain_lib pair_os ''/c/d.E02'' [] [] = Some (Inr r, log')
     \<and> still_open log' = [0, 1] \<and> still_open (snd (snd (path_close pair_os r log'))) = []"
proof -
  obtain r where r: "open_path_with_options plain_lib pair_os ''/c/d.E02'' [] []
      = Some (Inr r, [Opened 0 ''/c/d.E01'', Opened 1 ''/c/d.E02''])"
    by (rule pair_opens)
  have "log_ok []" "still_open [] = []"
    by (simp_all add: log_ok_def still_open_def)
  then show ?thesis
    using open_path_owns_files [OF _ r] r
    by (intro exI [of _ r] exI) (auto simp: still_open_def split: prod.splits)
qed

theorem open_path_reads_set_witness:
  "\<exists>r log'. open_path_with_options plain_lib pair_os ''/c/d.E02'' [] [] = Some (Inr r, log')
     \<and> open_segments_with_options plain_lib [sample_first, sample_last] (build_options []) = Inr (pr_reader r)"
proof -
  obtain r where r: "open_path_with_options plain_lib pair_os ''/c/d.E02'' [] []
      = Some (Inr r, [Opened 0 ''/c/d.E01'', Opened 1 ''/c/d.E02''])"
    and files: "map of_source (pr_files r) = [sample_first, sample_last]"
    by (rule pair_opens)
  have "discover (os_fs pair_os) ''/c/d.E02'' = Inr pair_set"
    using pair_discovers by (simp add: pair_os_def)
  from open_path_reads_set [OF this r] show ?thesis
    using r files by auto
qed

theorem discover_segments_exact_witness:
  "discover_segments sample_fs ''/c/d.E04'' False =
     Some (Inl (MissingSegmentsError ''/c/d.E04'' [3] [1, 2, 4] [''d.E03'']))"
proof -
  have m: "[3] = filter (\<lambda>k. k \<notin> set (set_numbers sample_set)) (map word_of_int [1..uint (last (set_numbers sample_set))])"
    by code_simp
  have "set_numbers sample_set = [1, 2, 4]" "set_names sample_set [3] = [''d.E03'']"
    by code_simp+
  then show ?thesis
    using discover_segments_exact [OF sample_discovers m, of False] by simp
qed

definition hashed_os :: os_calls where
  "hashed_os = \<lparr>os_fs = \<lparr>fs_stat = (\<lambda>p. Inr RegularFile), fs_read_dir = (\<lambda>p. Inr [(''d.E01'', RegularEntry)]),
     fs_equal_fold = ascii_fold\<rparr>, os_open = (\<lambda>log p. Inr sample_hashed), os_close = (\<lambda>log h. None)\<rparr>"

theorem path_session_witness:
  "\<exists>r v s. open_path_with_options plain_lib hashed_os ''/c/d.E01'' [] [] = Some (Inr r, [Opened 0 ''/c/d.E01''])
    \<and> verify (path_ops plain_lib hashed_os) sample_digests (\<lambda>pass. None) (r, [Opened 0 ''/c/d.E01'']) = Returns (Inr v, s)
    \<and> vr_ok v \<and> still_open (snd (snd (path_close hashed_os (fst s) (snd s)))) = []"
proof -
  let ?log = "[Opened 0 ''/c/d.E01'']"
  have "discover_segments (os_fs hashed_os) ''/c/d.E01'' False = Some (Inr [''/c/d.E01''])"
    by code_simp
  then obtain r where r: "open_path_with_options plain_lib hashed_os ''/c/d.E01'' [] [] = Some (Inr r, ?log)"
    and img: "pr_reader r = hashed_reader"
    using hashed_reader_opens
    by (simp add: open_path_with_options_def build_options_def default_options_def file_open_def hashed_os_def Let_def)
  have "path_holds plain_lib r ?log (r, ?log)"
    using opened_reader_ok [OF hashed_reader_opens] img by (simp add: path_holds_def)
  moreover have size: "reader_size hashed_reader = 8"
    using hashed_reader_facts by (simp add: image_facts_def reader_size_def)
  ultimately obtain v r2 log2 where run: "verify (path_ops plain_lib hashed_os) sample_digests (\<lambda>pass. None) (r, ?log)
      = Returns (Inr v, (r2, log2))"
    using path.verify_returns [of plain_lib r ?log "(r, ?log)" hashed_os "\<lambda>pass. None" sample_digests]
      device_is_in [OF hashed_device] img by (auto simp: path_ops_simps reader_size_def)
  obtain err r3 log3 where close: "path_close hashed_os r2 log2 = (err, r3, log3)"
    by (metis prod_cases3)
  have "log_ok []" "still_open [] = []"
    by (simp_all add: log_ok_def still_open_def)
  then have after: "still_open log3 = []" "report_on sample_digests (reader_byte plain_lib hashed_reader) 8 (ir_metadata hashed_reader) v"
    using path_session [OF _ r run close] img size by (auto simp: Let_def)
  have m: "inf_has_md5 (ir_metadata hashed_reader)" "\<not> inf_has_sha1 (ir_metadata hashed_reader)"
    "inf_md5 (ir_metadata hashed_reader) = sample_digest"
    using hashed_reader_facts by (simp_all add: image_facts_def)
  obtain d where d: "hashed_image (reader_byte plain_lib hashed_reader) (vr_bad v) 8 d"
    "ranges_ok (reader_byte plain_lib hashed_reader) (vr_bad v) 8"
    and ok: "vr_ok v \<longleftrightarrow> vr_bad v = [] \<and> sample_digest = md5_sum sample_digests d"
    using after(2) m unfolding report_on_def by auto
  note w = hashed_whole [of plain_lib hashed_reader "vr_bad v" d, folded reader_size_def, unfolded size, OF d(1) _ d(2)]
  have bad: "vr_bad v = []"
    using w(2) [of "take 8 sample_digest"] hashed_device by auto
  then have "d = take 8 sample_digest"
    using w(1) hashed_device device_is_unique by auto
  then have "vr_ok v"
    using bad sample_digest_facts(2) by (simp add: ok)
  then show ?thesis
    using r run close after(1) by (intro exI conjI) auto
qed

definition sample_path_reader :: path_reader where
  "sample_path_reader = \<lparr>pr_reader = sample_reader, pr_files = [\<lparr>of_handle = 7, of_source = sample_last\<rparr>],
     pr_once = False, pr_close_err = None\<rparr>"

theorem concurrent_close_witness:
  "\<exists>c. close_steps pair_os sample_path_reader (close_start 2 []) c
     \<and> cc_threads c = [Calling, Returned None] \<and> cc_log c = [Closed 7]"
proof -
  let ?r = sample_path_reader
  have c: "path_close pair_os ?r [] = (None, ?r\<lparr>pr_once := True, pr_close_err := None\<rparr>, [Closed 7])" "\<not> pr_once ?r"
    by (simp_all add: path_close_def sample_path_reader_def file_close_def pair_os_def reader_close_def
        errors_join_def List.map_filter_simps)
  let ?c1 = "\<lparr>cc_threads = [Calling, Inside (pr_files ?r) [None]], cc_once = OnceRunning, cc_err = None, cc_log = []\<rparr>"
  let ?c2 = "\<lparr>cc_threads = [Calling, Inside [] [None, None]], cc_once = OnceRunning, cc_err = None, cc_log = [Closed 7]\<rparr>"
  let ?c3 = "\<lparr>cc_threads = [Calling, Returned None], cc_once = OnceDone, cc_err = None, cc_log = [Closed 7]\<rparr>"
  have "close_step pair_os ?r (close_start 2 []) ?c1"
    using close_step.enter [of 1 "close_start 2 []" pair_os ?r]
    by (simp add: close_start_def numeral_2_eq_2 reader_close_def)
  moreover have "close_step pair_os ?r ?c1 ?c2"
    using close_step.close_one [of 1 ?c1 "\<lparr>of_handle = 7, of_source = sample_last\<rparr>" "[]" "[None]" pair_os None "[Closed 7]" ?r]
    by (simp add: sample_path_reader_def file_close_def pair_os_def)
  moreover have "close_step pair_os ?r ?c2 ?c3"
    using close_step.finish [of 1 ?c2 "[None, None]" pair_os ?r] by (simp add: errors_join_def List.map_filter_simps)
  ultimately have steps: "close_steps pair_os ?r (close_start 2 []) ?c3"
    by (meson converse_rtranclp_into_rtranclp rtranclp.rtrancl_refl)
  then have "\<not> (\<exists>i e. i < 2 \<and> cc_threads ?c3 ! i = Returned e \<and> (e \<noteq> None \<or> cc_log ?c3 \<noteq> [Closed 7]))"
    using concurrent_close [OF c(2,1) steps] by blast
  with steps show ?thesis
    by (intro exI [of _ ?c3]) simp
qed

end
