(* ===== verification/Corpus.thy ===== *)
theory Corpus
  imports Open_Path "HOL-Library.List_Lexorder" "HOL-Library.Char_ord" "HOL-Library.Signed_Division"
begin

text \<open>
  The golden-image corpus: \<open>internal/corpus/manifest.go\<close> and \<open>tools/mkcorpus/main.go\<close>.
  What the tool asks of the machine (files, directories, \<open>ewfacquire\<close>, \<open>ewfinfo\<close>) is a
  record of functions of the log of what it did so far; JSON, SHA-256 and \<open>time\<close> are
  parameters of the standard library.
\<close>

section \<open>The manifest\<close>

definition oracle_raw_source :: string where "oracle_raw_source = ''raw-source''"
definition oracle_stored_digest :: string where "oracle_stored_digest = ''stored-digest''"
definition manifest_name :: string where "manifest_name = ''manifest.json''"
definition acquiry_date_wall_layout :: string where "acquiry_date_wall_layout = ''2006-01-02 15:04:05''"

record expected_acquisition =
  ea_case_number :: string
  ea_evidence_number :: string
  ea_description :: string
  ea_examiner_name :: string
  ea_notes :: string
  ea_acquiry_date_unix :: int
  ea_acquiry_date_wall :: string

record entry =
  en_name :: string
  en_segments :: "string list"
  en_oracle :: string
  en_producer :: string
  en_notes :: string
  en_size :: int
  en_sector_size :: int
  en_decoded_sha256 :: string
  en_stored_md5 :: string
  en_stored_sha1 :: string
  en_require_verify_ok :: bool
  en_acquisition :: "expected_acquisition option"
  en_incomplete :: bool

definition zero_entry :: entry where
  "zero_entry = \<lparr>en_name = [], en_segments = [], en_oracle = [], en_producer = [], en_notes = [], en_size = 0,
     en_sector_size = 0, en_decoded_sha256 = [], en_stored_md5 = [], en_stored_sha1 = [],
     en_require_verify_ok = False, en_acquisition = None, en_incomplete = False\<rparr>"

record manifest =
  mf_version :: int
  mf_entries :: "entry list"

definition validate_entry :: "entry \<Rightarrow> gerr option" where
  "validate_entry e =
     (if en_name e = [] then Some (Plain ''corpus: entry has no name'')
      else if en_segments e = [] then Some (Plain ''corpus: entry lists no segments'')
      else if en_incomplete e then None
      else if en_oracle e = oracle_raw_source then
        (if en_decoded_sha256 e = []
         then Some (Plain ''corpus: entry uses the raw-source oracle but records no decodedSHA256'') else None)
      else if en_oracle e = oracle_stored_digest then
        (if en_stored_md5 e = [] \<and> en_stored_sha1 e = []
         then Some (Plain ''corpus: entry uses the stored-digest oracle but records no expected digest'')
         else if \<not> en_require_verify_ok e
         then Some (Plain ''corpus: entry uses the stored-digest oracle but does not require Verify to succeed, so it checks nothing'')
         else None)
      else Some (Plain ''corpus: entry has unknown oracle''))"

section \<open>The machine\<close>

datatype tool_event =
    MkdirAll string
  | RemoveFile string
  | RemoveAll string
  | Exec "string list"
  | WriteFile string bytes
  | OpenFile string
  | CreateFile string
  | CopyData string string
  | SyncFile string
  | CloseFile string

type_synonym tool_log = "tool_event list"

datatype read_outcome = NotExist | ReadFailed gerr | Contents bytes

record 't machine =
  mc_fs :: "tool_log \<Rightarrow> file_system"
  mc_mkdir :: "tool_log \<Rightarrow> string \<Rightarrow> gerr option"
  mc_read :: "tool_log \<Rightarrow> string \<Rightarrow> read_outcome"
  mc_write :: "tool_log \<Rightarrow> string \<Rightarrow> bytes \<Rightarrow> gerr option"
  mc_abs :: "string \<Rightarrow> gerr + string"
  mc_open :: "tool_log \<Rightarrow> string \<Rightarrow> gerr + io_source"
  mc_create :: "tool_log \<Rightarrow> string \<Rightarrow> gerr option"
  mc_transfer :: "tool_log \<Rightarrow> string \<Rightarrow> string \<Rightarrow> gerr option"
  mc_sync :: "tool_log \<Rightarrow> string \<Rightarrow> gerr option"
  mc_glob :: "tool_log \<Rightarrow> string \<Rightarrow> gerr + string list"
  mc_has_ewfacquire :: bool
  mc_exec :: "tool_log \<Rightarrow> string list \<Rightarrow> gerr + string"
  mc_json_decode :: "bytes \<Rightarrow> gerr + manifest"
  mc_json_encode :: "manifest \<Rightarrow> gerr + bytes"
  mc_sha256 :: "bytes \<Rightarrow> bytes"
  mc_parse_time :: "string \<Rightarrow> string \<Rightarrow> 't option"
  mc_time_is_zero :: "'t \<Rightarrow> bool"
  mc_time_unix :: "'t \<Rightarrow> int"
  mc_time_format :: "string \<Rightarrow> 't \<Rightarrow> string"
  mc_zero_time :: 't

definition load_manifest :: "'t machine \<Rightarrow> tool_log \<Rightarrow> string \<Rightarrow> manifest option \<times> bool \<times> gerr option" where
  "load_manifest mc log dir =
     (case mc_read mc log (path_join dir manifest_name) of
        NotExist \<Rightarrow> (None, False, None)
      | ReadFailed e \<Rightarrow> (None, False, Some e)
      | Contents data \<Rightarrow>
          (case mc_json_decode mc data of
             Inl e \<Rightarrow> (None, True, Some (Wrapped ''corpus: parsing'' e))
           | Inr m \<Rightarrow>
               (if mf_version m \<noteq> 1 then (None, True, Some (Plain ''corpus: unsupported manifest version''))
                else (Some m, True, None))))"

text \<open>Entries of one name may be written in any order; here they keep theirs.\<close>

definition save_manifest :: "'t machine \<Rightarrow> string \<Rightarrow> manifest \<Rightarrow> tool_log \<Rightarrow> gerr option \<times> tool_log" where
  "save_manifest mc dir m log =
     (let m' = m\<lparr>mf_entries := sort_key en_name (mf_entries m)\<rparr> in
      case mc_json_encode mc m' of
        Inl e \<Rightarrow> (Some e, log)
      | Inr data \<Rightarrow>
          (let path = path_join dir manifest_name; full = data @ [10] in
           (mc_write mc log path full, log @ [WriteFile path full])))"

section \<open>Names\<close>

definition hex_digit :: "int \<Rightarrow> char" where
  "hex_digit d = char_of (if d < 10 then 48 + d else 87 + d)"

definition hex_encode :: "bytes \<Rightarrow> string" where
  "hex_encode bs = concat (map (\<lambda>b. [hex_digit (uint b div 16), hex_digit (uint b mod 16)]) bs)"

text \<open>The first rune of a string and its width, as \<open>range\<close> reads it: a byte that starts no
  well-formed sequence is U+FFFD of width one.\<close>

definition continuation :: "int \<Rightarrow> bool" where
  "continuation b \<longleftrightarrow> 0x80 \<le> b \<and> b \<le> 0xBF"

fun first_rune :: "int list \<Rightarrow> int \<times> nat" where
  "first_rune [] = (0xFFFD, 1)"
| "first_rune (a # bs) =
     (if a < 0x80 then (a, 1)
      else case bs of
        [] \<Rightarrow> (0xFFFD, 1)
      | b # cs \<Rightarrow>
          (if 0xC2 \<le> a \<and> a \<le> 0xDF then
             (if continuation b then ((a - 0xC0) * 64 + (b - 0x80), 2) else (0xFFFD, 1))
           else case cs of
             [] \<Rightarrow> (0xFFFD, 1)
           | c # ds \<Rightarrow>
               (if 0xE0 \<le> a \<and> a \<le> 0xEF then
                  (if (if a = 0xE0 then 0xA0 else 0x80) \<le> b \<and> b \<le> (if a = 0xED then 0x9F else 0xBF) \<and> continuation c
                   then ((a - 0xE0) * 4096 + (b - 0x80) * 64 + (c - 0x80), 3) else (0xFFFD, 1))
                else case ds of
                  [] \<Rightarrow> (0xFFFD, 1)
                | d # es \<Rightarrow>
                    (if 0xF0 \<le> a \<and> a \<le> 0xF4 \<and> (if a = 0xF0 then 0x90 else 0x80) \<le> b \<and>
                        b \<le> (if a = 0xF4 then 0x8F else 0xBF) \<and> continuation c \<and> continuation d
                     then ((a - 0xF0) * 262144 + (b - 0x80) * 4096 + (c - 0x80) * 64 + (d - 0x80), 4)
                     else (0xFFFD, 1)))))"

lemma first_rune_width: "0 < snd (first_rune bs)"
  by (cases bs) (auto split: list.split)

function runes_of :: "int list \<Rightarrow> int list" where
  "runes_of bs = (if bs = [] then [] else fst (first_rune bs) # runes_of (drop (snd (first_rune bs)) bs))"
  by pat_completeness auto
termination
  by (relation "measure length") (auto simp: first_rune_width diff_less)

declare runes_of.simps [simp del]

definition sanitise_rune :: "int \<Rightarrow> string" where
  "sanitise_rune r =
     (if 97 \<le> r \<and> r \<le> 122 \<or> 48 \<le> r \<and> r \<le> 57 \<or> r = 45 \<or> r = 95 then utf8_encode r else ''-'')"

definition sanitise :: "golib \<Rightarrow> string \<Rightarrow> string" where
  "sanitise lib s = concat (map sanitise_rune (runes_of (map of_char (to_lower lib s))))"

definition is_segment_file :: "string \<Rightarrow> bool" where
  "is_segment_file path \<longleftrightarrow> parse_family (path_ext path) \<noteq> None"

definition segment_less :: "family \<Rightarrow> string \<Rightarrow> string \<Rightarrow> bool" where
  "segment_less family a b =
     (case (family_number family (path_ext a), family_number family (path_ext b)) of
        (Some left, Some right) \<Rightarrow> left < right
      | _ \<Rightarrow> a < b)"

text \<open>
  \<open>sort.Slice\<close> with a comparison, as insertion; for a comparison that is a strict weak
  order any stable sort gives this result.
\<close>

fun insert_by :: "('a \<Rightarrow> 'a \<Rightarrow> bool) \<Rightarrow> 'a \<Rightarrow> 'a list \<Rightarrow> 'a list" where
  "insert_by lt x [] = [x]"
| "insert_by lt x (y # ys) = (if lt y x then y # insert_by lt x ys else x # y # ys)"

definition sort_slice :: "('a \<Rightarrow> 'a \<Rightarrow> bool) \<Rightarrow> 'a list \<Rightarrow> 'a list" where
  "sort_slice lt xs = foldr (insert_by lt) xs []"

text \<open>The code reads \<open>paths[0]\<close>; it is called with at least one path.\<close>

definition sort_segment_paths :: "string list \<Rightarrow> string list go" where
  "sort_segment_paths paths =
     (case paths of
        [] \<Rightarrow> Panics
      | p # _ \<Rightarrow>
          (case parse_family (path_ext p) of
             None \<Rightarrow> Returns (sort paths)
           | Some (family, n) \<Rightarrow> Returns (sort_slice (segment_less family) paths)))"

section \<open>Adopting an image\<close>

text \<open>
  \<open>mustGlob\<close> takes a pattern that cannot be matched for one that matches nothing;
  \<open>copyFile\<close> does nothing when both paths name the same file. The files are closed by
  deferred calls, the last one opened first.
\<close>

definition must_glob :: "'t machine \<Rightarrow> tool_log \<Rightarrow> string \<Rightarrow> string list" where
  "must_glob mc log pattern = (case mc_glob mc log pattern of Inl e \<Rightarrow> [] | Inr matches \<Rightarrow> matches)"

definition same_path :: "'t machine \<Rightarrow> string \<Rightarrow> string \<Rightarrow> bool" where
  "same_path mc src dst =
     (case mc_abs mc src of
        Inl e \<Rightarrow> False
      | Inr a \<Rightarrow> (case mc_abs mc dst of Inl e \<Rightarrow> False | Inr b \<Rightarrow> a = b))"

definition copy_file :: "'t machine \<Rightarrow> string \<Rightarrow> string \<Rightarrow> tool_log \<Rightarrow> gerr option \<times> tool_log" where
  "copy_file mc src dst log =
     (if same_path mc src dst then (None, log)
      else case mc_open mc log src of
        Inl e \<Rightarrow> (Some e, log)
      | Inr source \<Rightarrow>
          (let log1 = log @ [OpenFile src] in
           case mc_create mc log1 dst of
             Some e \<Rightarrow> (Some e, log1 @ [CloseFile src])
           | None \<Rightarrow>
               (let log2 = log1 @ [CreateFile dst] in
                case mc_transfer mc log2 src dst of
                  Some e \<Rightarrow> (Some e, log2 @ [CopyData src dst, CloseFile dst, CloseFile src])
                | None \<Rightarrow>
                    (let log3 = log2 @ [CopyData src dst] in
                     (mc_sync mc log3 dst, log3 @ [SyncFile dst, CloseFile dst, CloseFile src])))))"

text \<open>The copies, each opened for reading; every file opened is closed when the caller returns.\<close>

fun adopt_copies ::
  "'t machine \<Rightarrow> string \<Rightarrow> string \<Rightarrow> string list \<Rightarrow> (string \<times> io_source) list \<Rightarrow> tool_log
     \<Rightarrow> (gerr option \<times> (string \<times> io_source) list) \<times> tool_log" where
  "adopt_copies mc out name [] files log = ((None, files), log)"
| "adopt_copies mc out name (s # ss) files log =
     (let dst = path_join out (name @ path_ext s) in
      case copy_file mc s dst log of
        (Some e, log1) \<Rightarrow> ((Some e, files), log1)
      | (None, log1) \<Rightarrow>
          (case mc_open mc log1 dst of
             Inl e \<Rightarrow> ((Some e, files), log1)
           | Inr src \<Rightarrow> adopt_copies mc out name ss (files @ [(dst, src)]) (log1 @ [OpenFile dst])))"

definition close_opened :: "(string \<times> io_source) list \<Rightarrow> tool_log \<Rightarrow> tool_log" where
  "close_opened files log = log @ map (\<lambda>p. CloseFile (fst p)) (rev files)"

definition adopted_entry :: "golib \<Rightarrow> string \<Rightarrow> string \<Rightarrow> string list \<Rightarrow> image_reader \<Rightarrow> gerr + entry" where
  "adopted_entry lib name first_segment copied r =
     (let md5 = (if inf_has_md5 (ir_metadata r) then hex_encode (inf_md5 (ir_metadata r)) else []);
          sha1 = (if inf_has_sha1 (ir_metadata r) then hex_encode (inf_sha1 (ir_metadata r)) else []) in
      if md5 = [] \<and> sha1 = []
      then Inl (Plain ''image records no acquisition digest, so there is nothing independent to verify against; acquire a raw source instead'')
      else Inr (zero_entry\<lparr>en_name := name, en_segments := copied, en_oracle := oracle_stored_digest,
                           en_producer := ''adopted from '' @ first_segment, en_size := reader_size r,
                           en_sector_size := sector_size r, en_require_verify_ok := True,
                           en_stored_md5 := md5, en_stored_sha1 := sha1\<rparr>))"

definition adopt_image ::
  "golib \<Rightarrow> 't machine \<Rightarrow> string \<Rightarrow> string \<Rightarrow> tool_log \<Rightarrow> ((gerr + entry) \<times> tool_log) option" where
  "adopt_image lib mc out first_segment log =
     (case segment_paths (mc_fs mc log) first_segment of
        None \<Rightarrow> None
      | Some (Inl e) \<Rightarrow> Some (Inl e, log)
      | Some (Inr segments) \<Rightarrow>
          (let name = sanitise lib (trim_suffix (path_base first_segment) (path_ext first_segment));
               ((failed, files), log') = adopt_copies mc out name segments [] log;
               log'' = close_opened files log' in
           Some (case failed of
                   Some e \<Rightarrow> (Inl e, log'')
                 | None \<Rightarrow>
                     (case api_open_segments lib (map snd files) of
                        Inl e \<Rightarrow> (Inl (Wrapped ''cannot open image to read its acquisition digests'' e), log'')
                      | Inr r \<Rightarrow> (adopted_entry lib name first_segment (map (path_base \<circ> fst) files) r, log'')))))"

section \<open>Generating images\<close>

record variant =
  va_name :: string
  va_format :: string
  va_compression :: string
  va_sectors :: int
  va_sector_size :: int
  va_chunk_sectors :: int
  va_segment_bytes :: int
  va_pattern :: string

definition build_matrix :: "int \<Rightarrow> variant list" where
  "build_matrix base_sectors =
     map (\<lambda>(n, f). variant.make n f ''deflate:best'' base_sectors 512 64 0 ''mixed'')
       [(''ewf-deflate'', ''ewf''), (''ewfx-deflate'', ''ewfx''), (''smart-deflate'', ''smart''),
        (''ftk-deflate'', ''ftk''), (''encase2-deflate'', ''encase2''), (''encase3-deflate'', ''encase3''),
        (''encase4-deflate'', ''encase4''), (''encase5-deflate'', ''encase5''), (''encase6-deflate'', ''encase6''),
        (''encase7-deflate'', ''encase7''), (''linen5-deflate'', ''linen5''), (''linen6-deflate'', ''linen6''),
        (''linen7-deflate'', ''linen7'')]
     @ [variant.make ''encase6-none'' ''encase6'' ''none'' base_sectors 512 64 0 ''mixed'',
        variant.make ''encase6-fast'' ''encase6'' ''deflate:fast'' base_sectors 512 64 0 ''mixed'',
        variant.make ''encase6-emptyblock'' ''encase6'' ''deflate:empty-block'' base_sectors 512 64 0 ''mixed'',
        variant.make ''encase6-zeros'' ''encase6'' ''deflate:best'' base_sectors 512 64 0 ''zeros'',
        variant.make ''encase6-random'' ''encase6'' ''deflate:best'' base_sectors 512 64 0 ''random'',
        variant.make ''encase6-chunk16'' ''encase6'' ''deflate:best'' base_sectors 512 16 0 ''mixed'',
        variant.make ''encase6-chunk512'' ''encase6'' ''deflate:best'' base_sectors 512 512 0 ''mixed'',
        variant.make ''encase6-sector4096'' ''encase6'' ''deflate:best'' (base_sectors sdiv 8) 4096 64 0 ''mixed'',
        variant.make ''encase6-multiseg'' ''encase6'' ''deflate:fast'' base_sectors 512 64 1048576 ''mixed'',
        variant.make ''encase6-multiseg-none'' ''encase6'' ''none'' base_sectors 512 64 1048576 ''random'',
        variant.make ''encase5-multiseg'' ''encase5'' ''deflate:best'' base_sectors 512 64 1048576 ''mixed'',
        variant.make ''encase6-partial-chunk'' ''encase6'' ''deflate:best'' (i64 (base_sectors + 1)) 512 64 0 ''mixed'',
        variant.make ''encase6-partial-chunk-none'' ''encase6'' ''none'' (i64 (base_sectors + 1)) 512 64 0 ''mixed'',
        variant.make ''ex01-deflate'' ''encase7-v2'' ''deflate:best'' base_sectors 512 64 0 ''mixed'',
        variant.make ''ex01-none'' ''encase7-v2'' ''none'' base_sectors 512 64 0 ''mixed'',
        variant.make ''ex01-zeros-pattern'' ''encase7-v2'' ''deflate:best'' base_sectors 512 64 0 ''zeros'',
        variant.make ''ex01-partial-chunk'' ''encase7-v2'' ''deflate:best'' (i64 (base_sectors + 1)) 512 64 0 ''mixed'']"

definition wants_ewf2 :: "string \<Rightarrow> bool" where
  "wants_ewf2 format = suffix ''-v2'' format"

subsection \<open>The raw device\<close>

definition raw_seed :: u64 where [go_defs]: "raw_seed = 0x9E3779B97F4A7C15"
definition raw_block :: int where [go_defs]: "raw_block = 65536"

definition next_random :: "u64 \<Rightarrow> u64" where
  "next_random s0 =
     (let s1 = xor s0 (push_bit 13 s0); s2 = xor s1 (drop_bit 7 s1) in xor s2 (push_bit 17 s2))"

function random_fill :: "nat \<Rightarrow> u64 \<Rightarrow> bytes \<times> u64" where
  "random_fill n state =
     (if n = 0 then ([], state)
      else let v = next_random state;
               now = map (\<lambda>b. ucast (drop_bit (8 * b) v)) [0..<min 8 n];
               (rest, state') = random_fill (n - 8) v in
           (now @ rest, state'))"
  by pat_completeness auto
termination
  by (relation "measure fst") auto

declare random_fill.simps [simp del]

definition raw_text :: string where
  "raw_text = ''FORENSIC-IMAGE-TEST-PATTERN-0123456789 ''"

definition text_fill :: "nat \<Rightarrow> bytes" where
  "text_fill n = take n (concat (replicate (65536 div 39 + 1) (bytes_of_string raw_text)))"

definition fill_block :: "string \<Rightarrow> int \<Rightarrow> nat \<Rightarrow> u64 \<Rightarrow> bytes \<times> u64" where
  "fill_block pattern written n state =
     (if pattern = ''zeros'' then (replicate n 0, state)
      else if pattern = ''random'' then random_fill n state
      else if written div raw_block mod 3 = 0 then (text_fill n, state)
      else if written div raw_block mod 3 = 1 then (replicate n 0, state)
      else random_fill n state)"

function raw_blocks :: "string \<Rightarrow> int \<Rightarrow> int \<Rightarrow> u64 \<Rightarrow> bytes" where
  "raw_blocks pattern dev written state =
     (if written < dev then
        let remaining = dev - written;
            n = (if raw_block > remaining then remaining else raw_block);
            (buf, state') = fill_block pattern written (nat n) state in
        buf @ raw_blocks pattern dev (written + n) state'
      else [])"
  by pat_completeness auto
termination
  by (relation "measure (\<lambda>(pattern, dev, written, state). nat (dev - written))") (auto simp: raw_block_def)

declare raw_blocks.simps [simp del]

definition raw_image :: "string \<Rightarrow> int \<Rightarrow> bytes" where
  "raw_image pattern dev = raw_blocks pattern dev 0 raw_seed"

definition write_raw_image ::
  "'t machine \<Rightarrow> string \<Rightarrow> int \<Rightarrow> string \<Rightarrow> tool_log \<Rightarrow> (gerr + string) \<times> tool_log" where
  "write_raw_image mc path dev pattern log =
     (let data = raw_image pattern dev in
      (case mc_write mc log path data of
         Some e \<Rightarrow> Inl e
       | None \<Rightarrow> Inr (hex_encode (mc_sha256 mc data)),
       log @ [WriteFile path data]))"

subsection \<open>What the tools report\<close>

record 't digest_info =
  di_computed_md5 :: string
  di_computed_sha1 :: string
  di_stored_md5 :: string
  di_stored_sha1 :: string
  di_acquiry_date :: 't

definition no_digests :: "'t machine \<Rightarrow> 't digest_info" where
  "no_digests mc = \<lparr>di_computed_md5 = [], di_computed_sha1 = [], di_stored_md5 = [], di_stored_sha1 = [],
     di_acquiry_date = mc_zero_time mc\<rparr>"

definition acquiry_date_unix :: "'t machine \<Rightarrow> 't \<Rightarrow> int" where
  "acquiry_date_unix mc w = (if mc_time_is_zero mc w then 0 else mc_time_unix mc w)"

definition acquiry_date_wall :: "'t machine \<Rightarrow> 't \<Rightarrow> string" where
  "acquiry_date_wall mc w = (if mc_time_is_zero mc w then [] else mc_time_format mc acquiry_date_wall_layout w)"

definition trim_after :: "string \<Rightarrow> string \<Rightarrow> string option" where
  "trim_after line pre = (if \<not> prefix pre line then None else Some (trim_space (trim_prefix pre line)))"

definition ewfinfo_layouts :: "string list" where
  "ewfinfo_layouts =
     [''Mon Jan 2 15:04:05 2006 MST'', ''Mon Jan _2 15:04:05 2006 MST'', ''Mon Jan 2 15:04:05 2006'',
      ''Mon Jan _2 15:04:05 2006'']"

fun first_layout :: "'t machine \<Rightarrow> string list \<Rightarrow> string \<Rightarrow> 't option" where
  "first_layout mc [] v = None"
| "first_layout mc (l # ls) v =
     (case mc_parse_time mc l v of Some w \<Rightarrow> Some w | None \<Rightarrow> first_layout mc ls v)"

definition parse_ewfinfo_date :: "'t machine \<Rightarrow> string \<Rightarrow> 't option" where
  "parse_ewfinfo_date mc v = first_layout mc ewfinfo_layouts v"

definition ewfinfo_line ::
  "golib \<Rightarrow> 't machine \<Rightarrow> string \<Rightarrow> bool \<times> 't digest_info \<Rightarrow> bool \<times> 't digest_info" where
  "ewfinfo_line lib mc line s =
     (let trimmed = trim_space line;
          out = (case trim_after trimmed ''Acquisition date:'' of
                   None \<Rightarrow> snd s
                 | Some v \<Rightarrow> (case parse_ewfinfo_date mc v of
                                None \<Rightarrow> snd s
                              | Some w \<Rightarrow> (snd s)\<lparr>di_acquiry_date := w\<rparr>)) in
      if prefix ''Digest hash information'' trimmed then (True, out)
      else let inside = (if fst s \<and> trimmed \<noteq> [] \<and> \<not> prefix [CHR 0x09] line then False else fst s) in
           if \<not> inside then (inside, out)
           else if prefix ''MD5:'' trimmed
           then (inside, out\<lparr>di_stored_md5 := to_lower lib (trim_space (trim_prefix ''MD5:'' trimmed))\<rparr>)
           else if prefix ''SHA1:'' trimmed
           then (inside, out\<lparr>di_stored_sha1 := to_lower lib (trim_space (trim_prefix ''SHA1:'' trimmed))\<rparr>)
           else (inside, out))"

definition read_stored_digests ::
  "golib \<Rightarrow> 't machine \<Rightarrow> string \<Rightarrow> 't digest_info \<Rightarrow> tool_log \<Rightarrow> (gerr + 't digest_info) \<times> tool_log" where
  "read_stored_digests lib mc first_segment out log =
     (let cmd = [''ewfinfo'', first_segment] in
      (case mc_exec mc log cmd of
         Inl e \<Rightarrow> Inl (Wrapped ''ewfinfo failed'' e)
       | Inr output \<Rightarrow>
           Inr (snd (fold (ewfinfo_line lib mc) (split_on (CHR 0x0A) output) (False, out))),
       log @ [Exec cmd]))"

definition log_line :: "golib \<Rightarrow> string \<Rightarrow> 't digest_info \<Rightarrow> 't digest_info" where
  "log_line lib line out =
     (let words = split_fields line in
      if words = [] then out
      else let v = to_lower lib (last words) in
           if prefix ''MD5 hash calculated over data:'' line then out\<lparr>di_computed_md5 := v\<rparr>
           else if prefix ''SHA1 hash calculated over data:'' line then out\<lparr>di_computed_sha1 := v\<rparr>
           else out)"

definition parse_acquire_log :: "golib \<Rightarrow> 't machine \<Rightarrow> tool_log \<Rightarrow> string \<Rightarrow> gerr + 't digest_info" where
  "parse_acquire_log lib mc log path =
     (case mc_read mc log path of
        NotExist \<Rightarrow> Inr (no_digests mc)
      | ReadFailed e \<Rightarrow> Inl e
      | Contents data \<Rightarrow>
          Inr (fold (log_line lib) (split_on (CHR 0x0A) (string_of_bytes data)) (no_digests mc)))"

subsection \<open>One variant\<close>

definition acq_case_number :: string where "acq_case_number = ''corpus''"
definition acq_evidence_number :: string where "acq_evidence_number = ''mkcorpus''"
definition acq_examiner_name :: string where "acq_examiner_name = ''libewf-test''"
definition acq_notes :: string where "acq_notes = ''generated by mkcorpus''"

definition print_int :: "int \<Rightarrow> string" where
  "print_int n = (if n < 0 then CHR ''-'' # dec_of_nat (nat (- n)) else dec_of_nat (nat n))"

definition ewfacquire_args :: "string \<Rightarrow> string \<Rightarrow> string \<Rightarrow> variant \<Rightarrow> string list" where
  "ewfacquire_args target log_path raw_path v =
     [''ewfacquire'', ''-u'', ''-q'', ''-t'', target, ''-f'', va_format v, ''-c'', va_compression v,
      ''-b'', print_int (va_chunk_sectors v), ''-P'', print_int (va_sector_size v), ''-d'', ''sha1'',
      ''-l'', log_path, ''-C'', acq_case_number, ''-D'', va_name v, ''-E'', acq_evidence_number,
      ''-e'', acq_examiner_name, ''-N'', acq_notes]
     @ (if 0 < va_segment_bytes v then [''-S'', print_int (va_segment_bytes v)] else [])
     @ [raw_path]"

definition remove_files :: "string list \<Rightarrow> tool_log \<Rightarrow> tool_log" where
  "remove_files ps log = log @ map RemoveFile ps"

text \<open>A digest computed over the source that is not the one stored would poison the corpus.\<close>

definition check_digests :: "string list \<Rightarrow> 't digest_info \<Rightarrow> gerr + string list \<times> 't digest_info" where
  "check_digests names d =
     (if di_computed_md5 d \<noteq> [] \<and> di_stored_md5 d \<noteq> [] \<and> di_computed_md5 d \<noteq> di_stored_md5 d
      then Inl (Plain ''ewfacquire computed MD5 over the source but stored another in the container'')
      else Inr (names, d))"

definition collect_produced ::
  "golib \<Rightarrow> 't machine \<Rightarrow> variant \<Rightarrow> string \<Rightarrow> string list \<Rightarrow> tool_log
     \<Rightarrow> (gerr + string list \<times> 't digest_info) \<times> tool_log" where
  "collect_produced lib mc v log_path produced log =
     (let ext = to_lower lib (path_ext (hd produced)) in
      if wants_ewf2 (va_format v) \<and> \<not> prefix ''.ex'' ext \<and> \<not> prefix ''.lx'' ext
      then (Inl (Plain ''this ewfacquire cannot write EWF2; needs libewf 20240506 or newer''),
            remove_files produced log)
      else case parse_acquire_log lib mc log log_path of
             Inl e \<Rightarrow> (Inl e, log)
           | Inr d \<Rightarrow>
               (case read_stored_digests lib mc (hd produced) d log of
                  (Inl e, log') \<Rightarrow> (Inl e, log')
                | (Inr d', log') \<Rightarrow> (check_digests (map path_base produced) d', log')))"

definition run_ewfacquire ::
  "golib \<Rightarrow> 't machine \<Rightarrow> string \<Rightarrow> string \<Rightarrow> string \<Rightarrow> variant \<Rightarrow> tool_log
     \<Rightarrow> (gerr + string list \<times> 't digest_info) go \<times> tool_log" where
  "run_ewfacquire lib mc out raw_dir raw_path v log =
     (let target = path_join out (va_name v);
          log1 = remove_files (must_glob mc log (target @ ''.*'')) log;
          log_path = path_join raw_dir (va_name v @ ''.acq.log'');
          cmd = ewfacquire_args target log_path raw_path v;
          log2 = log1 @ [Exec cmd] in
      case mc_exec mc log1 cmd of
        Inl e \<Rightarrow> (Returns (Inl (Wrapped ''ewfacquire failed'' e)), log2)
      | Inr output \<Rightarrow>
          (let produced = filter is_segment_file (must_glob mc log2 (target @ ''.*'')) in
           if produced = []
           then (Returns (Inl (Plain ''ewfacquire reported success but produced no segment files'')), log2)
           else case sort_segment_paths produced of
                  Panics \<Rightarrow> (Panics, log2)
                | Returns ordered \<Rightarrow>
                    (let (res, log3) = collect_produced lib mc v log_path ordered log2 in (Returns res, log3))))"

definition generated_entry ::
  "'t machine \<Rightarrow> variant \<Rightarrow> int \<Rightarrow> string \<Rightarrow> string list \<Rightarrow> 't digest_info \<Rightarrow> entry" where
  "generated_entry mc v dev digest segments d =
     zero_entry\<lparr>en_name := va_name v, en_segments := segments, en_oracle := oracle_raw_source,
       en_producer := ''ewfacquire 20140814 -f '' @ va_format v @ '' -c '' @ va_compression v
         @ '' -b '' @ print_int (va_chunk_sectors v) @ '' -P '' @ print_int (va_sector_size v),
       en_notes := ''payload '' @ [CHR 0x22] @ va_pattern v @ [CHR 0x22] @ '', '' @ print_int (va_sectors v)
         @ '' sectors of '' @ print_int (va_sector_size v) @ '' bytes'',
       en_size := dev, en_sector_size := va_sector_size v, en_decoded_sha256 := digest,
       en_stored_md5 := di_stored_md5 d, en_stored_sha1 := di_stored_sha1 d,
       en_require_verify_ok := (di_stored_md5 d \<noteq> [] \<or> di_stored_sha1 d \<noteq> []),
       en_acquisition := Some \<lparr>ea_case_number = acq_case_number, ea_evidence_number = acq_evidence_number,
         ea_description = va_name v, ea_examiner_name = acq_examiner_name, ea_notes = acq_notes,
         ea_acquiry_date_unix = acquiry_date_unix mc (di_acquiry_date d),
         ea_acquiry_date_wall = acquiry_date_wall mc (di_acquiry_date d)\<rparr>\<rparr>"

fun generate_variants ::
  "golib \<Rightarrow> 't machine \<Rightarrow> string \<Rightarrow> string \<Rightarrow> variant list \<Rightarrow> entry list \<Rightarrow> tool_log
     \<Rightarrow> (gerr + entry list) go \<times> tool_log" where
  "generate_variants lib mc out raw_dir [] entries log = (Returns (Inr entries), log)"
| "generate_variants lib mc out raw_dir (v # vs) entries log =
     (let dev = i64 (va_sectors v * va_sector_size v); raw_path = path_join raw_dir (va_name v @ ''.raw'') in
      case write_raw_image mc raw_path dev (va_pattern v) log of
        (Inl e, log1) \<Rightarrow> (Returns (Inl e), log1)
      | (Inr digest, log1) \<Rightarrow>
          (case run_ewfacquire lib mc out raw_dir raw_path v log1 of
             (Panics, log2) \<Rightarrow> (Panics, log2)
           | (Returns (Inl e), log2) \<Rightarrow> generate_variants lib mc out raw_dir vs entries log2
           | (Returns (Inr (segments, d)), log2) \<Rightarrow>
               generate_variants lib mc out raw_dir vs
                 (entries @ [generated_entry mc v dev digest segments d]) log2))"

text \<open>The deferred removal of the raw directory runs on every return.\<close>

definition generate ::
  "golib \<Rightarrow> 't machine \<Rightarrow> string \<Rightarrow> int \<Rightarrow> bool \<Rightarrow> tool_log \<Rightarrow> (gerr + entry list) go \<times> tool_log" where
  "generate lib mc out size_mib keep_raw log =
     (let base_sectors = i64 (size_mib * 2 ^ 20) sdiv 512; raw_dir = path_join out ''raw'';
          log1 = log @ [MkdirAll raw_dir] in
      case mc_mkdir mc log raw_dir of
        Some e \<Rightarrow> (Returns (Inl e), log1)
      | None \<Rightarrow>
          (let (res, log2) = generate_variants lib mc out raw_dir (build_matrix base_sectors) [] log1 in
           (go_bind res (\<lambda>r. Returns (case r of
                Inl e \<Rightarrow> Inl e
              | Inr entries \<Rightarrow>
                  (if entries = [] then Inl (Plain ''ewfacquire produced no usable images'') else Inr entries))),
            if keep_raw then log2 else log2 @ [RemoveAll raw_dir])))"

section \<open>The tool\<close>

text \<open>The entries with the index of their names.\<close>

type_synonym name_index = "string \<rightharpoonup> nat"

definition index_names :: "entry list \<Rightarrow> name_index" where
  "index_names es = fold (\<lambda>(i, e) m. m(en_name e \<mapsto> i)) (zip [0..<length es] es) Map.empty"

definition upsert :: "entry \<Rightarrow> name_index \<times> entry list \<Rightarrow> name_index \<times> entry list" where
  "upsert e s =
     (case fst s (en_name e) of
        Some i \<Rightarrow> (fst s, (snd s)[i := e])
      | None \<Rightarrow> ((fst s)(en_name e \<mapsto> length (snd s)), snd s @ [e]))"

fun adopt_all ::
  "golib \<Rightarrow> 't machine \<Rightarrow> string \<Rightarrow> string list \<Rightarrow> entry list \<Rightarrow> tool_log
     \<Rightarrow> ((gerr + entry list) \<times> tool_log) option" where
  "adopt_all lib mc out [] adopted log = Some (Inr adopted, log)"
| "adopt_all lib mc out (p # ps) adopted log =
     (let path = trim_space p in
      if path = [] then adopt_all lib mc out ps adopted log
      else case adopt_image lib mc out path log of
             None \<Rightarrow> None
           | Some (Inl e, log') \<Rightarrow> Some (Inl (Wrapped ''adopting'' e), log')
           | Some (Inr e, log') \<Rightarrow> adopt_all lib mc out ps (adopted @ [e]) log')"

fun first_invalid :: "entry list \<Rightarrow> gerr option" where
  "first_invalid [] = None"
| "first_invalid (e # es) = (case validate_entry e of Some err \<Rightarrow> Some err | None \<Rightarrow> first_invalid es)"

definition finish_run ::
  "'t machine \<Rightarrow> string \<Rightarrow> int \<Rightarrow> entry list \<Rightarrow> entry list \<Rightarrow> tool_log \<Rightarrow> gerr option \<times> tool_log" where
  "finish_run mc out version old added log =
     (if added = [] then (Some (Plain ''no corpus entries were produced''), log)
      else let entries = snd (fold upsert added (index_names old, old)) in
           case first_invalid entries of
             Some e \<Rightarrow> (Some e, log)
           | None \<Rightarrow> save_manifest mc out \<lparr>mf_version = version, mf_entries = entries\<rparr> log)"

definition run_tool ::
  "golib \<Rightarrow> 't machine \<Rightarrow> string \<Rightarrow> string \<Rightarrow> int \<Rightarrow> bool \<Rightarrow> bool \<Rightarrow> tool_log
     \<Rightarrow> (gerr option go \<times> tool_log) option" where
  "run_tool lib mc out adopt_list size_mib keep_raw skip_generate log =
     (let log1 = log @ [MkdirAll out] in
      case mc_mkdir mc log out of
        Some e \<Rightarrow> Some (Returns (Some e), log1)
      | None \<Rightarrow>
          (case load_manifest mc log1 out of
             (loaded, found, Some e) \<Rightarrow> Some (Returns (Some e), log1)
           | (loaded, found, None) \<Rightarrow>
               (let m = (case loaded of Some m \<Rightarrow> m | None \<Rightarrow> \<lparr>mf_version = 1, mf_entries = []\<rparr>) in
                case adopt_all lib mc out (if adopt_list \<noteq> [] then split_on (CHR '','') adopt_list else []) [] log1 of
                  None \<Rightarrow> None
                | Some (Inl e, log2) \<Rightarrow> Some (Returns (Some e), log2)
                | Some (Inr adopted, log2) \<Rightarrow>
                    Some (if skip_generate
                          then (let (res, log3) = finish_run mc out (mf_version m) (mf_entries m) adopted log2 in
                                (Returns res, log3))
                          else if \<not> mc_has_ewfacquire mc
                          then (if adopted = []
                                then (Returns (Some (Plain ''ewfacquire not found in PATH and nothing was adopted'')), log2)
                                else let (res, log3) = finish_run mc out (mf_version m) (mf_entries m) adopted log2 in
                                     (Returns res, log3))
                          else case generate lib mc out size_mib keep_raw log2 of
                                 (Panics, log3) \<Rightarrow> (Panics, log3)
                               | (Returns (Inl e), log3) \<Rightarrow> (Returns (Some e), log3)
                               | (Returns (Inr generated), log3) \<Rightarrow>
                                   (let (res, log4) = finish_run mc out (mf_version m) (mf_entries m)
                                                        (adopted @ generated) log3 in
                                    (Returns res, log4))))))"

text \<open>\<open>main\<close>: the exit status, and the error it prints.\<close>

definition tool_main ::
  "golib \<Rightarrow> 't machine \<Rightarrow> string \<Rightarrow> string \<Rightarrow> int \<Rightarrow> bool \<Rightarrow> bool \<Rightarrow> tool_log
     \<Rightarrow> ((int \<times> gerr option) go \<times> tool_log) option" where
  "tool_main lib mc out adopt size_mib keep_raw skip_tools log =
     map_option (\<lambda>(res, log'). (go_bind res (\<lambda>err. Returns (case err of None \<Rightarrow> (0, None) | Some e \<Rightarrow> (1, Some e))), log'))
       (run_tool lib mc out adopt size_mib keep_raw skip_tools log)"

section \<open>Manifests\<close>

definition by_name :: "entry list \<Rightarrow> string \<rightharpoonup> entry" where
  "by_name es = map_of (map (\<lambda>e. (en_name e, e)) es)"

text \<open>The index of a manifest without duplicate names.\<close>

definition index_ok :: "name_index \<times> entry list \<Rightarrow> bool" where
  "index_ok s \<longleftrightarrow>
     distinct (map en_name (snd s)) \<and>
     (\<forall>n i. fst s n = Some i \<longleftrightarrow> i < length (snd s) \<and> en_name (snd s ! i) = n)"

lemma index_names_append: "index_names (es @ [e]) = (index_names es)(en_name e \<mapsto> length es)"
  by (simp add: index_names_def zip_append1 upt_conv_Cons_Cons nth_append)

lemma index_names_ok: "distinct (map en_name es) \<Longrightarrow> index_ok (index_names es, es)"
proof (induction es rule: rev_induct)
  case Nil
  then show ?case by (simp add: index_ok_def index_names_def)
next
  case (snoc e es)
  then have IH: "index_names es n = Some i \<longleftrightarrow> i < length es \<and> en_name (es ! i) = n" for n i
    by (simp add: index_ok_def)
  have new: "en_name (es ! i) \<noteq> en_name e" if "i < length es" for i
    using snoc.prems that by (auto simp: image_iff) (metis nth_mem)
  show ?case
    using snoc.prems IH new unfolding index_ok_def index_names_append
    by (auto simp: nth_append less_Suc_eq)
qed

lemma by_name_nth:
  assumes "distinct (map en_name es)" "i < length es"
  shows "by_name es (en_name (es ! i)) = Some (es ! i)"
  unfolding by_name_def using assms by (intro map_of_is_SomeI) (auto simp: comp_def)

lemma by_name_update:
  assumes "distinct (map en_name es)" "i < length es" "en_name (es ! i) = en_name e"
  shows "by_name (es[i := e]) = (by_name es)(en_name e \<mapsto> e)" "distinct (map en_name (es[i := e]))"
proof -
  have names: "map en_name (es[i := e]) = map en_name es"
    using assms(2,3) by (simp add: map_update) (metis list_update_id nth_map)
  then show d: "distinct (map en_name (es[i := e]))"
    using assms(1) by simp
  have dom: "dom (by_name xs) = en_name ` set xs" for xs
    by (simp add: by_name_def dom_map_of_conv_image_fst image_image)
  show "by_name (es[i := e]) = (by_name es)(en_name e \<mapsto> e)"
  proof
    fix n
    show "by_name (es[i := e]) n = ((by_name es)(en_name e \<mapsto> e)) n"
    proof (cases "n \<in> set (map en_name es)")
      case True
      then obtain j where j: "j < length es" "n = en_name (es ! j)"
        by (auto simp: in_set_conv_nth)
      have "en_name (es[i := e] ! j) = n"
        using names j by (metis length_list_update nth_map)
      then have "by_name (es[i := e]) n = Some (es[i := e] ! j)"
        using by_name_nth [OF d, of j] j by simp
      moreover have "n = en_name e \<longleftrightarrow> j = i"
        using assms j by (metis nth_eq_iff_index_eq length_map nth_map)
      ultimately show ?thesis
        using by_name_nth [OF assms(1) j(1)] j by auto
    next
      case False
      then have "n \<notin> dom (by_name (es[i := e]))" "n \<notin> dom (by_name es)" "n \<noteq> en_name e"
        using assms(2,3) names unfolding dom by (metis list.set_map nth_mem image_eqI)+
      then show ?thesis
        by (auto simp: domIff)
    qed
  qed
qed

lemma upsert_ok:
  assumes "index_ok s"
  shows "index_ok (upsert e s)" "by_name (snd (upsert e s)) = (by_name (snd s))(en_name e \<mapsto> e)"
proof -
  obtain m es where s: "s = (m, es)"
    by (cases s)
  have d: "distinct (map en_name es)" and m: "\<And>n i. m n = Some i \<longleftrightarrow> i < length es \<and> en_name (es ! i) = n"
    using assms by (simp_all add: s index_ok_def)
  have "index_ok (upsert e s) \<and> by_name (snd (upsert e s)) = (by_name (snd s))(en_name e \<mapsto> e)"
  proof (cases "m (en_name e)")
    case None
    then have new: "i < length es \<Longrightarrow> en_name (es ! i) \<noteq> en_name e" for i
      using m [of "en_name e" i] by auto
    then have out: "en_name e \<notin> set (map en_name es)"
      by (metis in_set_conv_nth length_map nth_map)
    then have "by_name (es @ [e]) = (by_name es)(en_name e \<mapsto> e)"
      by (auto simp: by_name_def fun_eq_iff map_add_def dest!: map_of_SomeD split: option.split)
    then show ?thesis
      using None d m new out by (auto simp: s upsert_def index_ok_def nth_append less_Suc_eq)
  next
    case (Some i)
    then have i: "i < length es" "en_name (es ! i) = en_name e"
      using m by auto
    note u = by_name_update [OF d i]
    have "en_name (es[i := e] ! j) = en_name (es ! j)" if "j < length es" for j
      using i that by (auto simp: nth_list_update)
    moreover have run: "upsert e s = (m, es[i := e])"
      by (simp add: s upsert_def Some)
    ultimately show ?thesis
      using u m unfolding run s by (auto simp: index_ok_def)
  qed
  then show "index_ok (upsert e s)" "by_name (snd (upsert e s)) = (by_name (snd s))(en_name e \<mapsto> e)"
    by blast+
qed

lemma map_add_singleton: "f ++ ([k \<mapsto> v] ++ g) = f(k \<mapsto> v) ++ g"
  by (auto simp: fun_eq_iff map_add_def split: option.split)

lemma fold_upsert:
  "index_ok s \<Longrightarrow> index_ok (fold upsert added s) \<and>
     by_name (snd (fold upsert added s)) = by_name (snd s) ++ by_name (rev added)"
proof (induction added arbitrary: s)
  case Nil
  then show ?case by (simp add: by_name_def)
next
  case (Cons e added)
  have k: "by_name (rev (e # added)) = [en_name e \<mapsto> e] ++ by_name (rev added)"
    by (simp add: by_name_def)
  show ?case
    unfolding k map_add_singleton
    using Cons.IH [OF upsert_ok(1) [OF Cons.prems], of e] unfolding upsert_ok(2) [OF Cons.prems] by (simp add: fun_upd_def)
qed

lemma upsert_names:
  assumes "index_ok s"
  shows "map en_name (snd (upsert e s)) =
    (if en_name e \<in> set (map en_name (snd s)) then map en_name (snd s) else map en_name (snd s) @ [en_name e])"
proof (cases "fst s (en_name e)")
  case None
  have "en_name (snd s ! i) \<noteq> en_name e" if "i < length (snd s)" for i
    using assms None that by (metis index_ok_def option.distinct(1))
  then have "en_name e \<notin> set (map en_name (snd s))"
    by (metis in_set_conv_nth length_map nth_map)
  then show ?thesis
    using None by (simp add: upsert_def)
next
  case (Some i)
  then have i: "i < length (snd s)" "en_name (snd s ! i) = en_name e"
    using assms by (auto simp: index_ok_def)
  then have "en_name e \<in> set (map en_name (snd s))"
    by (metis length_map nth_map nth_mem)
  moreover have "map en_name ((snd s)[i := e]) = map en_name (snd s)"
    using i by (simp add: map_update) (metis list_update_id nth_map)
  ultimately show ?thesis
    using Some by (simp add: upsert_def)
qed

lemma fold_upsert_names:
  "index_ok s \<Longrightarrow> map en_name (snd (fold upsert added s)) =
     fold (\<lambda>e names. if en_name e \<in> set names then names else names @ [en_name e]) added (map en_name (snd s))"
proof (induction added arbitrary: s)
  case (Cons e added)
  show ?case
    using Cons.IH [OF upsert_ok(1) [OF Cons.prems], of e] by (simp only: fold_simps comp_apply upsert_names [OF Cons.prems])
qed simp

section \<open>Valid entries\<close>


lemma adopt_copies_length:
  "adopt_copies mc out name ss files log = ((None, files'), log') \<Longrightarrow> length files' = length files + length ss"
  by (induction ss arbitrary: files log) (auto simp: Let_def split: option.splits sum.splits prod.splits)

text \<open>How often a path is open: adopting an image, however it ends, closes what it opened.\<close>

fun held :: "tool_log \<Rightarrow> string \<Rightarrow> int" where
  "held [] p = 0"
| "held (OpenFile q # log) p = (if q = p then 1 else 0) + held log p"
| "held (CreateFile q # log) p = (if q = p then 1 else 0) + held log p"
| "held (CloseFile q # log) p = held log p - (if q = p then 1 else 0)"
| "held (ev # log) p = held log p"

lemma held_append [simp]: "held (a @ b) p = held a p + held b p"
  by (induction a p rule: held.induct) simp_all

lemma copy_file_held: "copy_file mc src dst log = (res, log') \<Longrightarrow> held log' p = held log p"
  by (auto simp: copy_file_def Let_def split: if_splits sum.splits option.splits)

lemma adopt_copies_held:
  "adopt_copies mc out name ss files log = ((failed, files'), log') \<Longrightarrow>
     held (close_opened files' log') p = held (close_opened files log) p"
proof (induction ss arbitrary: files log)
  case (Cons s ss)
  let ?dst = "path_join out (name @ path_ext s)"
  obtain r log1 where copy: "copy_file mc s ?dst log = (r, log1)"
    by (cases "copy_file mc s ?dst log")
  then have held: "held log1 p = held log p"
    by (rule copy_file_held)
  then have same: "held (close_opened files log1) p = held (close_opened files log) p"
    by (simp add: close_opened_def)
  have "held (close_opened (files @ [(?dst, src)]) (log1 @ [OpenFile ?dst])) p = held (close_opened files log1) p" for src
    by (simp add: close_opened_def)
  then show ?case
    using Cons same copy by (auto simp: Let_def split: option.splits sum.splits)
qed (simp add: close_opened_def)

theorem adopt_image_closes:
  assumes "adopt_image lib mc out first_segment log = Some (res, log')"
  shows "held log' p = held log p"
proof -
  have closed: "held (close_opened files log1) p = held log p"
    if "adopt_copies mc out name segments [] log = ((failed, files), log1)" for name segments failed files log1
    using adopt_copies_held [OF that, of p] by (simp add: close_opened_def [of "[]"])
  show ?thesis
    using assms closed
    by (auto simp: adopt_image_def Let_def split: option.splits sum.splits prod.splits)
qed

text \<open>An adopted entry has everything \<open>Validate\<close> asks for but, perhaps, a name.\<close>

lemma adopt_image_valid:
  assumes "adopt_image lib mc out first_segment log = Some (Inr e, log')"
  shows "validate_entry e = None \<longleftrightarrow> en_name e \<noteq> []"
proof -
  obtain segments name files log1 r where seg: "segment_paths (mc_fs mc log) first_segment = Some (Inr segments)"
    and copies: "adopt_copies mc out name segments [] log = ((None, files), log1)"
    and e: "adopted_entry lib name first_segment (map (path_base \<circ> fst) files) r = Inr e"
    using assms by (auto simp: adopt_image_def Let_def split: option.splits sum.splits prod.splits)
  obtain s where s: "discover (mc_fs mc log) first_segment = Inr s" "segments = set_paths s"
    using seg by (auto simp: segment_paths_def discover_segments_def split: sum.splits option.splits if_splits)
  have "files \<noteq> []"
    using adopt_copies_length [OF copies] discover_bounds(1) [OF s(1)] s(2) by (auto simp: set_paths_def)
  then show ?thesis
    using e by (auto simp: adopted_entry_def Let_def validate_entry_def zero_entry_def oracle_raw_source_def
        oracle_stored_digest_def split: if_splits)
qed

lemma generated_entry_valid:
  assumes "va_name v \<noteq> []" "segments \<noteq> []" "digest \<noteq> []"
  shows "validate_entry (generated_entry mc v dev digest segments d) = None"
  using assms by (simp add: generated_entry_def validate_entry_def zero_entry_def)


section \<open>Raw images\<close>

lemma random_fill_length: "length (fst (random_fill n state)) = n"
proof (induction n state rule: random_fill.induct)
  case (1 n state)
  show ?case
  proof (cases "n = 0")
    case False
    then have "length (fst (random_fill (n - 8) (next_random state))) = n - 8"
      using 1 by simp
    then show ?thesis
      using False by (subst random_fill.simps) (auto simp: Let_def case_prod_beta)
  qed (simp add: random_fill.simps)
qed

lemma text_fill_length: "n \<le> 65536 \<Longrightarrow> length (text_fill n) = n"
  by (simp add: text_fill_def length_concat map_replicate_const sum_list_replicate raw_text_def)

lemma fill_block_length: "n \<le> 65536 \<Longrightarrow> length (fst (fill_block pattern written n state)) = n"
  by (simp add: fill_block_def random_fill_length text_fill_length)

lemma raw_blocks_length: "length (raw_blocks pattern dev written state) = nat (dev - written)"
proof (induction "nat (dev - written)" arbitrary: written state rule: less_induct)
  case less
  show ?case
  proof (cases "written < dev")
    case True
    let ?n = "if raw_block > dev - written then dev - written else raw_block"
    have n: "0 < ?n" "nat ?n \<le> 65536" "written + ?n \<le> dev"
      using True by (auto simp: raw_block_def)
    have "length (raw_blocks pattern dev (written + ?n) (snd (fill_block pattern written (nat ?n) state)))
        = nat (dev - (written + ?n))"
      by (rule less) (use n True in auto)
    moreover have "nat ?n + nat (dev - (written + ?n)) = nat (dev - written)"
      using n by auto
    ultimately show ?thesis
      using True fill_block_length [OF n(2), of pattern written state]
      by (subst raw_blocks.simps) (simp add: Let_def case_prod_beta del: if_split)
  qed (simp add: raw_blocks.simps)
qed

lemma raw_blocks_zeros: "raw_blocks ''zeros'' dev written state = replicate (nat (dev - written)) 0"
proof (induction "nat (dev - written)" arbitrary: written state rule: less_induct)
  case less
  show ?case
  proof (cases "written < dev")
    case True
    let ?n = "if raw_block > dev - written then dev - written else raw_block"
    have n: "0 < ?n" "written + ?n \<le> dev"
      using True by (auto simp: raw_block_def)
    have "raw_blocks ''zeros'' dev (written + ?n) state = replicate (nat (dev - (written + ?n))) 0"
      by (rule less) (use n True in auto)
    moreover have "nat ?n + nat (dev - (written + ?n)) = nat (dev - written)"
      using n by auto
    ultimately show ?thesis
      using True by (subst raw_blocks.simps) (simp add: Let_def fill_block_def replicate_add [symmetric] del: if_split)
  qed (simp add: raw_blocks.simps)
qed

text \<open>Each shift-and-xor of the generator maps only zero to zero, so it never gets stuck.\<close>

lemma xor_push_zero:
  fixes x :: u64
  assumes "xor x (push_bit k x) = 0" "0 < k"
  shows "x = 0"
proof (rule bit_word_eqI)
  fix n
  assume "n < LENGTH(64)"
  show "bit x n \<longleftrightarrow> bit (0 :: u64) n"
  proof (induction n rule: less_induct)
    case (less n)
    have e: "bit x n \<longleftrightarrow> bit (push_bit k x) n"
      using assms(1) bit_xor_iff [of x "push_bit k x" n] by simp
    show ?case
    proof
      assume "bit x n"
      then have "k \<le> n" "bit x (n - k)"
        using e by (simp_all add: bit_push_bit_iff)
      then show "bit (0 :: u64) n"
        using less [of "n - k"] assms(2) by simp
    qed simp
  qed
qed

lemma xor_drop_zero:
  fixes x :: u64
  assumes "xor x (drop_bit k x) = 0" "0 < k"
  shows "x = 0"
proof (rule bit_word_eqI)
  fix n
  assume "n < LENGTH(64)"
  show "bit x n \<longleftrightarrow> bit (0 :: u64) n"
  proof (induction "64 - n" arbitrary: n rule: less_induct)
    case less
    have e: "bit x n \<longleftrightarrow> bit (drop_bit k x) n"
      using assms(1) bit_xor_iff [of x "drop_bit k x" n] by simp
    show ?case
    proof
      assume b: "bit x n"
      then have "bit x (k + n)" "n < 64"
        using e bit_imp_le_length [OF b] by (simp_all add: bit_drop_bit_eq)
      then show "bit (0 :: u64) n"
        using less [of "k + n"] assms(2) by simp
    qed simp
  qed
qed

lemma next_random_nonzero: "state \<noteq> 0 \<Longrightarrow> next_random state \<noteq> 0"
  using xor_push_zero [of state 13] xor_drop_zero [of "xor state (push_bit 13 state)" 7]
    xor_push_zero [of "xor (xor state (push_bit 13 state)) (drop_bit 7 (xor state (push_bit 13 state)))" 17]
  by (auto simp: next_random_def Let_def)

section \<open>Ordering segment files\<close>

lemma insert_by_sorted:
  assumes "sorted_wrt (\<lambda>a b. f a \<le> f b) ys" "\<And>y. y \<in> set ys \<Longrightarrow> lt y x \<longleftrightarrow> (f y :: u32) < f x"
  shows "sorted_wrt (\<lambda>a b. f a \<le> f b) (insert_by lt x ys) \<and> mset (insert_by lt x ys) = add_mset x (mset ys)"
  using assms
proof (induction ys)
  case (Cons y ys)
  have IH: "sorted_wrt (\<lambda>a b. f a \<le> f b) (insert_by lt x ys)" "mset (insert_by lt x ys) = add_mset x (mset ys)"
    using Cons by simp_all
  have "set (insert_by lt x ys) = insert x (set ys)"
    using IH(2) by (metis set_mset_add_mset_insert set_mset_mset)
  then show ?case
    using Cons.prems IH by (force simp: not_less)
qed simp

lemma sort_slice_sorted:
  assumes "\<And>a b. a \<in> set xs \<Longrightarrow> b \<in> set xs \<Longrightarrow> lt a b \<longleftrightarrow> (f a :: u32) < f b"
  shows "sorted_wrt (\<lambda>a b. f a \<le> f b) (sort_slice lt xs) \<and> mset (sort_slice lt xs) = mset xs"
  using assms
proof (induction xs)
  case (Cons x xs)
  have IH: "sorted_wrt (\<lambda>a b. f a \<le> f b) (sort_slice lt xs)" "mset (sort_slice lt xs) = mset xs"
    using Cons by simp_all
  have "lt y x \<longleftrightarrow> f y < f x" if "y \<in> set (sort_slice lt xs)" for y
    using that Cons.prems IH(2) by (metis list.set_intros set_mset_mset set_ConsD)
  from insert_by_sorted [of f "sort_slice lt xs" lt x, OF IH(1) this] IH(2) show ?case
    by (simp add: sort_slice_def)
qed (simp add: sort_slice_def)

section \<open>Properties\<close>

text \<open>
  C37. Updating a manifest by name is updating the map of its entries: the last entry of a
  name wins, and names stay distinct. Nothing moves: every name keeps its place, and names
  that are new follow in the order in which they were first added.
\<close>

theorem manifest_upsert:
  assumes "distinct (map en_name old)"
  shows "let entries = snd (fold upsert added (index_names old, old)) in
    distinct (map en_name entries) \<and> by_name entries = by_name old ++ by_name (rev added)
    \<and> map en_name entries =
        fold (\<lambda>e names. if en_name e \<in> set names then names else names @ [en_name e]) added (map en_name old)"
  using fold_upsert [OF index_names_ok [OF assms], of added] fold_upsert_names [OF index_names_ok [OF assms], of added]
  by (simp add: Let_def index_ok_def)

















text \<open>
  A raw image has exactly the requested size whatever the pattern, and the zero pattern
  is all zeros.
\<close>

theorem raw_image_exact:
  "length (raw_image pattern dev) = nat dev \<and> raw_image ''zeros'' dev = replicate (nat dev) 0"
  by (simp add: raw_image_def raw_blocks_length raw_blocks_zeros)

text \<open>
  Segment files of one family are put in segment order, whatever their names: nothing
  is lost or repeated and the numbers ascend.
\<close>

theorem sort_segment_paths_ascending:
  assumes "paths = p # ps" "parse_family (path_ext p) = Some (family, n)"
    and "list_all (\<lambda>q. family_number family (path_ext q) = Some (number q)) paths"
  shows "\<exists>ordered. sort_segment_paths paths = Returns ordered \<and> mset ordered = mset paths
    \<and> sorted (map number ordered)"
proof -
  have "sort_segment_paths paths = Returns (sort_slice (segment_less family) paths)"
    using assms(1,2) by (simp add: sort_segment_paths_def)
  moreover have "segment_less family a b \<longleftrightarrow> number a < number b" if "a \<in> set paths" "b \<in> set paths" for a b
    using assms(3) that by (simp add: segment_less_def list_all_iff)
  from sort_slice_sorted [of paths "segment_less family" number, OF this]
  have "sorted_wrt (\<lambda>a b. number a \<le> number b) (sort_slice (segment_less family) paths)"
    "mset (sort_slice (segment_less family) paths) = mset paths"
    by simp_all
  ultimately show ?thesis
    by (auto simp: sorted_map)
qed

section \<open>Witnesses\<close>

theorem sort_segment_paths_ascending_witness:
  "\<exists>ordered. sort_segment_paths [''d.EAA'', ''d.E99'', ''D.e02''] = Returns ordered
    \<and> mset ordered = mset [''d.EAA'', ''d.E99'', ''D.e02'']"
proof -
  let ?number = "\<lambda>q. the (family_number \<lparr>fam_base = CHR ''E'', fam_v2 = False\<rparr> (path_ext q))"
  have "parse_family (path_ext ''d.EAA'') = Some (\<lparr>fam_base = CHR ''E'', fam_v2 = False\<rparr>, 100)"
    by code_simp
  moreover have "list_all (\<lambda>q. family_number \<lparr>fam_base = CHR ''E'', fam_v2 = False\<rparr> (path_ext q) = Some (?number q))
      [''d.EAA'', ''d.E99'', ''D.e02'']"
    by code_simp
  ultimately show ?thesis
    using sort_segment_paths_ascending [OF refl, where p = "''d.EAA''" and ps = "[''d.E99'', ''D.e02'']"
      and family = "\<lparr>fam_base = CHR ''E'', fam_v2 = False\<rparr>" and n = 100 and number = ?number] by blast
qed

theorem manifest_upsert_witness:
  "by_name (snd (fold upsert [zero_entry\<lparr>en_name := ''a'', en_size := 5\<rparr>]
     (index_names [zero_entry\<lparr>en_name := ''a''\<rparr>], [zero_entry\<lparr>en_name := ''a''\<rparr>])))
   = by_name [zero_entry\<lparr>en_name := ''a''\<rparr>] ++ by_name (rev [zero_entry\<lparr>en_name := ''a'', en_size := 5\<rparr>])"
proof -
  have "distinct (map en_name [zero_entry\<lparr>en_name := ''a''\<rparr>])"
    by simp
  from manifest_upsert [OF this] show ?thesis
    unfolding Let_def by blast
qed







end
