(* ===== verification/Examples.thy ===== *)
theory Examples
  imports Corpus
begin

text \<open>
  The programs under \<open>examples\<close>: \<open>examples/open\<close>, \<open>examples/readat\<close> and
  \<open>examples/offsets\<close>, which reports on an image and looks for a partition table or a
  filesystem on the decoded device. What a program prints is a list of pieces; numbers are
  printed here, and what needs the formatting of the standard library beyond that (a
  float, a quoted string, a date, the message of an error) is a piece of its own. The
  partition tables of \<open>github.com/aoiflux/libtable\<close> are a parameter.
\<close>

section \<open>Printing\<close>

datatype piece =
    Lit string
  | ErrText gerr
  | SizeText u64 u64
  | Quoted string
  | DateText gtime
  | DumpText bytes

definition new_line :: string where "new_line = [char_of (10 :: nat)]"

definition println :: "string \<Rightarrow> piece list" where "println s = [Lit (s @ new_line)]"

definition print_err :: "string \<Rightarrow> gerr \<Rightarrow> piece list" where
  "print_err s e = [Lit s, ErrText e, Lit new_line]"

fun hex_digits :: "nat \<Rightarrow> string" where
  "hex_digits n = (if n < 16 then [hex_digit (int n)] else hex_digits (n div 16) @ [hex_digit (int (n mod 16))])"

declare hex_digits.simps [simp del]

text \<open>\<open>%x\<close>, \<open>%0wx\<close> and the padding of \<open>%-w\<close>.\<close>

definition print_hex :: "int \<Rightarrow> string" where
  "print_hex n = (if n < 0 then CHR ''-'' # hex_digits (nat (- n)) else hex_digits (nat n))"

definition pad_left :: "nat \<Rightarrow> string \<Rightarrow> string" where
  "pad_left w s = replicate (w - length s) (CHR ''0'') @ s"

definition pad_right :: "nat \<Rightarrow> string \<Rightarrow> string" where
  "pad_right w s = s @ replicate (w - length s) (CHR '' '')"

definition print_bool :: "bool \<Rightarrow> string" where
  "print_bool b = (if b then ''true'' else ''false'')"

section \<open>Files and readers\<close>

text \<open>\<open>resolveSegments\<close>: one path names a set to be discovered, several are taken as given.\<close>

definition resolve_segments :: "file_system \<Rightarrow> string list \<Rightarrow> (gerr + string list) option" where
  "resolve_segments fs paths = (if length paths \<noteq> 1 then Some (Inr paths) else segment_paths fs (hd paths))"

fun open_sources :: "os_calls \<Rightarrow> string list \<Rightarrow> open_file list \<Rightarrow> file_log \<Rightarrow> (gerr + open_file list) \<times> file_log" where
  "open_sources os [] files log = (Inr files, log)"
| "open_sources os (p # ps) files log =
     (case file_open os p log of
        (Inl e, log') \<Rightarrow> (Inl e, close_files os files log')
      | (Inr f, log') \<Rightarrow> open_sources os ps (files @ [f]) log')"

definition open_ewf_reader :: "golib \<Rightarrow> io_source list \<Rightarrow> gerr + image_reader" where
  "open_ewf_reader lib sources =
     (if length sources = 1 then api_open lib (hd sources) else api_open_segments lib sources)"

definition read_bytes :: "'r reader_ops \<Rightarrow> 'r \<Rightarrow> int \<Rightarrow> nat \<Rightarrow> (gerr + bytes) go \<times> 'r" where
  "read_bytes ops r off n =
     (let (res, r') = op_read_at ops r (replicate n 0) off in
      (go_bind res (\<lambda>(buf, got, err).
         if err \<noteq> None \<and> err \<noteq> Some EOF then Returns (Inl (the err))
         else if got \<le> 0 then Returns (Inl EOF)
         else go_bind (slice_go buf 0 got) (\<lambda>bs. Returns (Inr bs))), r'))"

section \<open>Filesystems\<close>

definition has_marker :: "bytes \<Rightarrow> int \<Rightarrow> string \<Rightarrow> bool" where
  "has_marker data off s \<longleftrightarrow>
     0 \<le> off \<and> off + int (length s) \<le> int (length data) \<and>
     string_of_bytes (subslice data (nat off) (nat off + length s)) = s"

definition boot_type :: "bytes \<Rightarrow> string" where
  "boot_type boot =
     (if has_marker boot 3 ''NTFS    '' then ''NTFS''
      else if has_marker boot 82 ''FAT32   '' then ''FAT32''
      else if has_marker boot 3 ''EXFAT   '' then ''exFAT''
      else if has_marker boot 32 ''NXSB'' then ''APFS''
      else [])"

definition superblock_type :: "bytes \<Rightarrow> string" where
  "superblock_type ext =
     (if length ext < 58 then []
      else if ext ! 56 = 0x53 \<and> ext ! 57 = 0xef then ''ext2/3/4''
      else if ext ! 0 = 0x48 \<and> (ext ! 1 = 0x2b \<or> ext ! 1 = 0x58) then ''HFS+''
      else [])"

definition detect_filesystem :: "'r reader_ops \<Rightarrow> 'r \<Rightarrow> int \<Rightarrow> string go \<times> 'r" where
  "detect_filesystem ops r base =
     (case read_bytes ops r base 4096 of
        (Panics, r1) \<Rightarrow> (Panics, r1)
      | (Returns boot, r1) \<Rightarrow>
          (let found = (case boot of Inl _ \<Rightarrow> [] | Inr data \<Rightarrow> boot_type data) in
           if found \<noteq> [] then (Returns found, r1)
           else case read_bytes ops r1 (i64 (base + 1024)) 2048 of
                  (Panics, r2) \<Rightarrow> (Panics, r2)
                | (Returns ext, r2) \<Rightarrow>
                    (Returns (case ext of Inl _ \<Rightarrow> [] | Inr data \<Rightarrow> superblock_type data), r2)))"

fun probe_filesystems ::
  "'r reader_ops \<Rightarrow> bool \<Rightarrow> 'r \<Rightarrow> u64 list \<Rightarrow> (string \<times> u64) go \<times> 'r \<times> piece list" where
  "probe_filesystems ops verbose r [] =
     (Returns ([], 0), r, if verbose then println ''[detect] no filesystem signatures matched'' else [])"
| "probe_filesystems ops verbose r (off # offs) =
     (let out = (if verbose then println (''[detect] probing filesystem at offset='' @ print_int (uint off)) else []) in
      case detect_filesystem ops r (int64_of off) of
        (Panics, r') \<Rightarrow> (Panics, r', out)
      | (Returns fs, r') \<Rightarrow>
          (if fs \<noteq> []
           then (Returns (fs, off), r', out @
                  (if verbose then println (''[detect] filesystem match: offset='' @ print_int (uint off) @ '' type='' @ fs)
                   else []))
           else let (res, r'', more) = probe_filesystems ops verbose r' offs in (res, r'', out @ more)))"

section \<open>Partition tables\<close>

fun candidates_from :: "u64 list \<Rightarrow> u64 list \<Rightarrow> u64 list" where
  "candidates_from seen [] = []"
| "candidates_from seen (off # offs) =
     (if off \<in> set seen then candidates_from seen offs else off # candidates_from (off # seen) offs)"

definition candidate_offsets :: "u64 \<Rightarrow> u64 list" where
  "candidate_offsets requested = candidates_from [] [requested, 0, 63 * 512, 2048 * 512, 4096]"

text \<open>\<open>libtable.Options\<close> as the program fills it in, and one attempt.\<close>

record table_options =
  to_offset :: u64
  to_disable_crc :: bool

record detect_attempt =
  da_label :: string
  da_opts :: table_options
  da_size :: u64

definition build_attempts :: "u64 \<Rightarrow> bool \<Rightarrow> u64 \<Rightarrow> detect_attempt list" where
  "build_attempts off size_known image_size =
     (let strict = \<lparr>to_offset = off, to_disable_crc = False\<rparr>;
          relaxed = \<lparr>to_offset = off, to_disable_crc = True\<rparr> in
      [\<lparr>da_label = ''unknown-size/strict'', da_opts = strict, da_size = 0\<rparr>,
       \<lparr>da_label = ''unknown-size/gpt-crc-relax'', da_opts = relaxed, da_size = 0\<rparr>] @
      (if size_known
       then [\<lparr>da_label = ''known-size/strict'', da_opts = strict, da_size = image_size\<rparr>,
             \<lparr>da_label = ''known-size/gpt-crc-relax'', da_opts = relaxed, da_size = image_size\<rparr>]
       else []))"

definition image_size_from_metadata :: "info \<Rightarrow> bool \<times> u64" where
  "image_size_from_metadata meta =
     (case inf_media meta of
        None \<Rightarrow> (False, 0)
      | Some m \<Rightarrow>
          (if mi_bytes_per_sector m = 0 \<or> mi_number_of_sectors m = 0 then (False, 0)
           else (True, ucast (mi_bytes_per_sector m) * mi_number_of_sectors m)))"

text \<open>
  What the program takes from \<open>libtable\<close>: parsing a reader, and what it reads of a table
  and of its partitions.
\<close>

record ('t, 'p, 'r) libtable =
  lt_parse :: "'r \<Rightarrow> u64 \<Rightarrow> table_options \<Rightarrow> (gerr + 't) \<times> 'r"
  lt_is_backup :: "'t \<Rightarrow> bool"
  lt_type :: "'t \<Rightarrow> string"
  lt_block_size :: "'t \<Rightarrow> int"
  lt_offset :: "'t \<Rightarrow> u64"
  lt_partitions :: "'t \<Rightarrow> 'p list"
  lt_allocated :: "'p \<Rightarrow> bool"
  lt_unallocated :: "'p \<Rightarrow> bool"
  lt_meta :: "'p \<Rightarrow> bool"
  lt_index :: "'p \<Rightarrow> int"
  lt_start :: "'p \<Rightarrow> u64"
  lt_length :: "'p \<Rightarrow> u64"
  lt_type_name :: "'p \<Rightarrow> string"
  lt_type_code :: "'p \<Rightarrow> int"
  lt_guid_type :: "'p \<Rightarrow> string"
  lt_guid_unique :: "'p \<Rightarrow> string"
  lt_name :: "'p \<Rightarrow> string"
  lt_attributes :: "'p \<Rightarrow> int"
  lt_table_number :: "'p \<Rightarrow> int"
  lt_slot_number :: "'p \<Rightarrow> int"

text \<open>The inner and the outer loop; the last error is carried along.\<close>

fun try_attempts ::
  "('t, 'p, 'r) libtable \<Rightarrow> bool \<Rightarrow> u64 \<Rightarrow> 'r \<Rightarrow> gerr option \<Rightarrow> detect_attempt list
     \<Rightarrow> (gerr option + 't \<times> string) \<times> 'r \<times> piece list" where
  "try_attempts lt verbose off r last_err [] = (Inl last_err, r, [])"
| "try_attempts lt verbose off r last_err (a # as) =
     (let out = (if verbose
                 then println (''[detect] trying offset='' @ print_int (uint off) @ '' mode='' @ da_label a @
                   '' size='' @ print_int (uint (da_size a)))
                 else []) in
      case lt_parse lt r (da_size a) (da_opts a) of
        (Inr tbl, r') \<Rightarrow>
          (Inr (tbl, ''offset='' @ print_int (uint off) @ '', '' @ da_label a), r', out @
            (if verbose then println (''[detect] success: offset='' @ print_int (uint off) @ '' mode='' @ da_label a) else []))
      | (Inl e, r') \<Rightarrow>
          (let (res, r'', more) = try_attempts lt verbose off r' (Some e) as in
           (res, r'', out @ (if verbose then print_err ''[detect] failed: '' e else []) @ more)))"

fun try_offsets ::
  "('t, 'p, 'r) libtable \<Rightarrow> bool \<Rightarrow> bool \<times> u64 \<Rightarrow> 'r \<Rightarrow> gerr option \<Rightarrow> u64 list
     \<Rightarrow> (gerr option + 't \<times> string) \<times> 'r \<times> piece list" where
  "try_offsets lt verbose known r last_err [] = (Inl last_err, r, [])"
| "try_offsets lt verbose known r last_err (off # offs) =
     (case try_attempts lt verbose off r last_err (build_attempts off (fst known) (snd known)) of
        (Inr found, r', out) \<Rightarrow> (Inr found, r', out)
      | (Inl e, r', out) \<Rightarrow>
          (let (res, r'', more) = try_offsets lt verbose known r' e offs in (res, r'', out @ more)))"

definition print_offsets :: "u64 list \<Rightarrow> string" where
  "print_offsets offs =
     ''['' @ concat (map (\<lambda>(i, off). (if i = 0 then [] else '' '') @ print_int (uint off)) (enumerate 0 offs)) @ '']''"

definition detect_partition_table ::
  "('t, 'p, 'r) libtable \<Rightarrow> 'r \<Rightarrow> info \<Rightarrow> u64 \<Rightarrow> bool \<Rightarrow> (gerr + 't \<times> string) \<times> 'r \<times> piece list" where
  "detect_partition_table lt r meta start verbose =
     (let offsets = candidate_offsets start;
          known = image_size_from_metadata meta;
          out = (if verbose
                 then println (''[detect] candidate offsets: '' @ print_offsets offsets) @
                   (if fst known then println (''[detect] image size: '' @ print_int (uint (snd known)) @ '' bytes'')
                    else println ''[detect] image size: unknown'')
                 else []);
          (res, r', more) = try_offsets lt verbose known r None offsets in
      (case res of
         Inr found \<Rightarrow> Inr found
       | Inl (Some e) \<Rightarrow> Inl e
       | Inl None \<Rightarrow> Inl (Plain ''no partition table found''),
       r', out @ more))"

section \<open>The report on an image\<close>

definition format_size :: "u64 \<Rightarrow> piece list" where
  "format_size b =
     (if 1099511627776 \<le> b then [SizeText b 1099511627776, Lit '' TB'']
      else if 1073741824 \<le> b then [SizeText b 1073741824, Lit '' GB'']
      else if 1048576 \<le> b then [SizeText b 1048576, Lit '' MB'']
      else if 1024 \<le> b then [SizeText b 1024, Lit '' KB'']
      else [Lit (print_int (uint b) @ '' B'')])"

definition field :: "string \<Rightarrow> string \<Rightarrow> piece list" where
  "field name text = println (name @ '': '' @ text)"

definition print_media :: "media_info \<Rightarrow> piece list" where
  "print_media m =
     println ''  Media geometry'' @
     field ''    bytes_per_sector  '' (print_int (uint (mi_bytes_per_sector m))) @
     field ''    sectors_per_chunk '' (print_int (uint (mi_sectors_per_chunk m))) @
     field ''    number_of_sectors '' (print_int (uint (mi_number_of_sectors m))) @
     field ''    number_of_chunks  '' (print_int (uint (mi_number_of_chunks m))) @
     [Lit ''    total_size        : ''] @ format_size (ucast (mi_bytes_per_sector m) * mi_number_of_sectors m) @
     [Lit new_line] @
     field ''    media_type        '' (print_int (uint (mi_media_type m))) @
     field ''    media_flags       '' (''0x'' @ pad_left 2 (print_hex (uint (mi_media_flags m)))) @
     field ''    compression_level '' (print_int (uint (mi_compression_level m))) @
     field ''    error_granularity '' (print_int (uint (mi_error_granularity m))) @
     field ''    set_identifier    '' (hex_encode (mi_set_identifier m))"

text \<open>The counts by type, in ascending order of the types.\<close>

definition type_keys :: "info \<Rightarrow> u32 list" where
  "type_keys meta = sorted_list_of_set (dom (inf_type_counts meta))"

definition print_type_counts :: "info \<Rightarrow> piece list" where
  "print_type_counts meta =
     (if type_keys meta \<noteq> []
      then println ''  Section type counts'' @
        concat (map (\<lambda>t. println (''    type '' @ pad_right 2 (print_int (uint t)) @ '' : '' @
          print_int (int (the (inf_type_counts meta t))))) (type_keys meta))
      else [])"

definition print_image_report :: "info \<Rightarrow> string list \<Rightarrow> u64 \<Rightarrow> piece list" where
  "print_image_report meta segments pt_offset =
     println (''Input segments ('' @ print_int (int (length segments)) @ ''):'') @
     concat (map (\<lambda>(i, path). println (''  ['' @ print_int (int i + 1) @ ''] '' @ path)) (enumerate 0 segments)) @
     println (''Partition parse offset: '' @ print_int (uint pt_offset) @ '' bytes'' @ new_line) @
     println ''EWF metadata'' @
     field ''  version            '' (print_int (uint (inf_major_version meta)) @ ''.'' @ print_int (uint (inf_minor_version meta))) @
     field ''  segment_number     '' (print_int (uint (inf_segment_number meta))) @
     field ''  compression_method '' (print_int (uint (inf_compression_method meta))) @
     field ''  section_count      '' (print_int (int (inf_section_count meta))) @
     field ''  has_next           '' (print_bool (inf_has_next meta)) @
     field ''  has_done           '' (print_bool (inf_has_done meta)) @
     field ''  encrypted          '' (print_bool (inf_is_encrypted meta)) @
     field ''  integrity_hashes   '' (print_bool (inf_has_integrity_blocks meta)) @
     (if inf_has_md5 meta then field ''  md5                '' (hex_encode (inf_md5 meta)) else []) @
     (if inf_has_sha1 meta then field ''  sha1               '' (hex_encode (inf_sha1 meta)) else []) @
     (case inf_media meta of None \<Rightarrow> [] | Some m \<Rightarrow> print_media m) @
     (if inf_sessions meta \<noteq> []
      then field ''  sessions           '' (print_int (int (length (inf_sessions meta)))) else []) @
     (if inf_errors meta \<noteq> []
      then field ''  acquisition_errors '' (print_int (int (length (inf_errors meta)))) else []) @
     print_type_counts meta @
     println []"

definition part_flags_string :: "('t, 'p, 'r) libtable \<Rightarrow> 'p \<Rightarrow> string" where
  "part_flags_string lt p =
     (let parts = (if lt_allocated lt p then [''allocated''] else []) @
                  (if lt_unallocated lt p then [''unallocated''] else []) @
                  (if lt_meta lt p then [''meta''] else []) in
      if parts = [] then ''unknown''
      else hd parts @ concat (map (\<lambda>s. '', '' @ s) (tl parts)))"

definition print_partition :: "('t, 'p, 'r) libtable \<Rightarrow> 't \<Rightarrow> 'p \<Rightarrow> piece list" where
  "print_partition lt tbl p =
     (let start_byte = lt_offset lt tbl + lt_start lt p * uint64_of (lt_block_size lt tbl);
          size_bytes = lt_length lt p * uint64_of (lt_block_size lt tbl) in
      println (''  Partition '' @ print_int (lt_index lt p) @ ''  ['' @ part_flags_string lt p @ '']'') @
      println (''    start_lba   : '' @ print_int (uint (lt_start lt p)) @ ''  (byte offset '' @
        print_int (uint start_byte) @ '')'') @
      [Lit (''    length      : '' @ print_int (uint (lt_length lt p)) @ '' sectors  ('')] @ format_size size_bytes @
      println '')'' @
      println (''    type        : '' @ lt_type_name lt p @ ''  (code 0x'' @ print_hex (lt_type_code lt p) @ '')'') @
      (if lt_guid_type lt p \<noteq> [] then println (''    guid_type   : '' @ lt_guid_type lt p) else []) @
      (if lt_guid_unique lt p \<noteq> [] then println (''    guid_unique : '' @ lt_guid_unique lt p) else []) @
      (if lt_name lt p \<noteq> [] then println (''    name        : '' @ lt_name lt p) else []) @
      (if lt_attributes lt p \<noteq> 0
       then println (''    attributes  : 0x'' @ pad_left 16 (print_hex (lt_attributes lt p))) else []) @
      (if 0 \<le> lt_table_number lt p \<or> 0 \<le> lt_slot_number lt p
       then println (''    slot        : table='' @ print_int (lt_table_number lt p) @ '' slot='' @ print_int (lt_slot_number lt p))
       else []) @
      println [])"

definition print_partition_table :: "('t, 'p, 'r) libtable \<Rightarrow> 't \<Rightarrow> piece list" where
  "print_partition_table lt tbl =
     println ''Partition table'' @
     println (''  type       : '' @ lt_type lt tbl @ (if lt_is_backup lt tbl then '' (backup copy)'' else [])) @
     println (''  block_size : '' @ print_int (lt_block_size lt tbl) @ '' bytes'') @
     println (''  offset     : '' @ print_int (uint (lt_offset lt tbl)) @ '' bytes'') @
     println (''  partitions : '' @ print_int (int (length (lt_partitions lt tbl))) @ new_line) @
     (if lt_partitions lt tbl = [] then println ''  (no partitions)''
      else concat (map (print_partition lt tbl) (lt_partitions lt tbl)))"

section \<open>The hex dump\<close>

definition hex_byte :: "u8 \<Rightarrow> string" where
  "hex_byte b = [hex_digit (uint b div 16), hex_digit (uint b mod 16)]"

text \<open>The two columns of a row, byte by byte from position \<open>j\<close>, and the filling behind a short one.\<close>

fun hex_part :: "nat \<Rightarrow> bytes \<Rightarrow> string" where
  "hex_part j [] = []"
| "hex_part j (b # bs) = (if j = 8 then '' '' else []) @ hex_byte b @ '' '' @ hex_part (Suc j) bs"

fun hex_fill :: "nat \<Rightarrow> nat \<Rightarrow> string" where
  "hex_fill j 0 = []"
| "hex_fill j (Suc n) = (if j = 8 then '' '' else []) @ ''   '' @ hex_fill (Suc j) n"

definition ascii_part :: "bytes \<Rightarrow> string" where
  "ascii_part row = map (\<lambda>b. if 0x20 \<le> b \<and> b < 0x7f then char_byte b else CHR ''.'') row"

definition dump_row :: "nat \<Rightarrow> bytes \<Rightarrow> string" where
  "dump_row i row =
     pad_left 8 (print_hex (int i)) @ ''  '' @
     pad_right 49 (hex_part 0 row @ hex_fill (length row) (16 - length row)) @ '' |'' @ ascii_part row @ ''|''"

fun dump_rows :: "nat \<Rightarrow> bytes \<Rightarrow> string list" where
  "dump_rows i buf = (if buf = [] then [] else dump_row i (take 16 buf) # dump_rows (i + 16) (drop 16 buf))"

declare dump_rows.simps [simp del]

definition dump_stream_sectors :: "'r reader_ops \<Rightarrow> 'r \<Rightarrow> int \<Rightarrow> piece list go \<times> 'r" where
  "dump_stream_sectors ops r sectors =
     (let n = i64 (sectors * 512) in
      if n < 0 then (Panics, r)
      else let (res, r') = op_read_at ops r (replicate (nat n) 0) 0 in
           (go_bind res (\<lambda>(buf, got, err).
              go_bind (slice_go buf 0 got) (\<lambda>bs.
                Returns
                 (println (new_line @ ''--- hex dump: first '' @ print_int sectors @ '' sector(s) from decoded stream ('' @
                    print_int got @ '' bytes) ---'') @
                  concat (map println (dump_rows 0 bs)) @
                  (if err \<noteq> None \<and> err \<noteq> Some EOF
                   then print_err (''read error after '' @ print_int got @ '' bytes: '') (the err) else []) @
                  println ''---''))), r'))"

section \<open>The program \<open>offsets\<close>\<close>

definition offsets_usage :: string where
  "offsets_usage =
     ''usage: offsets [-pt-offset N] [-verbose-detect] [-dump-sectors N] <image.E01> [segment2.E02 ...]'' @ new_line @
     ''       one path is enough: the rest of the segment set is discovered''"

text \<open>The arguments, as the package \<open>flag\<close> leaves them.\<close>

record offset_args =
  oa_pt_offset :: u64
  oa_verbose :: bool
  oa_dump_sectors :: int
  oa_segments :: "string list"

record exit =
  ex_code :: int
  ex_out :: "piece list"
  ex_err :: "piece list"

definition offsets_body ::
  "('t, 'p, 'r) libtable \<Rightarrow> 'r reader_ops \<Rightarrow> offset_args \<Rightarrow> string list \<Rightarrow> 'r \<Rightarrow> piece list go \<times> 'r" where
  "offsets_body lt ops a segments r =
     (let meta = op_metadata ops r;
          report = print_image_report meta segments (oa_pt_offset a);
          (dump, r1) = (if 0 < oa_dump_sectors a then dump_stream_sectors ops r (oa_dump_sectors a) else (Returns [], r)) in
      case dump of
        Panics \<Rightarrow> (Panics, r1)
      | Returns dumped \<Rightarrow>
          (case detect_partition_table lt r1 meta (oa_pt_offset a) (oa_verbose a) of
             (Inr (tbl, strategy), r2, out) \<Rightarrow>
               (Returns (report @ dumped @ out @ println (''Detection strategy: '' @ strategy @ new_line) @
                  print_partition_table lt tbl), r2)
           | (Inl e, r2, out) \<Rightarrow>
               (let (res, r3, more) = probe_filesystems ops (oa_verbose a) r2 (candidate_offsets (oa_pt_offset a)) in
                (go_bind res (\<lambda>(fs, off). Returns (report @ dumped @ out @ more @
                   (if fs \<noteq> []
                    then println (''Filesystem detected at offset '' @ print_int (uint off) @ '': '' @ fs @ '' (no partition table)'')
                    else print_err ''No partition table or filesystem detected: '' e))), r3))))"

text \<open>
  \<open>main\<close>. The files are closed by a deferred call, which \<open>os.Exit\<close> does not run and a panic
  does. \<open>None\<close> is a discovery that does not end.
\<close>

definition run_offsets ::
  "('t, 'p, image_reader) libtable \<Rightarrow> golib \<Rightarrow> os_calls \<Rightarrow> offset_args \<Rightarrow> file_log \<Rightarrow> (exit go \<times> file_log) option" where
  "run_offsets lt lib os a log =
     (if oa_segments a = [] then Some (Returns \<lparr>ex_code = 1, ex_out = println offsets_usage, ex_err = []\<rparr>, log)
      else case resolve_segments (os_fs os) (oa_segments a) of
        None \<Rightarrow> None
      | Some (Inl e) \<Rightarrow> Some (Returns \<lparr>ex_code = 1, ex_out = [], ex_err = print_err ''segment set error: '' e\<rparr>, log)
      | Some (Inr segments) \<Rightarrow>
          Some (case open_sources os segments [] log of
            (Inl e, log1) \<Rightarrow> (Returns \<lparr>ex_code = 1, ex_out = [], ex_err = print_err ''open error: '' e\<rparr>, log1)
          | (Inr files, log1) \<Rightarrow>
              (case open_ewf_reader lib (map of_source files) of
                 Inl e \<Rightarrow> (Returns \<lparr>ex_code = 1, ex_out = [], ex_err = print_err ''libewf error: '' e\<rparr>, log1)
               | Inr r \<Rightarrow>
                   (go_bind (fst (offsets_body lt (image_ops lib) a segments r))
                      (\<lambda>out. Returns \<lparr>ex_code = 0, ex_out = out, ex_err = []\<rparr>),
                    close_files os files log1))))"

section \<open>The programs \<open>open\<close> and \<open>readat\<close>\<close>

definition readat_usage :: string where
  "readat_usage = ''usage: go run ./examples/readat <image.E01>''"

definition run_readat :: "golib \<Rightarrow> os_calls \<Rightarrow> string list \<Rightarrow> file_log \<Rightarrow> (exit go \<times> file_log) option" where
  "run_readat lib os argv log =
     (if length argv < 2 then Some (Returns \<lparr>ex_code = 1, ex_out = println readat_usage, ex_err = []\<rparr>, log)
      else case open_path lib os (argv ! 1) log of
        None \<Rightarrow> None
      | Some (Inl e, log1) \<Rightarrow> Some (Returns \<lparr>ex_code = 1, ex_out = print_err ''libewf open error: '' e, ex_err = []\<rparr>, log1)
      | Some (Inr r, log1) \<Rightarrow>
          Some (let (res, (r', log2)) = op_read_at (path_ops lib os) (r, log1) (replicate 64 0) 0;
                    (cerr, r'', log3) = path_close os r' log2 in
            (case res of
               Panics \<Rightarrow> (Panics, log3)
             | Returns (buf, n, err) \<Rightarrow>
                 (if err \<noteq> None \<and> err \<noteq> Some EOF
                  then (Returns \<lparr>ex_code = 1, ex_out = print_err ''read error: '' (the err), ex_err = []\<rparr>, log2)
                  else (go_bind (slice_go buf 0 n) (\<lambda>bs. Returns
                     \<lparr>ex_code = 0, ex_out = println (''read='' @ print_int n @ '' bytes'') @ [DumpText bs, Lit new_line], ex_err = []\<rparr>),
                     log3)))))"

definition open_usage :: string where
  "open_usage = ''usage: go run ./examples/open <image.E01> [segment2.E02 ...]'' @ new_line @
     ''       one path is enough: the rest of the segment set is discovered''"

text \<open>The files opened here stay open, and those of a set that fails to open too.\<close>

fun open_all :: "os_calls \<Rightarrow> string list \<Rightarrow> io_source list \<Rightarrow> file_log \<Rightarrow> (gerr + io_source list) \<times> file_log" where
  "open_all os [] sources log = (Inr sources, log)"
| "open_all os (p # ps) sources log =
     (case file_open os p log of
        (Inl e, log') \<Rightarrow> (Inl e, log')
      | (Inr f, log') \<Rightarrow> open_all os ps (sources @ [of_source f]) log')"

datatype some_reader = PathReader path_reader | ImageReader image_reader

definition open_some :: "golib \<Rightarrow> os_calls \<Rightarrow> string list \<Rightarrow> file_log \<Rightarrow> ((gerr + some_reader) \<times> file_log) option" where
  "open_some lib os paths log =
     (if length paths = 1
      then map_option (\<lambda>(res, log'). (map_sum id PathReader res, log')) (open_path lib os (hd paths) log)
      else Some (case open_all os paths [] log of
                   (Inl e, log') \<Rightarrow> (Inl e, log')
                 | (Inr sources, log') \<Rightarrow> (map_sum id ImageReader (api_open_segments lib sources), log')))"

definition print_acquisition :: "(gtime \<Rightarrow> bool) \<Rightarrow> acquisition \<Rightarrow> piece list" where
  "print_acquisition is_zero a =
     [Lit ''case='', Quoted (acquisition.acq_case_number a), Lit '' evidence='', Quoted (acquisition.acq_evidence_number a),
      Lit '' description='', Quoted (acquisition.acq_description a), Lit new_line,
      Lit ''examiner='', Quoted (acquisition.acq_examiner_name a), Lit '' notes='', Quoted (acquisition.acq_notes a), Lit new_line,
      Lit ''tool='', Quoted (acquisition.acq_software_version a), Lit '' os='', Quoted (acquisition.acq_operating_system a), Lit new_line] @
     (if acquisition.acq_model a \<noteq> [] \<or> acquisition.acq_serial_number a \<noteq> []
      then [Lit ''device model='', Quoted (acquisition.acq_model a), Lit '' serial='', Quoted (acquisition.acq_serial_number a), Lit new_line]
      else []) @
     (if \<not> is_zero (acquisition.acq_acquiry_date a) then [Lit ''acquired='', DateText (acquisition.acq_acquiry_date a), Lit new_line]
      else if acquisition.acq_acquiry_date_raw a \<noteq> []
      then [Lit ''acquired='', Quoted (acquisition.acq_acquiry_date_raw a), Lit ('' (unparsed)'' @ new_line)]
      else [])"

definition print_open_report :: "(gtime \<Rightarrow> bool) \<Rightarrow> info \<Rightarrow> int \<Rightarrow> int \<Rightarrow> piece list" where
  "print_open_report is_zero m size_bytes sector =
     println (''version='' @ print_int (uint (inf_major_version m)) @ ''.'' @ print_int (uint (inf_minor_version m)) @
       '' segment='' @ print_int (uint (inf_segment_number m)) @ '' sections='' @ print_int (int (inf_section_count m))) @
     println (''size='' @ print_int size_bytes @ '' bytes sector='' @ print_int sector @ '' bytes'') @
     (case inf_media m of
        None \<Rightarrow> []
      | Some g \<Rightarrow>
          println (''chunks declared='' @ print_int (uint (mi_number_of_chunks g)) @ '' observed='' @
            print_int (uint (inf_observed_chunks m)) @ '' sectors/chunk='' @ print_int (uint (mi_sectors_per_chunk g)) @
            '' bytes/sector='' @ print_int (uint (mi_bytes_per_sector g)) @ '' sectors='' @
            print_int (uint (mi_number_of_sectors g)))) @
     (case inf_acquisition m of None \<Rightarrow> [] | Some a \<Rightarrow> print_acquisition is_zero a) @
     (if inf_has_md5 m then println (''acquisition md5='' @ hex_encode (inf_md5 m)) else []) @
     (if inf_has_sha1 m then println (''acquisition sha1='' @ hex_encode (inf_sha1 m)) else []) @
     (if 0 < inf_tables_recovered m
      then println (''warning: '' @ print_int (int (inf_tables_recovered m)) @ '' chunk table(s) recovered from their table2 backup'')
      else []) @
     (if 0 < inf_tables_invalid m
      then println (''warning: '' @ print_int (int (inf_tables_invalid m)) @
        '' chunk table(s) failed checksum validation; data is unverified'')
      else []) @
     (if inf_errors m \<noteq> []
      then println (''warning: '' @ print_int (int (length (inf_errors m))) @
        '' sector range(s) were unreadable at acquisition time'')
      else [])"

definition run_open :: "(gtime \<Rightarrow> bool) \<Rightarrow> golib \<Rightarrow> os_calls \<Rightarrow> string list \<Rightarrow> file_log \<Rightarrow> (exit \<times> file_log) option" where
  "run_open is_zero lib os argv log =
     (if length argv < 2 then Some (\<lparr>ex_code = 1, ex_out = println open_usage, ex_err = []\<rparr>, log)
      else map_option (\<lambda>(res, log1).
        case res of
          Inl e \<Rightarrow> (\<lparr>ex_code = 1, ex_out = print_err ''libewf open error: '' e, ex_err = []\<rparr>, log1)
        | Inr rd \<Rightarrow>
            (let img = (case rd of PathReader r \<Rightarrow> pr_reader r | ImageReader r \<Rightarrow> r);
                 log2 = (case rd of PathReader r \<Rightarrow> snd (snd (path_close os r log1)) | ImageReader r \<Rightarrow> log1) in
             (\<lparr>ex_code = 0, ex_out = print_open_report is_zero (ir_metadata img) (reader_size img) (sector_size img), ex_err = []\<rparr>,
              log2))) (open_some lib os (tl argv) log))"

end
