(* ===== verification/Written_Image.thy ===== *)
theory Written_Image
  imports Device_Verify
begin

text \<open>
  A writer of EWF-E01 sets, given by what it must put where, and the proof that the library
  reads back what it wrote: from the chain of sections of one file, over the chunk table and
  the metadata of a segment, to the device of a whole set and its verification. Nothing here
  models code; the parts of \<open>reader\<close> and \<open>verify.go\<close> are composed and tested against it.
\<close>

section \<open>Chains of sections\<close>

text \<open>A writer lays sections out one after the other, each a descriptor and its body.\<close>

fun encode_sections :: "nat \<Rightarrow> (string \<times> bytes) list \<Rightarrow> bytes" where
  "encode_sections off [] = []"
| "encode_sections off ((name, body) # ss) =
     (let off' = off + 76 + length body in
      encode_descriptor_v1 name (of_nat off') (of_nat (76 + length body)) @ body @ encode_sections off' ss)"

fun section_infos :: "nat \<Rightarrow> (string \<times> bytes) list \<Rightarrow> section_info list" where
  "section_infos off [] = []"
| "section_infos off ((name, body) # ss) =
     \<lparr>si_offset = int off, si_descriptor_size = 76, si_type = map_v1_type_string name,
      si_type_string = name, si_data_flags = 0, si_size = of_nat (76 + length body),
      si_data_offset = int off + 76, si_data_size = of_nat (length body), si_padding_size = 0\<rparr>
     # section_infos (off + 76 + length body) ss"

fun sections_length :: "(string \<times> bytes) list \<Rightarrow> nat" where
  "sections_length [] = 0"
| "sections_length ((name, body) # ss) = 76 + length body + sections_length ss"

definition section_name :: "string \<Rightarrow> bool" where
  "section_name name \<longleftrightarrow> length name \<le> 16 \<and> CHR 0x00 \<notin> set name \<and> trim_space name = name"

definition terminal_name :: "string \<Rightarrow> bool" where
  "terminal_name name \<longleftrightarrow> name = ''next'' \<or> name = ''done''"

lemma length_encode_sections [simp, len_simps]: "length (encode_sections off ss) = sections_length ss"
  by (induction off ss rule: encode_sections.induct) (simp_all add: Let_def)

lemma sections_length_append [simp]: "sections_length (xs @ ys) = sections_length xs + sections_length ys"
  by (induction xs rule: sections_length.induct) auto

lemma encode_sections_append:
  "encode_sections off (xs @ ys) = encode_sections off xs @ encode_sections (off + sections_length xs) ys"
  by (induction off xs rule: encode_sections.induct) (simp_all add: Let_def add.assoc)

lemma section_infos_append:
  "section_infos off (xs @ ys) = section_infos off xs @ section_infos (off + sections_length xs) ys"
  by (induction off xs rule: section_infos.induct) (simp_all add: add.assoc)

lemma length_section_infos [simp, len_simps]: "length (section_infos off ss) = length ss"
  by (induction off ss rule: section_infos.induct) auto

lemma section_infos_types: "map si_type_string (section_infos off ss) = map fst ss"
  by (induction off ss rule: section_infos.induct) auto

lemma section_infos_codes: "map si_type (section_infos off ss) = map (\<lambda>s. map_v1_type_string (fst s)) ss"
  by (induction off ss rule: section_infos.induct) auto

lemma section_infos_names:
  "map (\<lambda>d. (si_type_string d, si_type d)) (section_infos off ss) = map (\<lambda>s. (fst s, map_v1_type_string (fst s))) ss"
  by (induction off ss rule: section_infos.induct) auto

lemma terminal_name_code:
  "map_v1_type_string name = section_code NextSection \<or> map_v1_type_string name = section_code DoneSection
     \<longleftrightarrow> terminal_name name"
  by (simp add: map_v1_type_string_def terminal_name_def section_code_inject)

lemma read_written_section:
  assumes "section_name name" "length pre + 76 + length body < 1000000000000"
  shows "read_section_descriptor_v1
      (bytes_source (pre @ encode_descriptor_v1 name nxt (of_nat (76 + length body)) @ post)) (int (length pre)) =
    Inr (hd (section_infos (length pre) [(name, body)]))"
proof -
  have u: "uint (of_nat (76 + length body) :: u64) = 76 + int (length body)"
    using assms(2) uint_u64_id [of "int (76 + length body)"] by simp
  then have "76 \<le> (of_nat (76 + length body) :: u64)"
    by (simp add: word_le_def)
  moreover have "of_nat (76 + length body) - 76 = (of_nat (length body) :: u64)"
    by simp
  ultimately show ?thesis
    using assms by (simp add: section_name_def read_encode_descriptor_v1)
qed

text \<open>The descriptors of a written chain are found in order, up to the terminator.\<close>

definition chain_sections :: "(string \<times> bytes) list \<Rightarrow> bool" where
  "chain_sections ss \<longleftrightarrow>
     ss \<noteq> [] \<and> list_all (\<lambda>s. section_name (fst s)) ss \<and>
     list_all (\<lambda>s. \<not> terminal_name (fst s)) (butlast ss) \<and> terminal_name (fst (last ss))"

lemma written_chain:
  assumes "chain_sections ss" "length pre + sections_length ss < 1000000000000"
  shows "v1_chain (bytes_source (pre @ encode_sections (length pre) ss @ post)) (int (length pre))
    (section_infos (length pre) ss)"
  using assms
proof (induction ss arbitrary: pre)
  case (Cons s ss)
  obtain name body where s: "s = (name, body)" by (cases s)
  define nxt :: u64 where "nxt = of_nat (length pre + 76 + length body)"
  let ?d = "encode_descriptor_v1 name nxt (of_nat (76 + length body))"
  let ?i = "hd (section_infos (length pre) [(name, body)])"
  have len: "length (pre @ ?d @ body) = length pre + 76 + length body"
    by simp
  have bytes: "pre @ encode_sections (length pre) (s # ss) @ post =
      (pre @ ?d @ body) @ encode_sections (length (pre @ ?d @ body)) ss @ post"
    by (simp add: s Let_def nxt_def add.assoc)
  have read: "read_section_descriptor_v1 (bytes_source (pre @ encode_sections (length pre) (s # ss) @ post))
      (int (length pre)) = Inr ?i"
    using Cons.prems read_written_section [of name pre body nxt "body @ encode_sections (length pre + 76 + length body) ss @ post"]
    by (simp add: s Let_def nxt_def chain_sections_def)
  have ends: "terminal_section ?i \<longleftrightarrow> terminal_name name"
    using terminal_name_code [of name] by (simp add: terminal_section_def)
  show ?case
  proof (cases "ss = []")
    case True
    with Cons.prems(1) ends s have "terminal_section ?i"
      by (simp add: chain_sections_def)
    from v1_last [OF read this] show ?thesis
      by (simp add: s True)
  next
    case False
    then have rest: "chain_sections ss" "\<not> terminal_section ?i"
      using Cons.prems(1) ends s by (auto simp: chain_sections_def)
    have "uint (of_nat (76 + length body) :: u64) = 76 + int (length body)"
      using Cons.prems(2) s uint_u64_id [of "int (76 + length body)"] by simp
    then have "next_offset_v1 ?i = int (length (pre @ ?d @ body))"
      using Cons.prems(2) s by (simp add: next_offset_v1_def int64_of_small i64_nonneg_id)
    then have "v1_chain (bytes_source (pre @ encode_sections (length pre) (s # ss) @ post)) (next_offset_v1 ?i)
        (section_infos (length pre + 76 + length body) ss)"
      using Cons.IH [OF rest(1), of "pre @ ?d @ body"] Cons.prems(2)
      unfolding bytes [symmetric] len by (simp add: s nxt_def)
    from v1_step [OF read rest(2) this] show ?thesis
      by (simp add: s)
  qed
qed (simp add: chain_sections_def)

lemma written_bodies:
  assumes "i < length ss" "snd (ss ! i) \<noteq> []" "length (snd (ss ! i)) \<le> 1073741824"
  shows "read_slice (bytes_source (pre @ encode_sections (length pre) ss @ post))
      (si_data_offset (section_infos (length pre) ss ! i)) (int (length (snd (ss ! i)))) = Inr (snd (ss ! i))"
  using assms
proof (induction ss arbitrary: i pre)
  case (Cons s ss)
  obtain name body where s: "s = (name, body)" by (cases s)
  let ?d = "encode_descriptor_v1 name (of_nat (length pre + 76 + length body)) (of_nat (76 + length body))"
  show ?case
  proof (cases i)
    case 0
    have "read_slice (bytes_source ((pre @ ?d) @ body @ encode_sections (length pre + 76 + length body) ss @ post))
        (int (length pre) + 76) (int (length body)) = Inr body"
      using Cons.prems s 0 by (intro read_slice_mid) (auto simp: max_read_size_def)
    then show ?thesis
      by (simp add: s 0 Let_def)
  next
    case (Suc j)
    then show ?thesis
      using Cons.IH [of j "pre @ ?d @ body"] Cons.prems by (simp add: s Let_def add.assoc)
  qed
qed simp

section \<open>A written segment\<close>

text \<open>
  A segment of an EWF-E01 set: metadata sections, one group of chunks with its table and
  the backup copy of the table, further metadata sections, and the terminator.
\<close>

record written_segment =
  ws_before :: "(string \<times> bytes) list"
  ws_chunks :: "(bool \<times> bytes) list"
  ws_after :: "(string \<times> bytes) list"

definition stored_sizes :: "(bool \<times> bytes) list \<Rightarrow> (bool \<times> int) list" where
  "stored_sizes cs = map (\<lambda>c. (fst c, int (length (snd c)))) cs"

definition chunk_group :: "nat \<Rightarrow> (bool \<times> bytes) list \<Rightarrow> (string \<times> bytes) list" where
  "chunk_group off cs =
     (let table = encode_table_v1 (int (off + 76)) (v1_entries 0 (stored_sizes cs)) in
      [(''sectors'', concat (map snd cs)), (''table'', table), (''table2'', table)])"

definition segment_layout :: "bool \<Rightarrow> written_segment \<Rightarrow> (string \<times> bytes) list" where
  "segment_layout ends w =
     ws_before w @ chunk_group (13 + sections_length (ws_before w)) (ws_chunks w) @ ws_after w @
     [(if ends then ''done'' else ''next'', [])]"

definition write_segment :: "u16 \<Rightarrow> bool \<Rightarrow> written_segment \<Rightarrow> bytes" where
  "write_segment n ends w = encode_header_v1 FileEWF1 n @ encode_sections 13 (segment_layout ends w)"

definition written_header :: "u16 \<Rightarrow> header_info" where
  "written_header n =
     \<lparr>hi_signature = signature_evf_v1, hi_major_version = 1, hi_minor_version = 0,
      hi_compression_method = 0, hi_segment_number = ucast n\<rparr>"

text \<open>Any section but the geometry, the tables and the terminators.\<close>

definition plain_section :: "string \<Rightarrow> bool" where
  "plain_section name \<longleftrightarrow> section_name name \<and> \<not> terminal_name name \<and>
     map_v1_type_string name \<noteq> section_code DeviceInformation \<and>
     map_v1_type_string name \<noteq> section_code SectorTable"

text \<open>What a segment may hold: fewer than 2 GiB, and as many sections and chunks as are read.\<close>

definition segment_fits :: "written_segment \<Rightarrow> bool" where
  "segment_fits w \<longleftrightarrow>
     ws_chunks w \<noteq> [] \<and> length (ws_chunks w) \<le> 16777216 \<and> list_all (\<lambda>c. snd c \<noteq> []) (ws_chunks w) \<and>
     length (ws_before w) + length (ws_after w) \<le> 65532 \<and>
     sections_length (segment_layout True w) < 2147483600 \<and>
     list_all (\<lambda>s. plain_section (fst s)) (ws_after w)"

lemma group_names:
  "section_name ''sectors''" "section_name ''table''" "section_name ''table2''"
  "section_name ''next''" "section_name ''done''" "section_name ''volume''"
  by code_simp+

lemma map_fst_group: "map fst (chunk_group off cs) = [''sectors'', ''table'', ''table2'']"
  by (simp add: chunk_group_def Let_def)

lemma length_layout: "sections_length (segment_layout ends w) = sections_length (segment_layout True w)"
  by (simp add: segment_layout_def)

definition before_names :: "(string \<times> bytes) list \<Rightarrow> bool" where
  "before_names ss \<longleftrightarrow> list_all (\<lambda>s. section_name (fst s) \<and> \<not> terminal_name (fst s) \<and>
     map_v1_type_string (fst s) \<noteq> section_code SectorTable) ss"

lemma layout_chain:
  assumes "segment_fits w" "before_names (ws_before w)"
  shows "chain_sections (segment_layout ends w)" "length (segment_layout ends w) \<le> 65536"
proof -
  have after: "list_all (\<lambda>s. section_name (fst s) \<and> \<not> terminal_name (fst s)) (ws_after w)"
    using assms(1) by (auto simp: segment_fits_def plain_section_def list_all_iff)
  have before: "list_all (\<lambda>s. section_name (fst s) \<and> \<not> terminal_name (fst s)) (ws_before w)"
    using assms(2) by (auto simp: before_names_def list_all_iff)
  have group: "list_all (\<lambda>s. section_name (fst s) \<and> \<not> terminal_name (fst s)) (chunk_group off cs)" for off cs
    by (simp add: chunk_group_def Let_def group_names terminal_name_def)
  show "chain_sections (segment_layout ends w)"
    using after before group [of "13 + sections_length (ws_before w)" "ws_chunks w"]
    by (auto simp: chain_sections_def segment_layout_def list_all_iff butlast_append group_names terminal_name_def)
  show "length (segment_layout ends w) \<le> 65536"
    using assms(1) by (simp add: segment_fits_def segment_layout_def chunk_group_def Let_def)
qed

lemma length_header_v1 [simp, len_simps]: "length (encode_header_v1 t n) = 13"
  by (simp add: encode_header_v1_def)

lemma parse_written_segment:
  assumes "segment_fits w" "before_names (ws_before w)"
  shows "parse_segment lib (bytes_source (write_segment n ends w)) =
    Inr (segment_of lib (bytes_source (write_segment n ends w)) FileEWF1 (written_header n)
      (section_infos 13 (segment_layout ends w)))"
proof -
  let ?src = "bytes_source (write_segment n ends w)"
  let ?rest = "encode_sections 13 (segment_layout ends w)"
  have "read_slice (bytes_source (signature_evf_v1 @ ([1] @ put16 n @ [0, 0] @ ?rest))) 0 8 = Inr signature_evf_v1"
    by (intro read_slice_prefix) (simp_all add: max_read_size_def signature_evf_v1_def)
  then have sig: "read_slice ?src 0 8 = Inr signature_evf_v1"
    by (simp add: write_segment_def encode_header_v1_def file_signature_def)
  have det: "detect_segment_file_type signature_evf_v1 = Inr FileEWF1"
    by (simp add: detect_segment_file_type_def)
  have hdr: "parse_file_header ?src FileEWF1 = Inr (written_header n)"
    by (simp add: parse_file_header_def write_segment_def parse_encode_header_v1 written_header_def
        file_signature_def)
  have "v1_chain (bytes_source (encode_header_v1 FileEWF1 n @
      encode_sections (length (encode_header_v1 FileEWF1 n)) (segment_layout ends w) @ []))
      (int (length (encode_header_v1 FileEWF1 n)))
      (section_infos (length (encode_header_v1 FileEWF1 n)) (segment_layout ends w))"
    using assms(1) length_layout [of ends w]
    by (intro written_chain layout_chain [OF assms]) (simp add: segment_fits_def)
  then have "parse_sections_v1 ?src = Inr (section_infos 13 (segment_layout ends w))"
    using layout_chain(2) [OF assms, of ends]
    by (simp add: parse_sections_v1_def max_sections_def walk_v1_chain write_segment_def)
  then show ?thesis
    by (simp add: parse_segment_def sig det hdr parse_section_descriptors_def written_header_def)
qed

section \<open>The chunks of a written segment\<close>

lemma sum_stored_sizes: "sum_list (map snd (stored_sizes cs)) = int (length (concat (map snd cs)))"
  by (induction cs) (simp_all add: stored_sizes_def)

lemma length_encode_table_v1: "length (encode_table_v1 base raws) = 28 + 4 * length raws"
  by (simp add: encode_table_v1_def Let_def)

lemma layout_tables:
  assumes "before_names (ws_before w)" "list_all (\<lambda>s. plain_section (fst s)) (ws_after w)"
  shows "filter (\<lambda>s. si_type s = section_code SectorTable) (section_infos 13 (segment_layout ends w)) =
    drop 1 (section_infos (13 + sections_length (ws_before w))
      (chunk_group (13 + sections_length (ws_before w)) (ws_chunks w)))"
proof -
  have none: "filter (\<lambda>s. si_type s = section_code SectorTable) (section_infos off ss) = []"
    if "list_all (\<lambda>s. map_v1_type_string (fst s) \<noteq> section_code SectorTable) ss" for off ss
    using that by (induction off ss rule: section_infos.induct) auto
  have before: "list_all (\<lambda>s. map_v1_type_string (fst s) \<noteq> section_code SectorTable) (ws_before w)"
    using assms(1) by (auto simp: before_names_def list_all_iff)
  have after: "list_all (\<lambda>s. map_v1_type_string (fst s) \<noteq> section_code SectorTable) (ws_after w)"
    using assms(2) by (auto simp: plain_section_def list_all_iff)
  have last: "list_all (\<lambda>s. map_v1_type_string (fst s) \<noteq> section_code SectorTable) [(if ends then ''done'' else ''next'', [])]"
    by (simp add: map_v1_type_string_def)
  show ?thesis
    unfolding segment_layout_def section_infos_append filter_append none [OF before] none [OF after] none [OF last]
    by (simp add: chunk_group_def Let_def map_v1_type_string_def)
qed

lemma written_chunk_table:
  fixes n :: u16
  assumes fits: "segment_fits w" and names: "before_names (ws_before w)"
  shows "build_chunk_table (bytes_source (write_segment n ends w)) hdr (section_infos 13 (segment_layout ends w)) =
    (v1_descs (bytes_source (write_segment n ends w)) hdr (int (13 + sections_length (ws_before w) + 76))
       (stored_sizes (ws_chunks w)),
     \<lparr>tables_total = 1, tables_recovered = 0, tables_invalid = 0\<rparr>)"
proof -
  let ?src = "bytes_source (write_segment n ends w)"
  define off where "off = 13 + sections_length (ws_before w)"
  define cs where "cs = stored_sizes (ws_chunks w)"
  define data where "data = concat (map snd (ws_chunks w))"
  define table where "table = encode_table_v1 (int (off + 76)) (v1_entries 0 cs)"
  define t where "t = section_infos (off + 76 + length data) [(''table'', table), (''table2'', table)]"
  have group: "chunk_group off (ws_chunks w) = [(''sectors'', data), (''table'', table), (''table2'', table)]"
    by (simp add: chunk_group_def table_def data_def cs_def Let_def)
  have tables: "filter (\<lambda>s. si_type s = section_code SectorTable) (section_infos 13 (segment_layout ends w)) = t"
    unfolding layout_tables [OF names fits [unfolded segment_fits_def, THEN conjunct2, THEN conjunct2, THEN conjunct2,
        THEN conjunct2, THEN conjunct2]] off_def [symmetric] group by (simp add: t_def)
  have bound: "off + 76 + length data + 76 + length table < 2147483600"
    using fits by (simp add: segment_fits_def segment_layout_def off_def [symmetric] group) (simp add: off_def)
  have pos: "\<forall>c \<in> set cs. 0 < snd c"
    using fits by (auto simp: segment_fits_def cs_def stored_sizes_def list_all_iff)
  have ne: "cs \<noteq> []" "length cs \<le> 16777216"
    using fits by (simp_all add: segment_fits_def cs_def stored_sizes_def)
  have total: "sum_list (map snd cs) = int (length data)"
    by (simp add: cs_def data_def sum_stored_sizes)
  have lt: "length table = 28 + 4 * length cs"
    by (simp add: table_def length_encode_table_v1)
  let ?pre = "encode_header_v1 FileEWF1 n @ encode_sections 13 (ws_before w) @
    encode_descriptor_v1 ''sectors'' (of_nat (off + 76 + length data)) (of_nat (76 + length data)) @ data @
    encode_descriptor_v1 ''table'' (of_nat (off + 76 + length data + 76 + length table)) (of_nat (76 + length table))"
  obtain post where file': "write_segment n ends w = ?pre @ table @ post"
    using that by (simp add: write_segment_def segment_layout_def encode_sections_append off_def [symmetric] group Let_def)
  have parsed: "parse_table_section_v1 ?src hdr (hd t) = (v1_descs ?src hdr (int (off + 76) + 0) cs, True)"
    unfolding file' table_def
    by (rule parse_encode_table_v1 [unfolded Let_def])
      (use ne pos total bound lt in \<open>simp_all add: t_def layout_ok_def off_def table_def\<close>)
  then have "parse_table_group_v1 ?src hdr (hd t) (Some (t ! 1)) = (v1_descs ?src hdr (int (off + 76)) cs, TableUsedPrimary)"
    using ne by (cases cs) (auto simp: parse_table_group_v1_def)
  then show ?thesis
    unfolding build_chunk_table_def tables
    by (simp add: t_def pairs_with_def add_group_v1_def count_outcome_def off_def cs_def)
qed

text \<open>
  A chunk in stored form: compressed, or its data and four bytes of checksum. The last
  chunk of a device may be short; what is decoded for it may go on behind its data.
\<close>

definition stored_chunk :: "golib \<Rightarrow> int \<Rightarrow> bytes \<Rightarrow> bool \<times> bytes \<Rightarrow> bool" where
  "stored_chunk lib cs d c \<longleftrightarrow>
     int (length d) \<le> cs \<and> int (length (snd c)) \<le> cs * 2 + 4096 \<and> length (snd c) \<le> 1073741824 \<and>
     (if fst c then decompress_zlib (lib_codecs lib) (snd c) = Inr d
      else length (snd c) = length d + 4 \<and> take (length d) (snd c) = d)"

definition decodes_to :: "golib \<Rightarrow> int \<Rightarrow> chunk_desc \<Rightarrow> bytes \<Rightarrow> bool" where
  "decodes_to lib cs desc d \<longleftrightarrow>
     (\<exists>data. (\<forall>fb. decode_desc lib fb cs desc = Returns (Inr data)) \<and> prefix d data)"

lemma decode_stored_written:
  assumes "stored_chunk lib cs d c" "\<not> cd_pattern desc" "cd_compressed desc = fst c" "cd_major_version desc = 1"
    "\<not> cd_has_checksum desc"
  shows "\<exists>data. decode_stored lib desc cs (snd c) = Returns (Inr data) \<and> prefix d data"
proof (cases "fst c")
  case True
  then show ?thesis
    using assms by (simp add: decode_stored_def stored_chunk_def decompress_def go_defs Let_def)
next
  case False
  then have raw: "length (snd c) = length d + 4" "take (length d) (snd c) = d"
    using assms(1) by (simp_all add: stored_chunk_def)
  then have "prefix d (snd c)"
    by (metis take_is_prefix)
  moreover have "slice_go (snd c) 0 (int (length (snd c)) - 4) = Returns d"
    using raw by (simp add: slice_go_def subslice_def)
  ultimately show ?thesis
    using assms False by (auto simp: decode_stored_def strip_trailer_def go_defs)
qed

lemma written_chunks_decode:
  assumes "list_all2 (stored_chunk lib cs) ds chunks" "list_all (\<lambda>c. snd c \<noteq> []) chunks"
    and "0 < cs" "cs \<le> 1000000000" "hi_major_version hdr = 1"
  shows "list_all2 (decodes_to lib cs)
    (v1_descs (bytes_source (pre @ concat (map snd chunks) @ post)) hdr (int (length pre)) (stored_sizes chunks)) ds"
  using assms(1,2)
proof (induction chunks arbitrary: ds pre rule: list.induct)
  case (Cons c chunks)
  then obtain d ds' where ds: "ds = d # ds'" and c: "stored_chunk lib cs d c" "snd c \<noteq> []"
    by (auto simp: list_all2_Cons2)
  let ?src = "bytes_source (pre @ concat (map snd (c # chunks)) @ post)"
  let ?desc = "\<lparr>cd_source = Some ?src, cd_offset = int (length pre), cd_size = word_of_int (int (length (snd c))),
      cd_compressed = fst c, cd_major_version = hi_major_version hdr,
      cd_compression_method = hi_compression_method hdr, cd_pattern = False, cd_has_checksum = False\<rparr>"
  have size: "uint (word_of_int (int (length (snd c))) :: u32) = int (length (snd c))"
    using c(1) by (intro uint_u32_id) (simp_all add: stored_chunk_def)
  then have nz: "word_of_int (int (length (snd c))) \<noteq> (0 :: u32)"
    using c(2) by (metis length_0_conv of_nat_eq_0_iff uint_0_eq)
  have "read_slice (bytes_source (pre @ snd c @ (concat (map snd chunks) @ post))) (int (length pre)) (int (length (snd c)))
      = Inr (snd c)"
    using c by (intro read_slice_mid) (auto simp: stored_chunk_def max_read_size_def)
  then have read: "read_slice ?src (int (length pre)) (int (length (snd c))) = Inr (snd c)"
    by simp
  have desc: "decode_desc lib fb cs ?desc = decode_stored lib ?desc cs (snd c)" for fb
  proof -
    have "i64 (cs * 2 + 4096) = cs * 2 + 4096"
      using assms(3,4) by (simp add: i64_nonneg_id)
    then show ?thesis
      using c(1) nz size read by (simp add: decode_desc_def stored_chunk_def)
  qed
  have head: "decodes_to lib cs ?desc d"
    unfolding decodes_to_def desc
    using decode_stored_written [OF c(1), of ?desc] assms(5) by simp
  have "list_all2 (decodes_to lib cs)
      (v1_descs (bytes_source ((pre @ snd c) @ concat (map snd chunks) @ post)) hdr (int (length (pre @ snd c)))
        (stored_sizes chunks)) ds'"
    using Cons.prems ds by (intro Cons.IH) auto
  with head show ?case
    by (simp add: ds stored_sizes_def)
qed (simp add: stored_sizes_def)

lemma written_segment_decodes:
  fixes n :: u16
  assumes "segment_fits w" "list_all2 (stored_chunk lib cs) ds (ws_chunks w)" "0 < cs" "cs \<le> 1000000000"
    "hi_major_version hdr = 1"
  shows "list_all2 (decodes_to lib cs)
    (v1_descs (bytes_source (write_segment n ends w)) hdr (int (13 + sections_length (ws_before w) + 76))
       (stored_sizes (ws_chunks w))) ds"
proof -
  define off where "off = 13 + sections_length (ws_before w)"
  let ?data = "concat (map snd (ws_chunks w))"
  let ?pre = "encode_header_v1 FileEWF1 n @ encode_sections 13 (ws_before w) @
    encode_descriptor_v1 ''sectors'' (of_nat (off + 76 + length ?data)) (of_nat (76 + length ?data))"
  obtain post where seg: "write_segment n ends w = ?pre @ ?data @ post"
    using that
    by (simp add: write_segment_def segment_layout_def encode_sections_append off_def [symmetric] chunk_group_def Let_def)
  have pre: "int (13 + sections_length (ws_before w) + 76) = int (length ?pre)"
    by simp
  show ?thesis
    unfolding seg pre
    by (rule written_chunks_decode [OF assms(2) _ assms(3-5)]) (use assms(1) in \<open>simp add: segment_fits_def\<close>)
qed

section \<open>The metadata of a written segment\<close>

text \<open>The body of a \<open>volume\<close> section, with the geometry in its fields.\<close>

definition volume_body :: "u8 \<Rightarrow> u32 \<Rightarrow> u32 \<Rightarrow> u32 \<Rightarrow> u64 \<Rightarrow> bytes" where
  "volume_body media chunks spc bps sectors =
     [media, 0, 0, 0] @ put32 chunks @ put32 spc @ put32 bps @ put64 sectors @ replicate 1028 0"

lemma length_volume_body [simp, len_simps]: "length (volume_body media chunks spc bps sectors) = 1052"
  by (simp add: volume_body_def)

definition has_geometry :: "u32 \<Rightarrow> u32 \<Rightarrow> u64 \<Rightarrow> info \<Rightarrow> bool" where
  "has_geometry spc bps sectors nfo \<longleftrightarrow>
     (\<exists>m. inf_media nfo = Some m \<and> mi_sectors_per_chunk m = spc \<and> mi_bytes_per_sector m = bps \<and>
          mi_number_of_sectors m = sectors)"

lemma parse_volume_body:
  "has_geometry spc bps sectors (parse_volume_section_e01 (volume_body media chunks spc bps sectors) nfo)"
  by (simp add: has_geometry_def parse_volume_section_e01_def volume_body_def subslice_split)

lemma media_kept:
  assumes "si_type s \<noteq> section_code DeviceInformation"
  shows "inf_media (ps_info (apply_section_payload lib src 1 s st)) = inf_media (ps_info st)"
proof -
  have xhash: "inf_media (parse_xhash_section lib data nfo) = inf_media nfo" for data nfo
    by (auto simp: parse_xhash_section_def Let_def split: option.split prod.split)
  have lists: "inf_media (parse_session_section 1 data nfo) = inf_media nfo"
    "inf_media (parse_error_section 1 data nfo) = inf_media nfo"
    "inf_media (parse_md5_like_section 1 data nfo) = inf_media nfo"
    "inf_media (parse_sha1_section 1 data nfo) = inf_media nfo" for data nfo
    by (simp_all add: parse_session_section_def parse_error_section_def parse_md5_like_section_def
        parse_sha1_section_def split: option.split)
  have named: "inf_media (ps_info (apply_named_section lib name data st)) = inf_media (ps_info st)" for name data st
    by (simp add: apply_named_section_def xhash Let_def)
  have body: "inf_media (ps_info (apply_section_body lib 1 s data st)) = inf_media (ps_info st)" for data
    unfolding apply_section_body_def Let_def using assms by (simp add: lists named)
  show ?thesis
    by (simp add: apply_section_payload_def body Let_def split: sum.split)
qed

lemma media_kept_fold:
  "list_all (\<lambda>s. si_type s \<noteq> section_code DeviceInformation) ss \<Longrightarrow>
     inf_media (ps_info (fold (apply_section_payload lib src 1) ss st)) = inf_media (ps_info st)"
  by (induction ss arbitrary: st) (simp_all add: media_kept)

lemma resolve_media: "inf_media (resolve_acquisition lib h nfo) = inf_media nfo"
  by (simp add: resolve_acquisition_def split: list.split)

lemma layout_no_volume:
  assumes "segment_fits w" "list_all (\<lambda>s. plain_section (fst s)) before"
  shows "list_all (\<lambda>s. si_type s \<noteq> section_code DeviceInformation)
    (section_infos off (before @ chunk_group off' cs @ ws_after w @ [(if ends then ''done'' else ''next'', [])]))"
proof -
  have codes: "list_all (\<lambda>s. si_type s \<noteq> section_code DeviceInformation) (section_infos off ss) \<longleftrightarrow>
      list_all (\<lambda>s. map_v1_type_string (fst s) \<noteq> section_code DeviceInformation) ss" for off ss
    by (induction off ss rule: section_infos.induct) auto
  have plain: "list_all (\<lambda>s. map_v1_type_string (fst s) \<noteq> section_code DeviceInformation) ss"
    if "list_all (\<lambda>s. plain_section (fst s)) ss" for ss :: "(string \<times> bytes) list"
    using that by (auto simp: plain_section_def list_all_iff)
  show ?thesis
    unfolding codes
    using plain [OF assms(2)] plain [of "ws_after w"] assms(1)
    by (simp add: segment_fits_def chunk_group_def Let_def map_v1_type_string_def)
qed

lemma written_media_none:
  assumes "segment_fits w" "list_all (\<lambda>s. plain_section (fst s)) (ws_before w)"
  shows "inf_media (populate_metadata lib src (written_header n) (section_infos 13 (segment_layout ends w))
    (build_metadata hdr ss)) = None"
  using media_kept_fold [OF layout_no_volume [OF assms, of 13 "13 + sections_length (ws_before w)" "ws_chunks w" ends]]
    build_metadata_fields [of hdr ss]
  by (simp add: populate_metadata_def resolve_media written_header_def segment_layout_def [symmetric] Let_def)

lemma written_geometry:
  assumes "segment_fits w" "ws_before w = (''volume'', volume_body media chunks spc bps sectors) # rest"
    and "list_all (\<lambda>s. plain_section (fst s)) rest"
  shows "has_geometry spc bps sectors
    (populate_metadata lib (bytes_source (write_segment n ends w)) (written_header m)
       (section_infos 13 (segment_layout ends w)) nfo)"
proof -
  let ?src = "bytes_source (write_segment n ends w)"
  let ?body = "volume_body media chunks spc bps sectors"
  define more where "more = rest @ chunk_group (13 + sections_length (ws_before w)) (ws_chunks w) @ ws_after w @
    [(if ends then ''done'' else ''next'', [])]"
  have layout: "segment_layout ends w = (''volume'', ?body) # more"
    by (simp add: segment_layout_def more_def assms(2))
  let ?v = "hd (section_infos 13 (segment_layout ends w))"
  have infos: "section_infos 13 (segment_layout ends w) = ?v # section_infos (13 + 76 + 1052) more"
    by (simp add: layout)
  have v: "si_type ?v = section_code DeviceInformation" "section_payload_size ?v = 1052" "si_data_offset ?v = 89"
    by (simp_all add: layout map_v1_type_string_def section_payload_size_def)
  have "read_slice (bytes_source (encode_header_v1 FileEWF1 n @
      encode_sections (length (encode_header_v1 FileEWF1 n)) (segment_layout ends w) @ []))
      (si_data_offset (section_infos (length (encode_header_v1 FileEWF1 n)) (segment_layout ends w) ! 0))
      (int (length (snd (segment_layout ends w ! 0)))) = Inr (snd (segment_layout ends w ! 0))"
    by (rule written_bodies) (simp_all add: layout volume_body_def)
  then have read: "read_slice ?src 89 1052 = Inr ?body"
    by (simp add: layout write_segment_def)
  have step: "ps_info (apply_section_payload lib ?src 1 ?v st) = parse_volume_section_e01 ?body (ps_info st)" for st
    by (simp add: apply_section_payload_def v read apply_section_body_def parse_device_section_def go_defs Let_def)
  have "list_all (\<lambda>s. si_type s \<noteq> section_code DeviceInformation) (section_infos (13 + 76 + 1052) more)"
    unfolding more_def by (rule layout_no_volume [OF assms(1,3)])
  from media_kept_fold [OF this]
  have "inf_media (ps_info (fold (apply_section_payload lib ?src 1) (section_infos 13 (segment_layout ends w)) st))
      = inf_media (parse_volume_section_e01 ?body (ps_info st))" for st
    by (subst infos) (simp add: step)
  then show ?thesis
    using parse_volume_body [of spc bps sectors media chunks nfo]
    by (simp add: has_geometry_def populate_metadata_def resolve_media written_header_def Let_def)
qed

section \<open>A written set\<close>

text \<open>The data of a device in chunks of \<open>n\<close> bytes; the last may be shorter.\<close>

fun pieces :: "nat \<Rightarrow> 'a list \<Rightarrow> 'a list list" where
  "pieces n xs = (if n = 0 \<or> xs = [] then [] else take n xs # pieces n (drop n xs))"

declare pieces.simps [simp del]

lemma pieces_nth:
  assumes "0 < n" "i < length xs"
  shows "i div n < length (pieces n xs)" "i mod n < length (pieces n xs ! (i div n))"
    "pieces n xs ! (i div n) ! (i mod n) = xs ! i"
proof -
  have "i div n < length (pieces n xs) \<and> i mod n < length (pieces n xs ! (i div n)) \<and>
      pieces n xs ! (i div n) ! (i mod n) = xs ! i"
    using assms
  proof (induction n xs arbitrary: i rule: pieces.induct)
    case (1 n xs)
    then have unfold: "pieces n xs = take n xs # pieces n (drop n xs)"
      by (subst pieces.simps) auto
    show ?case
    proof (cases "i < n")
      case True
      then show ?thesis
        using "1.prems" by (simp add: unfold)
    next
      case False
      then have i: "i div n = Suc ((i - n) div n)" "i mod n = (i - n) mod n" "i - n < length (drop n xs)"
        using "1.prems" by (simp_all add: le_div_geq le_mod_geq)
      have "n \<noteq> 0 \<and> xs \<noteq> []"
        using "1.prems" by auto
      moreover have "drop n xs ! (i - n) = xs ! i"
        using False "1.prems" by (subst nth_drop) simp_all
      ultimately show ?thesis
        using "1.IH" [OF _ "1.prems"(1) i(3)] by (simp add: unfold i)
    qed
  qed
  then show "i div n < length (pieces n xs)" "i mod n < length (pieces n xs ! (i div n))"
    "pieces n xs ! (i div n) ! (i mod n) = xs ! i"
    by blast+
qed

definition add_volume :: "bytes \<Rightarrow> written_segment list \<Rightarrow> written_segment list" where
  "add_volume body ws = (hd ws)\<lparr>ws_before := (''volume'', body) # ws_before (hd ws)\<rparr> # tl ws"

text \<open>The files of a set: numbered from 1, the geometry in the first, \<open>done\<close> in the last.\<close>

definition write_image :: "bytes \<Rightarrow> written_segment list \<Rightarrow> bytes list" where
  "write_image body ws =
     map (\<lambda>i. write_segment (of_nat (i + 1)) (i + 1 = length ws) (add_volume body ws ! i)) [0..<length ws]"

definition image_written ::
  "golib \<Rightarrow> u32 \<Rightarrow> u32 \<Rightarrow> u64 \<Rightarrow> bytes \<Rightarrow> written_segment list \<Rightarrow> bool" where
  "image_written lib spc bps sectors dev ws \<longleftrightarrow>
     (let cs = uint spc * uint bps in
      0 < cs \<and> cs \<le> 1000000000 \<and> int (length dev) = uint sectors * uint bps \<and>
      int (length dev) \<le> 9223372036854775807 \<and>
      ws \<noteq> [] \<and> length ws < 65536 \<and>
      list_all (\<lambda>w. list_all (\<lambda>s. plain_section (fst s)) (ws_before w)) ws \<and>
      list_all segment_fits (add_volume (volume_body 0 0 0 0 0) ws) \<and>
      list_all2 (stored_chunk lib cs) (pieces (nat cs) dev) (concat (map ws_chunks ws)))"

lemma plain_before: "list_all (\<lambda>s. plain_section (fst s)) ss \<Longrightarrow> before_names ss"
  by (auto simp: before_names_def plain_section_def list_all_iff)

lemma volume_name: "section_name ''volume'' \<and> \<not> terminal_name ''volume'' \<and>
    map_v1_type_string ''volume'' \<noteq> section_code SectorTable"
  by (simp add: group_names terminal_name_def map_v1_type_string_def)

lemma segment_fits_volume:
  assumes "segment_fits (w\<lparr>ws_before := (''volume'', a) # ss\<rparr>)" "length a = length b"
  shows "segment_fits (w\<lparr>ws_before := (''volume'', b) # ss\<rparr>)"
  using assms by (simp add: segment_fits_def segment_layout_def chunk_group_def length_encode_table_v1 Let_def)

text \<open>The segments that are parsed, and what the opening needs of them.\<close>

definition parsed_written :: "golib \<Rightarrow> bytes \<Rightarrow> written_segment list \<Rightarrow> nat \<Rightarrow> parsed_segment" where
  "parsed_written lib body ws i =
     (let n = of_nat (i + 1); ends = (i + 1 = length ws); w = add_volume body ws ! i in
      segment_of lib (bytes_source (write_segment n ends w)) FileEWF1 (written_header n)
        (section_infos 13 (segment_layout ends w)))"

lemma add_volume_nth:
  "ws \<noteq> [] \<Longrightarrow> i < length ws \<Longrightarrow> add_volume body ws ! i =
     (if i = 0 then (ws ! 0)\<lparr>ws_before := (''volume'', body) # ws_before (ws ! 0)\<rparr> else ws ! i)"
  by (cases ws; cases i) (simp_all add: add_volume_def)

lemma length_add_volume: "ws \<noteq> [] \<Longrightarrow> length (add_volume body ws) = length ws"
  by (cases ws) (simp_all add: add_volume_def)

lemma image_written_segment:
  assumes "image_written lib spc bps sectors dev ws" "i < length ws"
  shows "segment_fits (add_volume (volume_body media chunks spc bps sectors) ws ! i)"
    "before_names (ws_before (add_volume (volume_body media chunks spc bps sectors) ws ! i))"
proof -
  have ws: "ws \<noteq> []" "segment_fits (add_volume (volume_body 0 0 0 0 0) ws ! i)"
    "list_all (\<lambda>s. plain_section (fst s)) (ws_before (ws ! i))"
    "list_all (\<lambda>s. plain_section (fst s)) (ws_before (ws ! 0))"
    using assms length_add_volume [of ws "volume_body 0 0 0 0 0"]
    by (auto simp: image_written_def list_all_iff Let_def)
  show "segment_fits (add_volume (volume_body media chunks spc bps sectors) ws ! i)"
    using ws assms(2) segment_fits_volume [where w = "ws ! 0" and a = "volume_body 0 0 0 0 0" and ss = "ws_before (ws ! 0)"
        and b = "volume_body media chunks spc bps sectors"]
    by (simp add: add_volume_nth split: if_splits)
  have "before_names ((''volume'', body) # ws_before (ws ! 0))" for body
    using plain_before [OF ws(4)] volume_name by (simp add: before_names_def)
  then show "before_names (ws_before (add_volume (volume_body media chunks spc bps sectors) ws ! i))"
    using ws(1) plain_before [OF ws(3)] assms(2) by (simp add: add_volume_nth)
qed

lemma done_name: "map_v1_type_string name = section_code DoneSection \<longleftrightarrow> name = ''done''"
  by (auto simp: map_v1_type_string_def)

lemma has_done_names: "has_type DoneSection (section_infos off ss) \<longleftrightarrow> (\<exists>s \<in> set ss. fst s = ''done'')"
  unfolding has_type_def
  by (induction off ss rule: section_infos.induct) (simp_all add: done_name del: section_code.simps)

lemma layout_done:
  assumes "segment_fits w" "before_names (ws_before w)"
  shows "has_type DoneSection (section_infos off (segment_layout ends w)) \<longleftrightarrow> ends"
proof -
  let ?l = "(if ends then ''done'' else ''next'', [] :: bytes)"
  obtain ss where ss: "segment_layout ends w = ss @ [?l]"
    by (simp add: segment_layout_def)
  then have "list_all (\<lambda>s. \<not> terminal_name (fst s)) ss"
    using layout_chain(1) [OF assms, of ends] by (simp add: chain_sections_def)
  then show ?thesis
    unfolding has_done_names by (auto simp: ss list_all_iff terminal_name_def)
qed

lemma written_not_encrypted: "\<not> list_ex encrypted_section (section_infos off ss)"
  by (induction off ss rule: section_infos.induct)
    (simp_all add: encrypted_section_def map_v1_not_encryption del: section_code.simps)

lemma parsed_written_facts:
  assumes "image_written lib spc bps sectors dev ws" "i < length ws"
    and body: "body = volume_body media chunks spc bps sectors"
  shows "parse_segment lib (bytes_source (write_image body ws ! i)) = Inr (parsed_written lib body ws i)"
    "seg_number (parsed_written lib body ws i) = of_nat (i + 1)"
    "seg_file_type (parsed_written lib body ws i) = FileEWF1"
    "hi_major_version (seg_header (parsed_written lib body ws i)) = 1"
    "seg_stats (parsed_written lib body ws i) = \<lparr>tables_total = 1, tables_recovered = 0, tables_invalid = 0\<rparr>"
    "inf_has_done (seg_metadata (parsed_written lib body ws i)) \<longleftrightarrow> i + 1 = length ws"
    "\<not> inf_is_encrypted (seg_metadata (parsed_written lib body ws i))"
proof -
  let ?w = "add_volume body ws ! i" and ?ends = "i + 1 = length ws" and ?n = "of_nat (i + 1) :: u16"
  note w = image_written_segment [OF assms(1,2), where media = media and chunks = chunks, folded body]
  let ?infos = "section_infos 13 (segment_layout ?ends ?w)"
  have file': "write_image body ws ! i = write_segment ?n ?ends ?w"
    using assms(2) by (simp add: write_image_def)
  show "parse_segment lib (bytes_source (write_image body ws ! i)) = Inr (parsed_written lib body ws i)"
    unfolding file' parse_written_segment [OF w] by (simp add: parsed_written_def Let_def)
  have "i + 1 < 65536"
    using assms(1,2) by (simp add: image_written_def Let_def)
  then have "uint (word_of_int (int (i + 1)) :: u16) = int (i + 1)"
    by (simp only: uint_word_of_int) (simp add: take_bit_int_eq_self)
  then have "ucast ?n = (of_nat (i + 1) :: u32)"
    by (metis of_int_of_nat_eq ucast_eq)
  then show "seg_number (parsed_written lib body ws i) = of_nat (i + 1)"
    by (simp add: parsed_written_def written_header_def Let_def)
  show "seg_file_type (parsed_written lib body ws i) = FileEWF1"
    "hi_major_version (seg_header (parsed_written lib body ws i)) = 1"
    by (simp_all add: parsed_written_def written_header_def Let_def)
  show "seg_stats (parsed_written lib body ws i) = \<lparr>tables_total = 1, tables_recovered = 0, tables_invalid = 0\<rparr>"
    by (simp add: parsed_written_def written_chunk_table [OF w] Let_def)
  show "inf_has_done (seg_metadata (parsed_written lib body ws i)) \<longleftrightarrow> ?ends"
    "\<not> inf_is_encrypted (seg_metadata (parsed_written lib body ws i))"
    using segment_metadata_sound [of lib "bytes_source (write_segment ?n ?ends ?w)" "written_header ?n" ?infos]
      layout_done [OF w, of 13 ?ends] written_not_encrypted [of 13 "segment_layout ?ends ?w"]
    by (simp_all add: parsed_written_def Let_def)
qed

lemma written_geometry_first:
  assumes "image_written lib spc bps sectors dev ws"
    and body: "body = volume_body media chunks spc bps sectors"
  shows "has_geometry spc bps sectors (seg_metadata (parsed_written lib body ws 0))"
proof -
  have ws: "ws \<noteq> []" "list_all (\<lambda>s. plain_section (fst s)) (ws_before (ws ! 0))"
    using assms(1) by (auto simp: image_written_def list_all_iff Let_def)
  then have "0 < length ws" by simp
  from image_written_segment(1) [OF assms(1) this, where media = media and chunks = chunks, folded body]
  show ?thesis
    using written_geometry [of "add_volume body ws ! 0" media chunks spc bps sectors "ws_before (ws ! 0)"] ws
    by (simp add: parsed_written_def add_volume_nth body Let_def)
qed

lemma parse_written_set:
  assumes "image_written lib spc bps sectors dev ws"
    and body: "body = volume_body media chunks spc bps sectors"
  shows "parse_segments lib 0 (map bytes_source (write_image body ws)) = Inr (map (parsed_written lib body ws) [0..<length ws])"
    and "sort_segments (map (parsed_written lib body ws) [0..<length ws]) = map (parsed_written lib body ws) [0..<length ws]"
    and "validate_segment_set (map (parsed_written lib body ws) [0..<length ws]) opts = None"
proof -
  let ?segs = "map (parsed_written lib body ws) [0..<length ws]"
  note facts = parsed_written_facts [OF assms(1) _ body]
  have ws: "ws \<noteq> []" "length ws < 65536"
    using assms(1) by (simp_all add: image_written_def Let_def)
  have "length (write_image body ws) = length ws"
    by (simp add: write_image_def)
  then show "parse_segments lib 0 (map bytes_source (write_image body ws)) = Inr ?segs"
    unfolding parse_segments_map by (intro nth_equalityI) (simp_all add: facts(1))
  have numbers: "map seg_number ?segs = map (\<lambda>j. of_nat (j + 1)) [0..<length ws]"
    by (simp add: facts(2))
  have nums: "uint (of_nat (j + 1) :: u32) = int (j + 1)" if "j < length ws" for j
    using that ws(2) uint_u32_id [of "int (j + 1)"] by simp
  have "sorted (map (\<lambda>s. uint (seg_number s)) ?segs)"
    using nums by (simp add: sorted_iff_nth_mono facts(2))
  then show "sort_segments ?segs = ?segs"
    unfolding sort_segments_def by (rule sort_key_id_if_sorted)
  have "inj_on (\<lambda>j. of_nat (j + 1) :: u32) (set [0..<length ws])"
    using nums by (intro inj_onI) (metis Suc_eq_plus1 atLeastLessThan_iff nat.inject of_nat_eq_iff set_upt)
  then have "distinct (map seg_number ?segs)"
    unfolding numbers by (simp add: distinct_map)
  moreover have "inf_has_done (seg_metadata (last ?segs))"
    using ws(1) by (simp add: last_map facts(6))
  ultimately show "validate_segment_set ?segs opts = None"
    unfolding validate_segment_set_None using numbers ws(1)
    by (simp add: list_all_iff same_kind_def facts hd_map)
qed

lemma merged_digests:
  "segs \<noteq> [] \<Longrightarrow> stored_md5 (merge_segment_metadata segs chunks) = first_some (map (\<lambda>s. stored_md5 (seg_metadata s)) segs)"
  "segs \<noteq> [] \<Longrightarrow> stored_sha1 (merge_segment_metadata segs chunks) = first_some (map (\<lambda>s. stored_sha1 (seg_metadata s)) segs)"
  using merged_fields [of segs chunks] by (simp_all add: comp_def Let_def)

lemma open_written_set:
  assumes img: "image_written lib spc bps sectors dev ws"
    and body: "body = volume_body media chunks spc bps sectors"
  obtains r where "open_segments_with_options lib (map bytes_source (write_image body ws)) opts = Inr r"
    "ir_chunk_size r = uint spc * uint bps" "ir_logical_size r = int (length dev)"
    "ir_chunk_table r = concat (map seg_chunk_table (map (parsed_written lib body ws) [0..<length ws]))"
    "inf_media (ir_metadata r) = inf_media (seg_metadata (parsed_written lib body ws 0))"
    "stored_md5 (ir_metadata r) = first_some (map (\<lambda>i. stored_md5 (seg_metadata (parsed_written lib body ws i))) [0..<length ws])"
    "stored_sha1 (ir_metadata r) = first_some (map (\<lambda>i. stored_sha1 (seg_metadata (parsed_written lib body ws i))) [0..<length ws])"
proof -
  let ?segs = "map (parsed_written lib body ws) [0..<length ws]"
  let ?m = "merge_segment_metadata ?segs (concat (map seg_chunk_table ?segs))"
  note facts = parsed_written_facts [OF img _ body]
  have ws: "ws \<noteq> []" "0 < uint spc * uint bps" "uint spc * uint bps \<le> 1000000000"
    "int (length dev) = uint sectors * uint bps" "int (length dev) \<le> 9223372036854775807"
    using img by (simp_all add: image_written_def Let_def)
  have ne: "?segs \<noteq> []" and hd: "hd ?segs = parsed_written lib body ws 0"
    using ws(1) by (simp_all add: hd_map)
  obtain ss where segs: "?segs = parsed_written lib body ws 0 # ss"
    using ne hd by (metis list.exhaust_sel)
  obtain mi where mi: "inf_media (seg_metadata (parsed_written lib body ws 0)) = Some mi"
    "mi_sectors_per_chunk mi = spc" "mi_bytes_per_sector mi = bps" "mi_number_of_sectors mi = sectors"
    using written_geometry_first [OF img body] by (auto simp: has_geometry_def)
  have media: "inf_media ?m = Some mi"
    unfolding segs by (simp add: merge_segment_metadata_def merge_fold first_some_Cons mi(1) Let_def)
  have digests: "stored_md5 ?m = first_some (map (\<lambda>s. stored_md5 (seg_metadata s)) ?segs)"
    "stored_sha1 ?m = first_some (map (\<lambda>s. stored_sha1 (seg_metadata s)) ?segs)"
    using merged_digests [OF ne] by simp_all
  have geometry: "compute_geometry (Some mi) = Inr (uint spc * uint bps, int (length dev))"
    using ws(2-5) mi by (auto simp: compute_geometry_cases Let_def)
  have "inf_tables_invalid ?m = 0"
    unfolding merged_invalid [OF ne] by (simp add: sum_list_eq_0_iff facts(5))
  then obtain meta where meta: "apply_policy opts ?m = Inr meta" "inf_media meta = inf_media ?m"
      "stored_md5 meta = stored_md5 ?m" "stored_sha1 meta = stored_sha1 ?m"
    by (cases "opt_checksum_policy opts") (simp_all add: apply_policy_def stored_md5_def stored_sha1_def)
  have "\<not> inf_is_encrypted ?m"
    unfolding merged_encrypted [OF ne] using facts(7) by simp
  then obtain r where r: "reader_of ?segs opts = Inr r"
    using meta(1,2) media geometry by (simp add: reader_of_def Let_def)
  have opened_set: "open_segments_with_options lib (map bytes_source (write_image body ws)) opts = Inr r"
    unfolding open_Inr using parse_written_set [OF img body] r ws(1) by (auto simp: write_image_def)
  have "ir_metadata r = meta"
    using reader_of_Inr(3) [OF r] meta(1) by simp
  moreover from this have "compute_geometry (Some mi) = Inr (ir_chunk_size r, ir_logical_size r)"
    using reader_of_Inr(4) [OF r] media meta(2) by simp
  ultimately show ?thesis
    using that [OF opened_set] reader_of_Inr(1) [OF r] geometry meta media mi(1) digests
    by (simp add: comp_def)
qed

lemma list_all2_concat_split:
  assumes "list_all2 P ds (concat (map f xs))"
    and "\<And>x es. x \<in> set xs \<Longrightarrow> list_all2 P es (f x) \<Longrightarrow> list_all2 Q (g x) es"
  shows "list_all2 Q (concat (map g xs)) ds"
  using assms
proof (induction xs arbitrary: ds)
  case (Cons x xs)
  then obtain es ds' where ds: "ds = es @ ds'" "list_all2 P es (f x)" "list_all2 P ds' (concat (map f xs))"
    by (auto simp: list_all2_append2)
  then show ?case
    using Cons.IH [OF ds(3)] Cons.prems(2) by (auto intro!: list_all2_appendI)
qed simp

lemma written_table_decodes:
  assumes img: "image_written lib spc bps sectors dev ws"
    and body: "body = volume_body media chunks spc bps sectors"
  shows "list_all2 (decodes_to lib (uint spc * uint bps))
    (concat (map seg_chunk_table (map (parsed_written lib body ws) [0..<length ws])))
    (pieces (nat (uint spc * uint bps)) dev)"
proof -
  let ?cs = "uint spc * uint bps"
  have ws: "ws \<noteq> []" "0 < ?cs" "?cs \<le> 1000000000"
    "list_all2 (stored_chunk lib ?cs) (pieces (nat ?cs) dev) (concat (map ws_chunks ws))"
    using img by (simp_all add: image_written_def Let_def)
  have "map ws_chunks ws = map (\<lambda>i. ws_chunks (add_volume body ws ! i)) [0..<length ws]"
    using ws(1) by (intro nth_equalityI) (auto simp: add_volume_nth)
  then have "list_all2 (stored_chunk lib ?cs) (pieces (nat ?cs) dev)
      (concat (map (\<lambda>i. ws_chunks (add_volume body ws ! i)) [0..<length ws]))"
    using ws(4) by simp
  then have "list_all2 (decodes_to lib ?cs)
      (concat (map (\<lambda>i. seg_chunk_table (parsed_written lib body ws i)) [0..<length ws])) (pieces (nat ?cs) dev)"
  proof (rule list_all2_concat_split)
    fix i es
    assume i: "i \<in> set [0..<length ws]"
      and es: "list_all2 (stored_chunk lib ?cs) es (ws_chunks (add_volume body ws ! i))"
    then have "i < length ws" by simp
    note w = image_written_segment [OF img this, where media = media and chunks = chunks, folded body]
    show "list_all2 (decodes_to lib ?cs) (seg_chunk_table (parsed_written lib body ws i)) es"
      using written_segment_decodes [OF w(1) es ws(2,3), of "written_header (of_nat (i + 1))" "of_nat (i + 1)" "i + 1 = length ws"]
      by (simp add: parsed_written_def written_chunk_table [OF w] written_header_def Let_def)
  qed
  then show ?thesis
    by (simp add: comp_def)
qed

lemma written_device:
  assumes img: "image_written lib spc bps sectors dev ws"
    and body: "body = volume_body media chunks spc bps sectors"
    and r: "ir_chunk_size r = uint spc * uint bps" "ir_logical_size r = int (length dev)"
      "ir_chunk_table r = concat (map seg_chunk_table (map (parsed_written lib body ws) [0..<length ws]))"
  shows "i < length dev \<Longrightarrow> reader_byte lib r (int i) = Some (dev ! i)"
proof -
  define n where "n = nat (uint spc * uint bps)"
  have cs: "ir_chunk_size r = int n" "0 < n"
    using img r(1) by (simp_all add: n_def image_written_def Let_def)
  have table: "list_all2 (decodes_to lib (int n)) (ir_chunk_table r) (pieces n dev)"
    using written_table_decodes [OF img body] r cs by (simp add: n_def)
  assume i: "i < length dev"
  let ?k = "i div n"
  note p = pieces_nth [OF cs(2) i]
  have k: "?k < length (ir_chunk_table r)"
    using p(1) list_all2_lengthD [OF table] by simp
  have "decodes_to lib (int n) (ir_chunk_table r ! ?k) (pieces n dev ! ?k)"
    using list_all2_nthD [OF table k] .
  then obtain data where data: "\<And>fb. decode_desc lib fb (int n) (ir_chunk_table r ! ?k) = Returns (Inr data)"
      "prefix (pieces n dev ! ?k) data"
    by (auto simp: decodes_to_def)
  have dec: "decode_chunk lib r (int i div int n) = Returns (Inr data)"
    using k data(1) cs by (simp add: decode_chunk_def flip: zdiv_int)
  have "i mod n < length data" "data ! (i mod n) = dev ! i"
    using data(2) p(2,3) by (auto simp: prefix_def nth_append)
  then show ?thesis
    using i cs k r(2) dec
    by (simp add: reader_byte_def device_byte_def flip: zdiv_int zmod_int)
qed

section \<open>A set that stores its digest\<close>

definition undigested :: "(string \<times> bytes) list \<Rightarrow> bool" where
  "undigested ss \<longleftrightarrow> list_all (\<lambda>s. fst s \<notin> {''hash'', ''digest'', ''xhash''}) ss"

text \<open>The body of a \<open>hash\<close> section: the MD5, and twenty more bytes.\<close>

definition hash_section :: "bytes \<Rightarrow> string \<times> bytes" where
  "hash_section md5 = (''hash'', md5 @ replicate 20 0)"

text \<open>The last segment ends with the digest, and no other section holds one.\<close>

definition md5_written :: "bytes \<Rightarrow> written_segment list \<Rightarrow> bool" where
  "md5_written md5 ws \<longleftrightarrow>
     length md5 = 16 \<and> list_all (\<lambda>w. undigested (ws_before w)) ws \<and>
     list_all (\<lambda>w. undigested (ws_after w)) (butlast ws) \<and>
     ws_after (last ws) \<noteq> [] \<and> undigested (butlast (ws_after (last ws))) \<and>
     last (ws_after (last ws)) = hash_section md5"

definition same_digests :: "info \<Rightarrow> info \<Rightarrow> bool" where
  "same_digests x y \<longleftrightarrow> stored_md5 x = stored_md5 y \<and> stored_sha1 x = stored_sha1 y"

lemma digest_frames:
  "same_digests (parse_volume_section_e01 data nfo) nfo" "same_digests (parse_volume_section_s01 data nfo) nfo"
  "same_digests (parse_session_section major data nfo) nfo" "same_digests (parse_error_section major data nfo) nfo"
  "same_digests (resolve_acquisition lib h nfo) nfo" "same_digests nfo nfo"
  by (simp_all add: same_digests_def stored_md5_def stored_sha1_def parse_volume_section_e01_def
      parse_volume_section_s01_def parse_session_section_def parse_error_section_def resolve_acquisition_def
      split: option.split list.split)

lemma digests_kept:
  assumes "si_type s \<noteq> section_code MD5Hash" "si_type s \<noteq> section_code SHA1Hash" "si_type_string s \<noteq> ''xhash''"
  shows "same_digests (ps_info (apply_section_payload lib src 1 s st)) (ps_info st)"
proof -
  have device: "same_digests (parse_device_section lib 1 data nfo) nfo" for data nfo
    by (simp add: parse_device_section_def digest_frames)
  have named: "same_digests (ps_info (apply_named_section lib (si_type_string s) data st)) (ps_info st)" for data st
    using assms(3) by (simp add: apply_named_section_def digest_frames Let_def)
  have body: "same_digests (ps_info (apply_section_body lib 1 s data st)) (ps_info st)" for data
    unfolding apply_section_body_def Let_def using assms(1,2) by (simp add: digest_frames device named)
  show ?thesis
    by (simp add: apply_section_payload_def body digest_frames Let_def split: sum.split)
qed

lemma undigested_kept:
  "undigested ss \<Longrightarrow>
     same_digests (ps_info (fold (apply_section_payload lib src 1) (section_infos off ss) st)) (ps_info st)"
proof (induction off ss arbitrary: st rule: section_infos.induct)
  case (2 off name body ss)
  let ?i = "hd (section_infos off [(name, body)])"
  have "same_digests (ps_info (apply_section_payload lib src 1 ?i st)) (ps_info st)"
    using "2.prems" by (intro digests_kept) (simp_all add: undigested_def map_v1_type_string_def)
  then show ?case
    using "2.IH" [of "apply_section_payload lib src 1 ?i st"] "2.prems"
    by (simp add: undigested_def same_digests_def)
qed (simp add: digest_frames)

lemma fold_summary_digests: "same_digests (fold apply_section_summary ss nfo) nfo"
proof (induction ss arbitrary: nfo)
  case (Cons s ss)
  have "same_digests (apply_section_summary s nfo) nfo"
    by (simp add: same_digests_def stored_md5_def stored_sha1_def apply_section_summary_def Let_def)
  then show ?case
    using Cons.IH [of "apply_section_summary s nfo"] by (simp add: same_digests_def)
qed (simp add: digest_frames)

lemma initial_digests: "stored_md5 (build_metadata hdr ss) = None" "stored_sha1 (build_metadata hdr ss) = None"
  using fold_summary_digests [of ss "initial_info hdr ss"]
  by (simp_all add: build_metadata_def same_digests_def stored_md5_def stored_sha1_def initial_info_def)

lemma group_undigested: "undigested (chunk_group off cs)"
  by (simp add: undigested_def chunk_group_def Let_def)

lemma segment_undigested:
  assumes "undigested (ws_before w)" "undigested (ws_after w)"
  shows "stored_md5 (populate_metadata lib src (written_header n) (section_infos 13 (segment_layout ends w))
      (build_metadata hdr ss)) = None"
    "stored_sha1 (populate_metadata lib src (written_header n) (section_infos 13 (segment_layout ends w))
      (build_metadata hdr ss)) = None"
proof -
  have "undigested (segment_layout ends w)"
    using assms group_undigested by (auto simp: undigested_def segment_layout_def)
  from undigested_kept [OF this] digest_frames(5) initial_digests
  show "stored_md5 (populate_metadata lib src (written_header n) (section_infos 13 (segment_layout ends w))
      (build_metadata hdr ss)) = None"
    "stored_sha1 (populate_metadata lib src (written_header n) (section_infos 13 (segment_layout ends w))
      (build_metadata hdr ss)) = None"
    by (simp_all add: populate_metadata_def written_header_def same_digests_def Let_def)
qed

lemma hash_section_applied:
  assumes "length md5 = 16" "segment_layout ends w = front @ hash_section md5 # rest"
  defines "h \<equiv> hd (section_infos (13 + sections_length front) [hash_section md5])"
  shows "ps_info (apply_section_payload lib (bytes_source (write_segment n ends w)) 1 h st) =
      (ps_info st)\<lparr>inf_md5 := md5, inf_has_md5 := True\<rparr>"
proof -
  let ?src = "bytes_source (write_segment n ends w)"
  have h: "si_type h = section_code MD5Hash" "section_payload_size h = 36"
    by (simp_all add: h_def hash_section_def map_v1_type_string_def section_payload_size_def assms(1))
  have hi: "section_infos 13 (segment_layout ends w) ! length front = h"
    by (simp add: h_def assms(2) section_infos_append nth_append hash_section_def)
  have "read_slice (bytes_source (encode_header_v1 FileEWF1 n @
      encode_sections (length (encode_header_v1 FileEWF1 n)) (segment_layout ends w) @ []))
      (si_data_offset (section_infos (length (encode_header_v1 FileEWF1 n)) (segment_layout ends w) ! length front))
      (int (length (snd (segment_layout ends w ! length front)))) = Inr (snd (segment_layout ends w ! length front))"
    by (rule written_bodies) (simp_all add: assms(1,2) hash_section_def nth_append)
  then have "read_slice ?src (si_data_offset h) 36 = Inr (md5 @ replicate 20 0)"
    using hi by (simp add: write_segment_def assms(1,2) nth_append hash_section_def)
  then show ?thesis
    unfolding apply_section_payload_def h(2)
    by (simp add: h(1) apply_section_body_def parse_md5_like_section_def go_defs assms(1) subslice_split Let_def)
qed

lemma segment_digested:
  assumes "length md5 = 16" "undigested (ws_before w)" "ws_after w = ss @ [hash_section md5]" "undigested ss"
  shows "stored_md5 (populate_metadata lib (bytes_source (write_segment n ends w)) (written_header m)
      (section_infos 13 (segment_layout ends w)) (build_metadata hdr infos)) = Some md5"
    "stored_sha1 (populate_metadata lib (bytes_source (write_segment n ends w)) (written_header m)
      (section_infos 13 (segment_layout ends w)) (build_metadata hdr infos)) = None"
proof -
  let ?src = "bytes_source (write_segment n ends w)"
  let ?t = "(if ends then ''done'' else ''next'', [] :: bytes)"
  define front where "front = ws_before w @ chunk_group (13 + sections_length (ws_before w)) (ws_chunks w) @ ss"
  define off where "off = 13 + sections_length front"
  have layout: "segment_layout ends w = front @ hash_section md5 # [?t]"
    by (simp add: segment_layout_def front_def assms(3))
  have front: "undigested front"
    using assms(2,4) group_undigested by (auto simp: undigested_def front_def)
  let ?h = "hd (section_infos off [hash_section md5])"
  have hash: "stored_md5 (ps_info (apply_section_payload lib ?src 1 ?h st)) = Some md5"
    "stored_sha1 (ps_info (apply_section_payload lib ?src 1 ?h st)) = stored_sha1 (ps_info st)" for st
    unfolding off_def hash_section_applied [OF assms(1) layout] by (simp_all add: stored_md5_def stored_sha1_def)
  have "same_digests (ps_info (fold (apply_section_payload lib ?src 1) (section_infos 13 front) st)) (ps_info st)" for st
    by (rule undigested_kept [OF front])
  moreover have "same_digests (ps_info (fold (apply_section_payload lib ?src 1) (section_infos (off + 76 + 36) [?t]) st)) (ps_info st)" for st
    by (rule undigested_kept) (simp add: undigested_def)
  moreover have "section_infos 13 (segment_layout ends w) = section_infos 13 front @ ?h # section_infos (off + 76 + 36) [?t]"
    by (simp add: layout section_infos_append off_def hash_section_def assms(1))
  ultimately show "stored_md5 (populate_metadata lib ?src (written_header m) (section_infos 13 (segment_layout ends w))
      (build_metadata hdr infos)) = Some md5"
    "stored_sha1 (populate_metadata lib ?src (written_header m) (section_infos 13 (segment_layout ends w))
      (build_metadata hdr infos)) = None"
    using digest_frames(5) initial_digests
    by (simp_all add: populate_metadata_def written_header_def same_digests_def hash Let_def del: section_infos.simps)
qed

lemma written_digests:
  assumes img: "image_written lib spc bps sectors dev ws" and md5: "md5_written md5 ws"
    and body: "body = volume_body media chunks spc bps sectors"
  shows "first_some (map (\<lambda>i. stored_md5 (seg_metadata (parsed_written lib body ws i))) [0..<length ws]) = Some md5"
    "first_some (map (\<lambda>i. stored_sha1 (seg_metadata (parsed_written lib body ws i))) [0..<length ws]) = None"
proof -
  have ws: "ws \<noteq> []"
    using img by (simp add: image_written_def Let_def)
  define l where "l = length ws - 1"
  have l: "length ws = Suc l" "ws ! l = last ws"
    using ws by (simp_all add: l_def last_conv_nth)
  have before: "undigested (ws_before (add_volume body ws ! i))" if "i < length ws" for i
    using md5 that ws by (auto simp: md5_written_def undigested_def add_volume_nth list_all_iff)
  have after: "ws_after (add_volume body ws ! i) = ws_after (ws ! i)" if "i < length ws" for i
    using that ws by (simp add: add_volume_nth)
  have inner: "undigested (ws_after (add_volume body ws ! i))" if "i < l" for i
    using md5 that l after [of i] by (force simp: md5_written_def list_all_length nth_butlast)
  have none: "stored_md5 (seg_metadata (parsed_written lib body ws i)) = None"
    "stored_sha1 (seg_metadata (parsed_written lib body ws i)) = None" if "i < l" for i
    using segment_undigested [OF before inner] that l by (simp_all add: parsed_written_def Let_def)
  let ?ss = "butlast (ws_after (last ws))"
  have ss: "ws_after (add_volume body ws ! l) = ?ss @ [hash_section md5]" "undigested ?ss"
    using md5 after [of l] l append_butlast_last_id [of "ws_after (last ws)"] by (auto simp: md5_written_def)
  have "length md5 = 16"
    using md5 by (simp add: md5_written_def)
  note hash = segment_digested [OF this before ss]
  have last: "stored_md5 (seg_metadata (parsed_written lib body ws l)) = Some md5"
    "stored_sha1 (seg_metadata (parsed_written lib body ws l)) = None"
    using hash l by (simp_all add: parsed_written_def Let_def)
  have skip: "first_some (map f [0..<l] @ [x]) = x" if "\<And>i. i < l \<Longrightarrow> f i = None" for f :: "nat \<Rightarrow> bytes option" and x
  proof -
    have "first_some (xs @ [x]) = x" if "list_all (\<lambda>y. y = None) xs" for xs
      using that by (induction xs) (simp_all add: first_some_Cons split: option.split)
    then show ?thesis using that by (simp add: list_all_iff)
  qed
  show "first_some (map (\<lambda>i. stored_md5 (seg_metadata (parsed_written lib body ws i))) [0..<length ws]) = Some md5"
    "first_some (map (\<lambda>i. stored_sha1 (seg_metadata (parsed_written lib body ws i))) [0..<length ws]) = None"
    using skip none last by (simp_all add: l(1))
qed

section \<open>Properties\<close>

lemma written_set_opens:
  assumes img: "image_written lib spc bps sectors dev ws"
    and srcs: "mset sources = mset (map bytes_source (write_image (volume_body media chunks spc bps sectors) ws))"
  obtains r where "open_segments_with_options lib sources opts = Inr r" "ir_logical_size r = int (length dev)"
    "sector_size r = uint bps" "\<And>i. i < length dev \<Longrightarrow> reader_byte lib r (int i) = Some (dev ! i)"
    "stored_md5 (ir_metadata r) = first_some (map (\<lambda>i. stored_md5 (seg_metadata
       (parsed_written lib (volume_body media chunks spc bps sectors) ws i))) [0..<length ws])"
    "stored_sha1 (ir_metadata r) = first_some (map (\<lambda>i. stored_sha1 (seg_metadata
       (parsed_written lib (volume_body media chunks spc bps sectors) ws i))) [0..<length ws])"
proof -
  let ?body = "volume_body media chunks spc bps sectors"
  obtain r where r: "open_segments_with_options lib (map bytes_source (write_image ?body ws)) opts = Inr r"
    "ir_chunk_size r = uint spc * uint bps" "ir_logical_size r = int (length dev)"
    "ir_chunk_table r = concat (map seg_chunk_table (map (parsed_written lib ?body ws) [0..<length ws]))"
    "inf_media (ir_metadata r) = inf_media (seg_metadata (parsed_written lib ?body ws 0))"
    "stored_md5 (ir_metadata r) = first_some (map (\<lambda>i. stored_md5 (seg_metadata (parsed_written lib ?body ws i))) [0..<length ws])"
    "stored_sha1 (ir_metadata r) = first_some (map (\<lambda>i. stored_sha1 (seg_metadata (parsed_written lib ?body ws i))) [0..<length ws])"
    by (rule open_written_set [OF img refl])
  have "sector_size r = uint bps"
    using written_geometry_first [OF img refl, of media chunks] r(5) by (auto simp: sector_size_def has_geometry_def)
  with that [OF open_permuted [OF r(1) srcs]] r written_device [OF img refl r(2-4)] show ?thesis
    by blast
qed

text \<open>
  C29. A chain of sections that a writer laid out, whatever their names and bodies, is parsed
  into exactly those sections: offsets, names, type codes and sizes, up to the terminator
  and not a byte further, and every body is found where its descriptor says.
\<close>

theorem written_chain_roundtrip:
  assumes "chain_sections ss" "length ss \<le> 65536" "sections_length ss < 1000000000" "length head = 13"
  shows "parse_sections_v1 (bytes_source (head @ encode_sections 13 ss @ rest)) = Inr (section_infos 13 ss)
    \<and> map (\<lambda>d. (si_type_string d, si_type d)) (section_infos 13 ss) = map (\<lambda>s. (fst s, map_v1_type_string (fst s))) ss
    \<and> list_all2 (\<lambda>d s. snd s = [] \<or> read_slice (bytes_source (head @ encode_sections 13 ss @ rest))
         (si_data_offset d) (int (length (snd s))) = Inr (snd s)) (section_infos 13 ss) ss"
proof (intro conjI)
  show "parse_sections_v1 (bytes_source (head @ encode_sections 13 ss @ rest)) = Inr (section_infos 13 ss)"
    using written_chain [OF assms(1), of head rest] assms
    by (simp add: parse_sections_v1_def max_sections_def walk_v1_chain)
  show "map (\<lambda>d. (si_type_string d, si_type d)) (section_infos 13 ss) = map (\<lambda>s. (fst s, map_v1_type_string (fst s))) ss"
    by (rule section_infos_names)
  have "length (snd (ss ! i)) \<le> sections_length ss" if "i < length ss" for i
    using that by (induction ss arbitrary: i rule: sections_length.induct) (force simp: nth_Cons split: nat.splits)+
  then show "list_all2 (\<lambda>d s. snd s = [] \<or> read_slice (bytes_source (head @ encode_sections 13 ss @ rest))
         (si_data_offset d) (int (length (snd s))) = Inr (snd s)) (section_infos 13 ss) ss"
    using written_bodies [of _ ss head rest] assms(3,4) by (force simp: list_all2_conv_all_nth)
qed

text \<open>
  C1. A device written as an EWF-E01 set is read back. For every division of its chunks over
  segments, every mix of compressed and stored chunks and all further metadata sections:
  the set opens under any options and with its files in any order, has the size of the
  device, and every read inside it returns the bytes of the device, after any other reads.
\<close>

theorem written_image_reads_back:
  assumes "image_written lib spc bps sectors dev ws"
    and "mset sources = mset (map bytes_source (write_image (volume_body media chunks spc bps sectors) ws))"
  shows "\<exists>r. open_segments_with_options lib sources opts = Inr r \<and> reader_size r = int (length dev)
    \<and> sector_size r = uint bps
    \<and> (\<forall>earlier p off. off + length p \<le> length dev \<longrightarrow>
         fst (read_at lib (after_reads lib earlier r) p (int off)) =
           Returns (take (length p) (drop off dev), int (length p), None))"
proof -
  obtain r where r: "open_segments_with_options lib sources opts = Inr r" "ir_logical_size r = int (length dev)"
    "sector_size r = uint bps" "\<And>i. i < length dev \<Longrightarrow> reader_byte lib r (int i) = Some (dev ! i)"
    by (rule written_set_opens [OF assms, where opts = opts]) blast
  have "fst (read_at lib (after_reads lib earlier r) p (int off)) =
      Returns (take (length p) (drop off dev), int (length p), None)" if "off + length p \<le> length dev" for earlier p off
  proof (rule read_at_whole [OF r(1)])
    show "reader_byte lib r (int off + int i) = Some (take (length p) (drop off dev) ! i)" if "i < length p" for i
      using r(4) [of "off + i"] that \<open>off + length p \<le> length dev\<close> by simp
  qed (use that in simp)
  then show ?thesis
    using r(1-3) by (auto simp: reader_size_def)
qed

text \<open>
  C2. An image written with its MD5 verifies: a device of at least one byte whose set ends
  with the digest of its bytes is verified without an error, and the result is \<open>OK\<close>.
\<close>

theorem written_image_verifies:
  assumes "image_written lib spc bps sectors dev ws" "dev \<noteq> []" "md5_written (md5_sum dg dev) ws"
    and "mset sources = mset (map bytes_source (write_image (volume_body media chunks spc bps sectors) ws))"
  shows "\<exists>r res r'. open_segments_with_options lib sources opts = Inr r
    \<and> verify (image_ops lib) dg (\<lambda>pass. None) (after_reads lib earlier r) = Returns (Inr res, r') \<and> vr_ok res
    \<and> vr_computed_md5 res = md5_sum dg dev"
proof -
  obtain r where r: "open_segments_with_options lib sources opts = Inr r" "ir_logical_size r = int (length dev)"
    "\<And>i. i < length dev \<Longrightarrow> reader_byte lib r (int i) = Some (dev ! i)"
    "stored_md5 (ir_metadata r) = Some (md5_sum dg dev)" "stored_sha1 (ir_metadata r) = None"
    by (rule written_set_opens [OF assms(1,4), where opts = opts]) (use written_digests [OF assms(1,3) refl] in simp)
  have d: "device_is lib r dev"
    using r(2,3) by (simp add: device_is_def list_all_length)
  obtain res r' where v: "verify (image_ops lib) dg (\<lambda>pass. None) (after_reads lib earlier r) = Returns (Inr res, r')"
      "vr_computed_md5 res = md5_sum dg dev"
    using verify_total [OF r(1) d assms(2) refl] by metis
  have md5: "inf_has_md5 (ir_metadata r)" "inf_md5 (ir_metadata r) = md5_sum dg dev" "\<not> inf_has_sha1 (ir_metadata r)"
    using r(4,5) by (auto simp: stored_md5_def stored_sha1_def split: if_splits)
  then have "vr_ok res"
    using verify_ok_exact [OF r(1) v(1)] d by auto
  then show ?thesis
    using r(1) v by blast
qed

section \<open>A small set\<close>

text \<open>Six bytes in two chunks, one stored and one compressed, in two segments, with a digest.\<close>

definition small_lib :: golib where
  "small_lib = plain_lib\<lparr>zlib_new_reader := (\<lambda>_. None)\<rparr>"

definition small_digests :: digests where
  "small_digests = \<lparr>md5_sum = (\<lambda>b. take 16 (b @ replicate 16 0)), sha1_sum = (\<lambda>b. b)\<rparr>"

definition small_device :: bytes where
  "small_device = [0x61, 0x62, 0x63, 0x64, 0x65, 0x66]"

definition small_set :: "written_segment list" where
  "small_set =
     [\<lparr>ws_before = [(''header'', [1, 2, 3])], ws_chunks = [(False, [0x61, 0x62, 0x63, 0x64, 0, 0, 0, 0])], ws_after = []\<rparr>,
      \<lparr>ws_before = [], ws_chunks = [(True, [0x65, 0x66])],
       ws_after = [hash_section (md5_sum small_digests small_device)]\<rparr>]"

definition small_files :: "bytes list" where
  "small_files = write_image (volume_body 1 2 2 2 3) small_set"

lemma plain_names: "plain_section ''header''" "plain_section ''hash''"
  by code_simp+

lemma small_md5: "length (md5_sum small_digests small_device) = 16"
  by code_simp

lemma small_set_written: "image_written small_lib 2 2 3 small_device small_set"
proof -
  have codec: "decompress_zlib (lib_codecs small_lib) [0x65, 0x66] = Inr [0x65, 0x66]"
    by code_simp
  show ?thesis
    by (simp add: image_written_def small_set_def small_device_def add_volume_def segment_fits_def segment_layout_def
        chunk_group_def hash_section_def small_md5 [unfolded small_device_def] plain_names length_encode_table_v1 stored_sizes_def
        pieces.simps stored_chunk_def codec Let_def)
qed

lemma small_set_md5: "md5_written (md5_sum small_digests small_device) small_set"
  by (simp add: md5_written_def small_set_def undigested_def small_md5)

theorem written_chain_roundtrip_witness:
  "parse_sections_v1 (bytes_source (replicate 13 0 @ encode_sections 13 [(''hash'', [1, 2]), (''done'', [])] @ [7])) =
     Inr (section_infos 13 [(''hash'', [1, 2]), (''done'', [])])"
proof -
  have "chain_sections [(''hash'', [1, 2 :: u8]), (''done'', [])]"
    by code_simp
  from written_chain_roundtrip [OF this, of "replicate 13 0" "[7]"] show ?thesis
    by simp
qed

theorem written_image_reads_back_witness:
  "\<exists>r. open_segments_with_options small_lib (map bytes_source (rev small_files)) default_options = Inr r
    \<and> fst (read_at small_lib (after_reads small_lib [([0, 0], 1)] r) [0, 0, 0] 2) = Returns ([0x63, 0x64, 0x65], 3, None)"
proof -
  have "mset (map bytes_source (rev small_files)) = mset (map bytes_source (write_image (volume_body 1 2 2 2 3) small_set))"
    by (simp add: small_files_def rev_map [symmetric])
  from written_image_reads_back [OF small_set_written this, of default_options] obtain r
    where r: "open_segments_with_options small_lib (map bytes_source (rev small_files)) default_options = Inr r"
    "\<forall>earlier p off. off + length p \<le> length small_device \<longrightarrow>
       fst (read_at small_lib (after_reads small_lib earlier r) p (int off)) =
         Returns (take (length p) (drop off small_device), int (length p), None)"
    by blast
  have "fst (read_at small_lib (after_reads small_lib [([0, 0], 1)] r) [0, 0, 0] (int 2)) = Returns ([0x63, 0x64, 0x65], 3, None)"
    using r(2) [rule_format, of 2 "[0, 0, 0]" "[([0, 0], 1)]"] by (simp add: small_device_def)
  with r(1) show ?thesis
    by auto
qed

theorem written_image_verifies_witness:
  "\<exists>r res r'. open_segments_with_options small_lib (map bytes_source small_files) default_options = Inr r
    \<and> verify (image_ops small_lib) small_digests (\<lambda>pass. None) (after_reads small_lib [] r) = Returns (Inr res, r') \<and> vr_ok res"
proof -
  have "small_device \<noteq> []"
    by (simp add: small_device_def)
  from written_image_verifies [OF small_set_written this small_set_md5, of "map bytes_source small_files" 1 2 default_options "[]"]
  show ?thesis
    unfolding small_files_def by blast
qed

end
