(* ===== verification/Example_Properties.thy ===== *)
theory Example_Properties
  imports Examples Written_Image
begin

text \<open>
  What the example programs do with an opened image: the filesystems \<open>examples/offsets\<close>
  detects, the sectors it dumps, the partition tables it tries and the files it leaves open.
\<close>

section \<open>Reading a device without damage\<close>

lemma read_bytes_device:
  assumes ok: "reader_ok lib r" and d: "device_is lib r d" and n: "0 < n"
  shows "\<exists>r'. reader_ok lib r' \<and> device_is lib r' d \<and>
    (if 0 \<le> off \<and> off < int (length d)
     then read_bytes (image_ops lib) r off n = (Returns (Inr (take n (drop (nat off) d))), r')
     else \<exists>e. read_bytes (image_ops lib) r off n = (Returns (Inl e), r'))"
proof -
  let ?p = "replicate n (0 :: u8)"
  obtain res r' where read: "read_at lib r ?p off = (res, r')"
    by (cases "read_at lib r ?p off")
  have keeps: "reader_ok lib r' \<and> device_is lib r' d"
    using device_kept [OF ok d, of ?p off] read by simp
  show ?thesis
  proof (cases "0 \<le> off \<and> off < int (length d)")
    case True
    then obtain q m err where r: "res = Returns (q, m, err)" "err = None \<or> err = Some EOF"
        "m = int (min n (length d - nat off))" "length q = n" "take (nat m) q = take n (drop (nat off) d)"
      using read_at_readable [OF ok d, of ?p off] n read by auto
    have "0 < m" "m \<le> int (length q)"
      using r(3,4) True n by auto
    then have "slice_go q 0 m = Returns (take n (drop (nat off) d))"
      using r(5) by (simp add: slice_go_def subslice_def)
    then have "read_bytes (image_ops lib) r off n = (Returns (Inr (take n (drop (nat off) d))), r')"
      using read r(1,2) \<open>0 < m\<close> by (auto simp: read_bytes_def image_ops_def)
    then show ?thesis
      using keeps True by auto
  next
    case False
    then have "guarded r ?p off"
      using d by (auto simp: guarded_def device_is_def)
    then obtain err where "read_at lib r ?p off = (Returns (?p, 0, err), r)" "err \<noteq> None"
      using read_at_guarded [of r ?p off lib] n by auto
    then have "\<exists>e. read_bytes (image_ops lib) r off n = (Returns (Inl e), r)"
      by (auto simp: read_bytes_def image_ops_def)
    then show ?thesis
      using False ok d by auto
  qed
qed

section \<open>Filesystem signatures\<close>

text \<open>
  A signature: the type it stands for, the offset of the region it is looked for in, the
  bytes the region must have on the device, and the bytes expected at a position of it.
\<close>

record signature =
  sg_type :: string
  sg_region :: int
  sg_need :: nat
  sg_at :: nat
  sg_bytes :: bytes

definition boot_signature :: "string \<Rightarrow> nat \<Rightarrow> string \<Rightarrow> signature" where
  "boot_signature t pos s =
     \<lparr>sg_type = t, sg_region = 0, sg_need = pos + length s, sg_at = pos, sg_bytes = bytes_of_string s\<rparr>"

definition superblock_signature :: "string \<Rightarrow> nat \<Rightarrow> bytes \<Rightarrow> signature" where
  "superblock_signature t pos bs = \<lparr>sg_type = t, sg_region = 1024, sg_need = 58, sg_at = pos, sg_bytes = bs\<rparr>"

definition signatures :: "signature list" where
  "signatures =
     [boot_signature ''NTFS'' 3 ''NTFS    '', boot_signature ''FAT32'' 82 ''FAT32   '',
      boot_signature ''exFAT'' 3 ''EXFAT   '', boot_signature ''APFS'' 32 ''NXSB'',
      superblock_signature ''ext2/3/4'' 56 [0x53, 0xef],
      superblock_signature ''HFS+'' 0 (bytes_of_string ''H+''), superblock_signature ''HFS+'' 0 (bytes_of_string ''HX'')]"

definition signed :: "bytes \<Rightarrow> int \<Rightarrow> signature \<Rightarrow> bool" where
  "signed d base sg \<longleftrightarrow>
     0 \<le> base + sg_region sg \<and> base + sg_region sg + int (sg_need sg) \<le> int (length d) \<and>
     take (length (sg_bytes sg)) (drop (nat (base + sg_region sg) + sg_at sg) d) = sg_bytes sg"

definition filesystem_at :: "bytes \<Rightarrow> int \<Rightarrow> string" where
  "filesystem_at d base = (case List.find (signed d base) signatures of None \<Rightarrow> [] | Some sg \<Rightarrow> sg_type sg)"

lemma signature_type [simp]:
  "sg_type (boot_signature t pos s) = t" "sg_type (superblock_signature t pos bs) = t"
  by (simp_all add: boot_signature_def superblock_signature_def)

lemma marker_signed:
  assumes "0 \<le> base" "base < int (length d)" "pos + length s \<le> 4096"
  shows "has_marker (take 4096 (drop (nat base) d)) (int pos) s \<longleftrightarrow> signed d base (boot_signature t pos s)"
proof -
  have eq: "string_of_bytes bs = s \<longleftrightarrow> bs = bytes_of_string s" for bs
    by (auto simp: string_of_bytes_def bytes_of_string_def comp_def)
  have "subslice (take 4096 (drop (nat base) d)) pos (pos + length s) = take (length s) (drop (nat base + pos) d)"
    using assms by (simp add: subslice_def drop_take add.commute min_absorb1)
  moreover have "nat (int pos + int (length s)) = pos + length s"
    by simp
  ultimately show ?thesis
    using assms by (auto simp: has_marker_def signed_def boot_signature_def eq)
qed

lemma boot_unsigned: "\<not> (0 \<le> base \<and> base < int (length d)) \<Longrightarrow> s \<noteq> [] \<Longrightarrow> \<not> signed d base (boot_signature t pos s)"
  by (auto simp: signed_def boot_signature_def bytes_of_string_def)

lemma superblock_unsigned:
  "\<not> (0 \<le> base + 1024 \<and> base + 1024 < int (length d)) \<Longrightarrow> \<not> signed d base (superblock_signature t pos bs)"
  by (auto simp: signed_def superblock_signature_def)

lemma take_two: "Suc k < length d \<Longrightarrow> take 2 (drop k d) = [a, b] \<longleftrightarrow> d ! k = a \<and> d ! Suc k = b"
  by (simp add: Cons_nth_drop_Suc [symmetric] numeral_2_eq_2 Suc_lessD)

lemma superblock_signed:
  assumes "0 \<le> k" "k < int (length d)" "k = base + 1024" "pos \<le> 56" "j = Suc pos"
  defines "ext \<equiv> take 2048 (drop (nat k) d)"
  shows "signed d base (superblock_signature t pos [a, b]) \<longleftrightarrow> 58 \<le> length ext \<and> ext ! pos = a \<and> ext ! j = b"
proof (cases "58 \<le> length ext")
  case True
  then have "Suc (nat k + pos) < length d" "base + 1024 + 58 \<le> int (length d)" "base + 1024 \<ge> 0"
    using assms by auto
  then show ?thesis
    using True assms(1,3,4,5) take_two [of "nat k + pos" d a b]
    by (simp add: signed_def superblock_signature_def ext_def numeral_2_eq_2)
next
  case False
  then show ?thesis
    using assms by (auto simp: signed_def superblock_signature_def)
qed

lemma boot_type_signed:
  "(if 0 \<le> base \<and> base < int (length d) then boot_type (take 4096 (drop (nat base) d)) else []) =
    (if signed d base (boot_signature ''NTFS'' 3 ''NTFS    '') then ''NTFS''
     else if signed d base (boot_signature ''FAT32'' 82 ''FAT32   '') then ''FAT32''
     else if signed d base (boot_signature ''exFAT'' 3 ''EXFAT   '') then ''exFAT''
     else if signed d base (boot_signature ''APFS'' 32 ''NXSB'') then ''APFS'' else [])"
proof (cases "0 \<le> base \<and> base < int (length d)")
  case True
  then have inside: "0 \<le> base" "base < int (length d)" by simp_all
  show ?thesis
  using marker_signed [OF inside, of 3 "''NTFS    ''" "''NTFS''"] marker_signed [OF inside, of 82 "''FAT32   ''" "''FAT32''"]
    marker_signed [OF inside, of 3 "''EXFAT   ''" "''exFAT''"] marker_signed [OF inside, of 32 "''NXSB''" "''APFS''"]
  by (simp only: if_P [OF True] boot_type_def) simp
next
  case False
  then show ?thesis
    by (simp only: if_not_P [OF False]) (simp add: boot_unsigned [OF False])
qed

lemma superblock_type_signed:
  "(if 0 \<le> base + 1024 \<and> base + 1024 < int (length d)
    then superblock_type (take 2048 (drop (nat (base + 1024)) d)) else []) =
    (if signed d base (superblock_signature ''ext2/3/4'' 56 [0x53, 0xef]) then ''ext2/3/4''
     else if signed d base (superblock_signature ''HFS+'' 0 (bytes_of_string ''H+'')) \<or>
       signed d base (superblock_signature ''HFS+'' 0 (bytes_of_string ''HX'')) then ''HFS+'' else [])"
proof (cases "0 \<le> base + 1024 \<and> base + 1024 < int (length d)")
  case True
  then have inside: "0 \<le> base + 1024" "base + 1024 < int (length d)" by simp_all
  have "bytes_of_string ''H+'' = [0x48, 0x2b]" "bytes_of_string ''HX'' = [0x48, 0x58]"
    by code_simp+
  moreover note superblock_signed [OF inside refl, where pos = 56 and j = 57] superblock_signed [OF inside refl, where pos = 0 and j = 1]
  ultimately show ?thesis
    by (simp only: if_P [OF True] superblock_type_def) auto
next
  case False
  then show ?thesis
    by (simp only: if_not_P [OF False]) (simp add: superblock_unsigned [OF False])
qed

lemma superblock_type_none: "length ext < 58 \<Longrightarrow> superblock_type ext = []"
  by (simp add: superblock_type_def)

text \<open>What the two reads give together.\<close>

lemma filesystem_at_parts:
  "filesystem_at d base =
     (let boot = (if 0 \<le> base \<and> base < int (length d) then boot_type (take 4096 (drop (nat base) d)) else []) in
      if boot \<noteq> [] then boot
      else if 0 \<le> base + 1024 \<and> base + 1024 < int (length d)
      then superblock_type (take 2048 (drop (nat (base + 1024)) d)) else [])"
  unfolding filesystem_at_def signatures_def boot_type_signed superblock_type_signed by simp

lemma i64_cases:
  assumes "- 9223372036854775808 \<le> base" "base \<le> 9223372036854775807"
  shows "i64 (base + 1024) = base + 1024 \<or> i64 (base + 1024) < 0 \<and> 9223372036854775807 < base + 1024"
proof (cases "base + 1024 \<le> 9223372036854775807")
  case True
  then show ?thesis
    using assms by (simp add: i64_def)
next
  case False
  then have "i64 (base + 1024) = base + 1024 - 18446744073709551616"
    using assms mod_pos_pos_trivial [of "base + 1024 - 2 ^ 63" "2 ^ 64"] mod_add_self2 [of "base + 1024 - 2 ^ 63" "2 ^ 64"]
    by (simp add: i64_def algebra_simps)
  then show ?thesis
    using False assms by simp
qed

lemma detect_filesystem_exact:
  assumes ok: "reader_ok lib r" and d: "device_is lib r d"
    and base: "- 9223372036854775808 \<le> base" "base \<le> 9223372036854775807"
  shows "\<exists>r'. detect_filesystem (image_ops lib) r base = (Returns (filesystem_at d base), r') \<and>
    reader_ok lib r' \<and> device_is lib r' d"
proof -
  let ?boot = "if 0 \<le> base \<and> base < int (length d) then boot_type (take 4096 (drop (nat base) d)) else []"
  obtain b r1 where one: "read_bytes (image_ops lib) r base 4096 = (Returns b, r1)"
      "(case b of Inl _ \<Rightarrow> [] | Inr data \<Rightarrow> boot_type data) = ?boot" "reader_ok lib r1" "device_is lib r1 d"
    using read_bytes_device [OF ok d, of 4096 base] by (auto split: if_splits)
  show ?thesis
  proof (cases "?boot = []")
    case False
    then show ?thesis
      using one by (auto simp: detect_filesystem_def filesystem_at_parts Let_def)
  next
    case True
    let ?b2 = "i64 (base + 1024)"
    have len: "int (length d) \<le> 9223372036854775807"
      using ok d by (simp add: reader_ok_def device_is_def)
    have wrap: "(0 \<le> ?b2 \<and> ?b2 < int (length d)) \<longleftrightarrow> 0 \<le> base + 1024 \<and> base + 1024 < int (length d)"
        "0 \<le> ?b2 \<Longrightarrow> ?b2 = base + 1024"
      using i64_cases [OF base] len by auto
    obtain x r2 where two: "read_bytes (image_ops lib) r1 ?b2 2048 = (Returns x, r2)"
        "(case x of Inl _ \<Rightarrow> [] | Inr data \<Rightarrow> superblock_type data) =
          (if 0 \<le> base + 1024 \<and> base + 1024 < int (length d)
           then superblock_type (take 2048 (drop (nat (base + 1024)) d)) else [])"
        "reader_ok lib r2" "device_is lib r2 d"
      using read_bytes_device [OF one(3,4), of 2048 ?b2] wrap by (auto split: if_splits)
    then show ?thesis
      using one True by (auto simp: detect_filesystem_def filesystem_at_parts Let_def)
  qed
qed

lemma probe_filesystems_device:
  assumes "reader_ok lib r" "device_is lib r d"
  shows "fst (probe_filesystems (image_ops lib) verbose r offs) =
    Returns (case List.find (\<lambda>off. filesystem_at d (int64_of off) \<noteq> []) offs of
               None \<Rightarrow> ([], 0) | Some off \<Rightarrow> (filesystem_at d (int64_of off), off))"
  using assms
proof (induction offs arbitrary: r)
  case (Cons off offs)
  have range: "- 9223372036854775808 \<le> int64_of off" "int64_of off \<le> 9223372036854775807"
    using is_i64_i64 [of "uint off"] by (simp_all add: int64_of_def is_i64_def max_int64_def)
  obtain r' where "detect_filesystem (image_ops lib) r (int64_of off) = (Returns (filesystem_at d (int64_of off)), r')"
      "reader_ok lib r'" "device_is lib r' d"
    using detect_filesystem_exact [OF Cons.prems range] by blast
  then show ?case
    using Cons.IH [of r'] by (auto simp: Let_def case_prod_beta)
qed simp

lemma after_reads_is:
  assumes "open_segments_with_options lib sources opts = Inr r" "device_is lib r d"
  shows "reader_ok lib (after_reads lib earlier r)" "device_is lib (after_reads lib earlier r) d"
  using after_reads_device [OF assms(1), of earlier] assms(2) by (simp_all add: device_is_def)

text \<open>An offset of 2^63 and above is probed as a negative one: the superblock is looked for at 1023.\<close>

lemma wrapped_offset_detected:
  "int64_of (- 1) = - 1"
  "filesystem_at (replicate 1079 0 @ [0x53, 0xef]) (- 1) = ''ext2/3/4''"
  by code_simp+

section \<open>The hex dump\<close>

definition row_address :: "string \<Rightarrow> string" where
  "row_address s = takeWhile (\<lambda>c. c \<noteq> CHR '' '') s"

definition row_bytes :: "string \<Rightarrow> bytes option" where
  "row_bytes s = hex_decode (filter (\<lambda>c. c \<noteq> CHR '' '') (takeWhile (\<lambda>c. c \<noteq> CHR ''|'') (dropWhile (\<lambda>c. c \<noteq> CHR '' '') s)))"

text \<open>The text column, and how a byte is shown there: itself when it is printable ASCII.\<close>

definition row_text :: "string \<Rightarrow> string" where
  "row_text s = butlast (tl (dropWhile (\<lambda>c. c \<noteq> CHR ''|'') s))"

definition shown_as :: "u8 \<Rightarrow> char" where
  "shown_as b = (if 32 \<le> uint b \<and> uint b \<le> 126 then char_of (unat b) else CHR ''.'')"

definition plain_digit :: "char \<Rightarrow> bool" where
  "plain_digit c \<longleftrightarrow> c \<noteq> CHR '' '' \<and> c \<noteq> CHR ''|''"

lemma hex_digit_inverse:
  assumes "0 \<le> d" "d < 16"
  shows "Header_Text.hex_digit (Corpus.hex_digit d) = Some (nat d)" "plain_digit (Corpus.hex_digit d)"
proof -
  have "list_all (\<lambda>k. Header_Text.hex_digit (Corpus.hex_digit (int k)) = Some k \<and> plain_digit (Corpus.hex_digit (int k))) [0..<16]"
    by code_simp
  then have "\<forall>k < 16. Header_Text.hex_digit (Corpus.hex_digit (int k)) = Some k \<and> plain_digit (Corpus.hex_digit (int k))"
    by (simp add: list_all_iff)
  moreover have "nat d < 16" "int (nat d) = d"
    using assms by auto
  ultimately show "Header_Text.hex_digit (Corpus.hex_digit d) = Some (nat d)" "plain_digit (Corpus.hex_digit d)"
    by metis+
qed

lemma nibbles: "0 \<le> uint (b :: u8) div 16" "uint b div 16 < 16" "0 \<le> uint b mod 16" "uint b mod 16 < 16"
proof -
  have "0 \<le> uint b" "uint b < 256"
    using unsigned_less [of b, where ?'a = int] by simp_all
  then show "0 \<le> uint b div 16" "uint b div 16 < 16" "0 \<le> uint b mod 16" "uint b mod 16 < 16"
    by (simp_all add: pos_imp_zdiv_nonneg_iff)
qed

lemma decode_hex_bytes: "hex_decode (concat (map hex_byte bs)) = Some bs"
proof (induction bs)
  case (Cons b bs)
  have "int (16 * nat (uint b div 16) + nat (uint b mod 16)) = uint b"
    using nibbles [of b] by simp
  then have "of_nat (16 * nat (uint b div 16) + nat (uint b mod 16)) = b"
    by (metis of_int_of_nat_eq word_of_int_uint)
  then show ?case
    using Cons by (simp add: hex_byte_def hex_digit_inverse nibbles)
qed simp

lemma filter_plain: "list_all plain_digit s \<Longrightarrow> filter (\<lambda>c. c \<noteq> CHR '' '') s = s"
  by (induction s) (simp_all add: plain_digit_def)

lemma plain_parts:
  "list_all plain_digit (hex_byte b)" "list_all plain_digit (hex_digits n)"
  "list_all plain_digit (pad_left w (print_hex (int n)))"
proof -
  show "list_all plain_digit (hex_byte b)"
    by (simp add: hex_byte_def hex_digit_inverse nibbles)
  show digits: "list_all plain_digit (hex_digits n)" for n
    by (induction n rule: hex_digits.induct) (subst hex_digits.simps, simp add: hex_digit_inverse)
  have "plain_digit (CHR ''0'')"
    by (simp add: plain_digit_def)
  then show "list_all plain_digit (pad_left w (print_hex (int n)))"
    using digits by (auto simp: pad_left_def print_hex_def list_all_iff)
qed

definition in_columns :: "char \<Rightarrow> bool" where
  "in_columns c \<longleftrightarrow> c \<noteq> CHR ''|''"

lemma plain_in_columns: "list_all plain_digit s \<Longrightarrow> list_all in_columns s"
  by (auto simp: list_all_iff plain_digit_def in_columns_def)

lemma hex_part_columns:
  "filter (\<lambda>c. c \<noteq> CHR '' '') (hex_part j bs) = concat (map hex_byte bs)" "list_all in_columns (hex_part j bs)"
  by (induction bs arbitrary: j)
     (auto simp: filter_plain plain_parts plain_in_columns in_columns_def)

lemma hex_fill_columns:
  "filter (\<lambda>c. c \<noteq> CHR '' '') (hex_fill j n) = []" "list_all in_columns (hex_fill j n)"
  by (induction n arbitrary: j) (auto simp: in_columns_def)

lemma takeWhile_until: "list_all P xs \<Longrightarrow> \<not> P y \<Longrightarrow> takeWhile P (xs @ y # ys) = xs"
  by (simp add: takeWhile_append2 list_all_iff)

lemma dropWhile_until: "list_all P xs \<Longrightarrow> \<not> P y \<Longrightarrow> dropWhile P (xs @ y # ys) = y # ys"
  by (simp add: dropWhile_append2 list_all_iff)

lemma pad_right_all: "list_all P s \<Longrightarrow> P (CHR '' '') \<Longrightarrow> list_all P (pad_right w s)"
  by (auto simp: pad_right_def list_all_iff)

lemma dump_row_read:
  "row_address (dump_row i row) = pad_left 8 (print_hex (int i))" "row_bytes (dump_row i row) = Some row"
proof -
  let ?a = "pad_left 8 (print_hex (int i))" and ?h = "hex_part 0 row @ hex_fill (length row) (16 - length row)"
  define rest where "rest = CHR '' '' # pad_right 49 ?h @ '' |'' @ ascii_part row @ ''|''"
  have row: "dump_row i row = ?a @ CHR '' '' # rest"
    by (simp add: dump_row_def rest_def)
  have a: "list_all (\<lambda>c. c \<noteq> CHR '' '') ?a"
    using plain_parts(3) by (auto simp: list_all_iff plain_digit_def)
  show "row_address (dump_row i row) = ?a"
    unfolding row_address_def row by (rule takeWhile_until [OF a]) simp
  have drop: "dropWhile (\<lambda>c. c \<noteq> CHR '' '') (dump_row i row) = CHR '' '' # rest"
    unfolding row by (rule dropWhile_until [OF a]) simp
  have "CHR '' '' # rest = (''  '' @ pad_right 49 ?h @ '' '') @ CHR ''|'' # ascii_part row @ ''|''"
    by (simp add: rest_def)
  moreover have "list_all in_columns (''  '' @ pad_right 49 ?h @ '' '')"
    using pad_right_all [of in_columns ?h 49] hex_part_columns(2) [of 0 row] hex_fill_columns(2) [of "length row" "16 - length row"]
    by (simp add: in_columns_def [of "CHR '' ''"])
  ultimately have "takeWhile in_columns (CHR '' '' # rest) = ''  '' @ pad_right 49 ?h @ '' ''"
    by (simp only:) (rule takeWhile_until, simp_all add: in_columns_def)
  then have "row_bytes (dump_row i row) =
      hex_decode (filter (\<lambda>c. c \<noteq> CHR '' '') (''  '' @ pad_right 49 ?h @ '' ''))"
    unfolding row_bytes_def drop by (simp only: in_columns_def [abs_def])
  also have "filter (\<lambda>c. c \<noteq> CHR '' '') (''  '' @ pad_right 49 ?h @ '' '') = concat (map hex_byte row)"
    by (simp add: pad_right_def hex_part_columns(1) hex_fill_columns(1))
  finally show "row_bytes (dump_row i row) = Some row"
    by (simp add: decode_hex_bytes)
qed

lemma ascii_part_shown: "ascii_part row = map shown_as row"
  by (simp add: ascii_part_def shown_as_def char_byte_def word_le_def word_less_def not_le not_less)

lemma dump_row_text: "row_text (dump_row i row) = map shown_as row"
proof -
  let ?h = "hex_part 0 row @ hex_fill (length row) (16 - length row)"
  have "dump_row i row = (pad_left 8 (print_hex (int i)) @ ''  '' @ pad_right 49 ?h @ '' '') @ CHR ''|'' # ascii_part row @ ''|''"
    by (simp add: dump_row_def)
  moreover have "list_all in_columns (pad_left 8 (print_hex (int i)) @ ''  '' @ pad_right 49 ?h @ '' '')"
    using plain_in_columns [OF plain_parts(3) [of 8 i]] pad_right_all [of in_columns ?h 49]
      hex_part_columns(2) [of 0 row] hex_fill_columns(2) [of "length row" "16 - length row"]
    by (simp add: in_columns_def [of "CHR '' ''"])
  ultimately have "dropWhile in_columns (dump_row i row) = CHR ''|'' # ascii_part row @ ''|''"
    by (simp only:) (rule dropWhile_until, simp_all add: in_columns_def)
  then show ?thesis
    by (simp add: row_text_def in_columns_def [abs_def] ascii_part_shown)
qed

text \<open>The rows of 16 bytes a buffer is cut into.\<close>

fun rows_of :: "bytes \<Rightarrow> bytes list" where
  "rows_of buf = (if buf = [] then [] else take 16 buf # rows_of (drop 16 buf))"

declare rows_of.simps [simp del]

lemma rows_of_all: "concat (rows_of buf) = buf" "list_all (\<lambda>row. length row \<le> 16) (rows_of buf)"
  by (induction buf rule: rows_of.induct; subst rows_of.simps; simp)+

lemma rows_of_lengths:
  "list_all (\<lambda>row. row \<noteq> []) (rows_of buf)" "list_all (\<lambda>row. length row = 16) (butlast (rows_of buf))"
proof (induction buf rule: rows_of.induct)
  case (1 buf)
  have more: "16 < length buf" if "rows_of (drop 16 buf) \<noteq> []"
    using that by (subst (asm) rows_of.simps) (auto split: if_splits)
  show "list_all (\<lambda>row. row \<noteq> []) (rows_of buf)"
    using 1(1) by (subst rows_of.simps) simp
  show "list_all (\<lambda>row. length row = 16) (butlast (rows_of buf))"
    using 1(2) more by (subst rows_of.simps) simp
qed

lemma dump_rows_text: "map row_text (dump_rows i buf) = map (map shown_as) (rows_of buf)"
proof (induction i buf rule: dump_rows.induct)
  case (1 i buf)
  then show ?case
    by (subst dump_rows.simps, subst rows_of.simps) (simp add: dump_row_text)
qed

lemma dump_rows_read:
  "map row_bytes (dump_rows i buf) = map Some (rows_of buf)"
  "map row_address (dump_rows i buf) =
     map (\<lambda>k. pad_left 8 (print_hex (int (i + 16 * k)))) [0..<length (rows_of buf)]"
proof (induction i buf rule: dump_rows.induct)
  case (1 i buf)
  {
    case 1
    show ?case
      using "1.IH"(1) by (subst dump_rows.simps, subst rows_of.simps) (simp add: dump_row_read)
  next
    case 2
    show ?case
    proof (cases "buf = []")
      case True
      then show ?thesis by (simp add: dump_rows.simps rows_of.simps)
    next
      case False
      have "map (\<lambda>k. pad_left 8 (print_hex (int (i + 16 * k)))) [0..<Suc n] =
        pad_left 8 (print_hex (int i)) # map (\<lambda>k. pad_left 8 (print_hex (int (i + 16 + 16 * k)))) [0..<n]" for n
        by (simp add: upt_conv_Cons map_Suc_upt [symmetric] comp_def del: upt_Suc map_Suc_upt) (simp add: add.assoc)
      then show ?thesis
        using False "1.IH"(2) 
        by (subst dump_rows.simps, subst rows_of.simps) (simp add: dump_row_read del: upt_Suc)
    qed
  }
qed

definition dump_header :: "int \<Rightarrow> nat \<Rightarrow> string" where
  "dump_header sectors n =
     new_line @ ''--- hex dump: first '' @ print_int sectors @ '' sector(s) from decoded stream ('' @
       print_int (int n) @ '' bytes) ---''"

lemma dump_device:
  assumes ok: "reader_ok lib r" and d: "device_is lib r d" "d \<noteq> []"
    and s: "0 < sectors" "sectors \<le> 18014398509481983" and shown: "shown = take (nat (sectors * 512)) d"
  shows "fst (dump_stream_sectors (image_ops lib) r sectors) =
    Returns (println (dump_header sectors (length shown)) @ concat (map println (dump_rows 0 shown)) @ println ''---'')"
proof -
  let ?p = "replicate (nat (sectors * 512)) (0 :: u8)"
  have n: "i64 (sectors * 512) = sectors * 512"
    using s by (simp add: i64_nonneg_id)
  have p: "?p \<noteq> []" "(0 :: int) < int (length d)"
    using s d(2) by auto
  obtain res r' where read: "read_at lib r ?p 0 = (res, r')"
    by (cases "read_at lib r ?p 0")
  obtain q m err where res: "res = Returns (q, m, err)" "err = None \<or> err = Some EOF"
      "m = int (min (length ?p) (length d - nat 0))" "length q = length ?p" "take (nat m) q = take (length ?p) (drop (nat 0) d)"
    using read_at_readable [OF ok d(1) p(1) order.refl p(2)] read by auto
  have m: "0 \<le> m" "m \<le> int (length q)" "take (nat m) q = shown" "m = int (length shown)"
    using res shown by (auto simp: min.commute)
  then have "slice_go q 0 m = Returns shown"
    by (simp add: slice_go_def subslice_def)
  then show ?thesis
    using read res(1,2) s m(4) by (auto simp: dump_stream_sectors_def n image_ops_def Let_def dump_header_def)
qed

section \<open>The search for a partition table\<close>

text \<open>Every attempt, in order: the offset asked for, then the usual ones, each in two or four modes.\<close>

definition table_tries :: "u64 \<Rightarrow> int \<Rightarrow> (u64 \<times> detect_attempt) list" where
  "table_tries start dev =
     [(off, \<lparr>da_label = (if dev_size = 0 then ''unknown-size/'' else ''known-size/'') @
                        (if relaxed then ''gpt-crc-relax'' else ''strict''),
             da_opts = \<lparr>to_offset = off, to_disable_crc = relaxed\<rparr>, da_size = word_of_int dev_size\<rparr>).
       off \<leftarrow> start # filter (\<lambda>x. x \<noteq> start) [0, 32256, 1048576, 4096],
       dev_size \<leftarrow> (if 0 < dev then [0, dev] else [0]),
       relaxed \<leftarrow> [False, True]]"

fun first_success ::
  "('r \<Rightarrow> u64 \<Rightarrow> table_options \<Rightarrow> (gerr + 't) \<times> 'r) \<Rightarrow> 'r \<Rightarrow> gerr \<Rightarrow> (u64 \<times> detect_attempt) list
     \<Rightarrow> (gerr + 't \<times> string) \<times> 'r" where
  "first_success parse r last_err [] = (Inl last_err, r)"
| "first_success parse r last_err ((off, a) # tries) =
     (case parse r (da_size a) (da_opts a) of
        (Inr tbl, r') \<Rightarrow> (Inr (tbl, ''offset='' @ print_int (uint off) @ '', '' @ da_label a), r')
      | (Inl e, r') \<Rightarrow> first_success parse r' e tries)"

definition search_result :: "(gerr option + 'a) \<Rightarrow> gerr + 'a" where
  "search_result res =
     (case res of Inr x \<Rightarrow> Inr x | Inl (Some e) \<Rightarrow> Inl e | Inl None \<Rightarrow> Inl (Plain ''no partition table found''))"

definition error_or :: "gerr option \<Rightarrow> gerr" where
  "error_or e = (case e of None \<Rightarrow> Plain ''no partition table found'' | Some x \<Rightarrow> x)"

lemma error_or_simps [simp]: "error_or None = Plain ''no partition table found''" "error_or (Some e) = e"
  by (simp_all add: error_or_def)

lemma search_result_simps [simp]: "search_result (Inr x) = Inr x" "search_result (Inl e) = Inl (error_or e)"
  by (simp_all add: search_result_def error_or_def split: option.split)

lemma first_success_append:
  "first_success parse r e (xs @ ys) =
     (case first_success parse r e xs of (Inr x, r') \<Rightarrow> (Inr x, r') | (Inl e', r') \<Rightarrow> first_success parse r' e' ys)"
  by (induction xs arbitrary: r e) (auto split: prod.splits sum.splits)

lemma try_attempts_first:
  "(case try_attempts lt verbose off r e as of (res, r', out) \<Rightarrow> (search_result res, r')) =
     first_success (lt_parse lt) r (error_or e) (map (Pair off) as)"
  by (induction lt verbose off r e as rule: try_attempts.induct)
     (auto simp: Let_def split: prod.splits sum.splits)

lemma try_offsets_first:
  "(case try_offsets lt verbose known r e offs of (res, r', out) \<Rightarrow> (search_result res, r')) =
     first_success (lt_parse lt) r (error_or e)
       (concat (map (\<lambda>off. map (Pair off) (build_attempts off (fst known) (snd known))) offs))"
proof (induction lt verbose known r e offs rule: try_offsets.induct)
  case (2 lt verbose known r e off offs)
  obtain res r' out where t: "try_attempts lt verbose off r e (build_attempts off (fst known) (snd known)) = (res, r', out)"
    by (metis prod_cases3)
  have "first_success (lt_parse lt) r (error_or e) (map (Pair off) (build_attempts off (fst known) (snd known))) =
      (search_result res, r')"
    using try_attempts_first [of lt verbose off r e "build_attempts off (fst known) (snd known)"] t by simp
  then show ?case
    using "2.IH" t by (cases res) (auto simp: first_success_append Let_def split: prod.splits)
qed simp

lemma candidate_offsets_eq:
  "candidate_offsets start = start # filter (\<lambda>x. x \<noteq> start) [0, 32256, 1048576, 4096]"
  by (simp add: candidate_offsets_def)

lemma image_size_exact:
  assumes "open_segments_with_options lib sources opts = Inr r"
  shows "image_size_from_metadata (ir_metadata r) = (0 < reader_size r, word_of_int (reader_size r))"
    "reader_size r \<le> 9223372036854775807" "0 \<le> reader_size r"
proof -
  obtain segs where "reader_of segs opts = Inr r"
    using assms unfolding open_Inr by blast
  from reader_of_Inr(4) [OF this]
  have geo: "compute_geometry (inf_media (ir_metadata r)) = Inr (ir_chunk_size r, ir_logical_size r)" .
  show "reader_size r \<le> 9223372036854775807" "0 \<le> reader_size r"
    using compute_geometry_bounds [OF geo] by (simp_all add: reader_size_def)
  show "image_size_from_metadata (ir_metadata r) = (0 < reader_size r, word_of_int (reader_size r))"
  proof (cases "inf_media (ir_metadata r)")
    case None
    then show ?thesis
      using geo by (simp add: image_size_from_metadata_def compute_geometry_def reader_size_def)
  next
    case (Some m)
    let ?bps = "mi_bytes_per_sector m" and ?n = "mi_number_of_sectors m"
    have size: "reader_size r = uint ?n * uint ?bps" "uint ?bps \<noteq> 0"
      using geo Some by (auto simp: compute_geometry_cases reader_size_def Let_def split: if_splits)
    have "word_of_int (uint ?n * uint ?bps) = ucast ?bps * ?n"
      by (simp add: mult.commute unsigned_ucast_eq flip: word_of_int_uint)
    then show ?thesis
      using size Some by (auto simp: image_size_from_metadata_def unsigned_eq_0_iff zero_less_mult_iff less_le)
  qed
qed

lemma known_sizes:
  assumes "0 \<le> dev" "dev \<le> 9223372036854775807"
  shows "table_tries start dev =
    concat (map (\<lambda>off. map (Pair off) (build_attempts off (0 < dev) (word_of_int dev))) (candidate_offsets start))"
  using assms by (simp add: table_tries_def candidate_offsets_eq build_attempts_def Let_def)

lemma partition_search:
  assumes "open_segments_with_options lib sources opts = Inr r"
  shows "(case detect_partition_table lt r' (ir_metadata r) start verbose of (res, r'', out) \<Rightarrow> (res, r'')) =
    first_success (lt_parse lt) r' (Plain ''no partition table found'') (table_tries start (reader_size r))"
  using try_offsets_first [of lt verbose "image_size_from_metadata (ir_metadata r)" r' None "candidate_offsets start"]
    known_sizes [OF image_size_exact(3,2) [OF assms], of start]
  by (auto simp: detect_partition_table_def Let_def image_size_exact(1) [OF assms] search_result_def split: prod.splits)

lemma tries_distinct:
  assumes "0 \<le> dev" "dev \<le> 9223372036854775807"
  shows "distinct (map (\<lambda>(off, a). (da_opts a, da_size a)) (table_tries start dev))"
proof -
  have "dev = 0 \<or> word_of_int dev \<noteq> (0 :: u64)"
  proof -
    have "uint (word_of_int dev :: u64) = dev"
      using assms by (simp add: uint_word_of_int)
    then show ?thesis by auto
  qed
  then show ?thesis
    using assms by (auto simp: table_tries_def)
qed

section \<open>The files of the program\<close>

lemma open_sources_files:
  assumes "open_files os i ps files log = (res, log')"
  shows "\<exists>res'. open_sources os ps files log = (res', log') \<and>
    (case res of Inr all \<Rightarrow> res' = Inr all | Inl e \<Rightarrow> \<exists>e'. res' = Inl e')"
  using assms
proof (induction ps arbitrary: i files log)
  case (Cons p ps)
  obtain opened log1 where f: "file_open os p log = (opened, log1)"
    by (cases "file_open os p log")
  show ?case
  proof (cases opened)
    case (Inl e)
    then show ?thesis using Cons.prems f by auto
  next
    case (Inr g)
    then show ?thesis using Cons.IH [of "Suc i" "files @ [g]" log1] Cons.prems f by simp
  qed
qed (auto split: sum.splits)

lemma open_sources_log:
  assumes "log_ok log" "open_sources os ps [] log = (res, log')"
  shows "opened_rest [] (length ps) log res log'"
proof -
  obtain res0 log0 where run: "open_files os 0 ps [] log = (res0, log0)"
    by (cases "open_files os 0 ps [] log")
  have "opened_rest [] (length ps) log res0 log0"
    by (rule open_files_log [OF assms(1) _ _ run]) simp_all
  then show ?thesis
    using open_sources_files [OF run] assms(2) by (auto simp: opened_rest_def split: sum.splits)
qed

lemma close_all_log:
  assumes "log_ok log" "log_ok log1" "still_open log1 = still_open log @ map of_handle files"
  shows "log_ok (close_files os files log1) \<and> still_open (close_files os files log1) = still_open log"
proof -
  have d: "distinct (still_open log @ map of_handle files)"
    using still_open_distinct [OF assms(2)] assms(3) by simp
  then have "filter (\<lambda>h. h \<notin> of_handle ` set files) (still_open log @ map of_handle files) = still_open log"
    by (auto simp: filter_empty_conv filter_id_conv)
  then show ?thesis
    using close_files_log [OF assms(2), of files os] d assms(3) by simp
qed

definition refused_image :: "exit go \<Rightarrow> bool" where
  "refused_image res \<longleftrightarrow>
     (\<exists>e. res = Returns \<lparr>ex_code = 1, ex_out = [], ex_err = print_err ''libewf error: '' e\<rparr>)"

lemma offsets_files:
  assumes ok: "log_ok log" and run: "run_offsets lt lib os a log = Some (res, log')"
  shows "log_ok log' \<and> (still_open log' = still_open log \<or>
    refused_image res \<and> (\<exists>files :: open_file list. still_open log' = still_open log @ map of_handle files))"
proof (cases "oa_segments a = []")
  case True
  then show ?thesis
    using ok run by (simp add: run_offsets_def)
next
  case False
  then obtain found where found: "resolve_segments (os_fs os) (oa_segments a) = Some found"
    using run by (cases "resolve_segments (os_fs os) (oa_segments a)") (simp_all add: run_offsets_def)
  show ?thesis
  proof (cases found)
    case (Inl e)
    then show ?thesis
      using ok run False found by (simp add: run_offsets_def)
  next
    case (Inr segments)
    obtain files log1 where f: "open_sources os segments [] log = (files, log1)"
      by (cases "open_sources os segments [] log")
    note l = open_sources_log [OF ok f]
    show ?thesis
    proof (cases files)
      case (Inl e)
      then show ?thesis
        using l run False found Inr f by (simp add: run_offsets_def opened_rest_def)
    next
      case opened: (Inr fs)
      have l1: "log_ok log1" "still_open log1 = still_open log @ map of_handle fs"
        using l opened by (auto simp: opened_rest_def)
      show ?thesis
        using run False found Inr f opened l1 close_all_log [OF ok l1]
        by (auto simp: run_offsets_def refused_image_def intro: exI [of _ fs] split: sum.splits)
    qed
  qed
qed

section \<open>Properties\<close>

text \<open>
  C38. The probe for filesystems finds exactly what lies on the device: on an undamaged image,
  whatever was read before, it returns the first of the offsets at which a signature of
  the list is on the device, with the type of the first signature there, and none when
  there is no such offset. It neither fails nor panics at the end of the device, at
  unaligned offsets or at offsets past 2^63, which the code turns into negative ones.
\<close>

theorem probe_filesystems_exact:
  assumes "open_segments_with_options lib sources opts = Inr r" "device_is lib r d"
  shows "fst (probe_filesystems (image_ops lib) verbose (after_reads lib earlier r) offs) =
    Returns (case List.find (\<lambda>off. filesystem_at d (int64_of off) \<noteq> []) offs of
               None \<Rightarrow> ([], 0) | Some off \<Rightarrow> (filesystem_at d (int64_of off), off))"
  by (rule probe_filesystems_device [OF after_reads_is [OF assms]])

text \<open>
  C39. The hex dump shows the device: the rows it prints between its header and its last line
  are those of the first sectors (or of the whole device, where that is shorter), sixteen
  bytes to a row but for the last, the address column counts up in steps of 16, the
  hexadecimal columns of the rows decode to the bytes shown, in order, and the text column
  shows the same bytes, the printable ones as themselves and the others as dots.
\<close>

theorem dump_shows_device:
  assumes "open_segments_with_options lib sources opts = Inr r" "device_is lib r d" "d \<noteq> []"
    and "0 < sectors" "sectors \<le> 18014398509481983" and "shown = take (nat (sectors * 512)) d"
  shows "\<exists>rows parts. fst (dump_stream_sectors (image_ops lib) (after_reads lib earlier r) sectors) =
      Returns (println (dump_header sectors (length shown)) @ concat (map println rows) @ println ''---'')
    \<and> map row_bytes rows = map Some parts \<and> concat parts = shown
    \<and> map row_text rows = map (map shown_as) parts
    \<and> list_all (\<lambda>part. part \<noteq> [] \<and> length part \<le> 16) parts \<and> list_all (\<lambda>part. length part = 16) (butlast parts)
    \<and> map row_address rows = map (\<lambda>k. pad_left 8 (print_hex (int (16 * k)))) [0..<length rows]"
proof -
  have "length (dump_rows 0 shown) = length (rows_of shown)"
    using dump_rows_read(1) [of 0 shown] by (rule map_eq_imp_length_eq)
  moreover have "list_all (\<lambda>part. part \<noteq> [] \<and> length part \<le> 16) (rows_of shown)"
    using rows_of_all(2) [of shown] rows_of_lengths(1) [of shown] by (simp add: list_all_iff)
  ultimately show ?thesis
    using dump_device [OF after_reads_is [OF assms(1,2)] assms(3-6)] dump_rows_read [of 0 shown] rows_of_all(1) [of shown]
      dump_rows_text [of 0 shown] rows_of_lengths(2) [of shown]
    by (intro exI [of _ "dump_rows 0 shown"] exI [of _ "rows_of shown"]) simp
qed

text \<open>
  C40. The search for a partition table makes its attempts in one order, each at most once, and
  stops at the first that succeeds: at the offset asked for and then at the usual ones,
  first without a size and then, when the image has one, with exactly the size of the
  device, and strict before relaxed. When all fail, the error is that of the last.
  Printing the attempts changes nothing.
\<close>

theorem partition_search_exact:
  assumes "open_segments_with_options lib sources opts = Inr r"
  shows "(case detect_partition_table lt r' (ir_metadata r) start verbose of (res, r'', out) \<Rightarrow> (res, r'')) =
      first_success (lt_parse lt) r' (Plain ''no partition table found'') (table_tries start (reader_size r))
    \<and> distinct (map (\<lambda>(off, a). (da_opts a, da_size a)) (table_tries start (reader_size r)))"
  by (intro conjI partition_search [OF assms] tries_distinct [OF image_size_exact(3,2) [OF assms]])

section \<open>A small disk\<close>

text \<open>Twelve bytes with a signature, in one stored chunk.\<close>

definition disk_device :: bytes where
  "disk_device = [0xeb, 0x52, 0x90, 0x4e, 0x54, 0x46, 0x53, 0x20, 0x20, 0x20, 0x20, 0]"

definition disk_set :: "written_segment list" where
  "disk_set = [\<lparr>ws_before = [], ws_chunks = [(False, disk_device @ [0, 0, 0, 0])], ws_after = []\<rparr>]"

lemma disk_set_written: "image_written small_lib 1 12 1 disk_device disk_set"
  by (simp add: image_written_def disk_set_def disk_device_def add_volume_def segment_fits_def segment_layout_def
      chunk_group_def plain_names length_encode_table_v1 stored_sizes_def pieces.simps stored_chunk_def Let_def)

lemma disk_opens:
  obtains sources r where "open_segments_with_options small_lib sources default_options = Inr r"
    "device_is small_lib r disk_device" "reader_size r = 12"
proof -
  obtain r where "open_segments_with_options small_lib (map bytes_source (write_image (volume_body 1 1 1 12 1) disk_set)) default_options = Inr r"
    "ir_logical_size r = int (length disk_device)"
    "\<And>i. i < length disk_device \<Longrightarrow> reader_byte small_lib r (int i) = Some (disk_device ! i)"
    by (rule written_set_opens [OF disk_set_written refl, where opts = default_options]) blast
  moreover from this have "device_is small_lib r disk_device"
    by (simp add: device_is_def list_all_length)
  ultimately show thesis
    by (intro that) (simp_all add: reader_size_def disk_device_def)
qed

theorem probe_filesystems_exact_witness:
  "\<exists>sources r. open_segments_with_options small_lib sources default_options = Inr r
    \<and> fst (probe_filesystems (image_ops small_lib) True (after_reads small_lib [([0], 3)] r) [2048, 0]) = Returns (''NTFS'', 0)"
proof -
  obtain sources r where r: "open_segments_with_options small_lib sources default_options = Inr r" "device_is small_lib r disk_device"
    by (rule disk_opens)
  have "filesystem_at disk_device (int64_of 2048) = []" "filesystem_at disk_device (int64_of 0) = ''NTFS''"
    by code_simp+
  then show ?thesis
    using probe_filesystems_exact [OF r, of True "[([0], 3)]" "[2048, 0]"] r(1) by auto
qed

theorem dump_shows_device_witness:
  "\<exists>sources r rows. open_segments_with_options small_lib sources default_options = Inr r
    \<and> fst (dump_stream_sectors (image_ops small_lib) (after_reads small_lib [] r) 1) =
        Returns (println (dump_header 1 12) @ concat (map println rows) @ println ''---'')
    \<and> concat (map (\<lambda>s. the (row_bytes s)) rows) = disk_device"
proof -
  obtain sources r where r: "open_segments_with_options small_lib sources default_options = Inr r" "device_is small_lib r disk_device"
    by (rule disk_opens)
  have d: "disk_device \<noteq> []" "disk_device = take (nat (1 * 512)) disk_device" "length disk_device = 12"
    by (simp_all add: disk_device_def)
  obtain rows parts where rows: "fst (dump_stream_sectors (image_ops small_lib) (after_reads small_lib [] r) 1) =
      Returns (println (dump_header 1 12) @ concat (map println rows) @ println ''---'')"
    "map row_bytes rows = map Some parts" "concat parts = disk_device"
    using dump_shows_device [OF r d(1) _ _ d(2), of "[]"] d(3) by auto
  have "map (\<lambda>s. the (row_bytes s)) rows = map the (map row_bytes rows)"
    by (simp add: comp_def)
  also have "\<dots> = parts"
    by (simp add: rows(2) comp_def)
  finally show ?thesis
    using r(1) rows(1,3) by auto
qed

definition sample_tables :: "(nat, nat, image_reader) libtable" where
  "sample_tables =
     \<lparr>lt_parse = (\<lambda>r n opts. (if to_offset opts = 32256 \<and> to_disable_crc opts then Inr 7 else Inl (Plain ''no table''), r)),
      lt_is_backup = (\<lambda>t. False), lt_type = (\<lambda>t. ''DOS''), lt_block_size = (\<lambda>t. 512), lt_offset = (\<lambda>t. 0),
      lt_partitions = (\<lambda>t. []), lt_allocated = (\<lambda>p. True), lt_unallocated = (\<lambda>p. False), lt_meta = (\<lambda>p. False),
      lt_index = int, lt_start = (\<lambda>p. 0), lt_length = (\<lambda>p. 0), lt_type_name = (\<lambda>p. []), lt_type_code = (\<lambda>p. 0),
      lt_guid_type = (\<lambda>p. []), lt_guid_unique = (\<lambda>p. []), lt_name = (\<lambda>p. []), lt_attributes = (\<lambda>p. 0),
      lt_table_number = (\<lambda>p. 0), lt_slot_number = (\<lambda>p. 0)\<rparr>"

theorem partition_search_exact_witness:
  "\<exists>sources r. open_segments_with_options small_lib sources default_options = Inr r
    \<and> fst (detect_partition_table sample_tables r (ir_metadata r) 0 False) = Inr (7, ''offset='' @ print_int 32256 @ '', unknown-size/gpt-crc-relax'')"
proof -
  obtain sources r where r: "open_segments_with_options small_lib sources default_options = Inr r" "reader_size r = 12"
    by (rule disk_opens)
  have found: "fst (first_success (lt_parse sample_tables) r (Plain ''no partition table found'') (table_tries 0 12)) =
      Inr (7, ''offset='' @ print_int 32256 @ '', unknown-size/gpt-crc-relax'')"
    by (simp add: table_tries_def sample_tables_def)
  obtain res r' out where run: "detect_partition_table sample_tables r (ir_metadata r) 0 False = (res, r', out)"
    by (metis prod_cases3)
  have "(res, r') = first_success (lt_parse sample_tables) r (Plain ''no partition table found'') (table_tries 0 12)"
    using conjunct1 [OF partition_search_exact [OF r(1), of sample_tables r 0 False]] by (simp only: run r(2) prod.case)
  then have "res = Inr (7, ''offset='' @ print_int 32256 @ '', unknown-size/gpt-crc-relax'')"
    using found by (metis fst_conv)
  with run have "fst (detect_partition_table sample_tables r (ir_metadata r) 0 False) =
      Inr (7, ''offset='' @ print_int 32256 @ '', unknown-size/gpt-crc-relax'')"
    by (simp only: fst_conv)
  with r(1) show ?thesis
    by blast
qed

end
