(* ===== verification/Metadata_Copy.thy ===== *)
theory Metadata_Copy
  imports Metadata_Model
begin

text \<open>
  \<open>ImageReader.Metadata\<close> (\<open>reader/open.go\<close>) on an explicit store. The metadata of a reader
  holds references: slices, maps and pointers. The method copies the struct and then the
  sections, the counts, the geometry and the acquisition with its values, one by one; the
  lists of sessions and of acquisition errors stay shared with the reader. Everywhere else
  in the development the metadata is a value, which this theory justifies for what is copied.
\<close>

section \<open>The store\<close>

datatype cell =
    SectionsCell "section_summary list"
  | CountsCell "u32 \<rightharpoonup> nat"
  | MediaCell media_info
  | AcquisitionCell acquisition nat
  | ValuesCell go_map
  | SessionsCell "session_entry list"
  | ErrorsCell "acquisition_error list"

record heap_store =
  st_cells :: "nat \<rightharpoonup> cell"
  st_next :: nat

definition put_cell :: "nat \<Rightarrow> cell \<Rightarrow> heap_store \<Rightarrow> heap_store" where
  "put_cell a c st = st\<lparr>st_cells := (st_cells st)(a \<mapsto> c)\<rparr>"

definition alloc :: "cell \<Rightarrow> heap_store \<Rightarrow> nat \<times> heap_store" where
  "alloc c st = (st_next st, (put_cell (st_next st) c st)\<lparr>st_next := Suc (st_next st)\<rparr>)"

text \<open>\<open>metadata.Info\<close> as it lies in memory: the plain fields, and the references.\<close>

record shared_info =
  sh_plain :: info
  sh_sections :: nat
  sh_counts :: nat
  sh_media :: "nat option"
  sh_sessions :: nat
  sh_errors :: nat
  sh_acquisition :: "nat option"

definition sections_at :: "heap_store \<Rightarrow> nat \<Rightarrow> section_summary list" where
  "sections_at st a = (case st_cells st a of Some (SectionsCell xs) \<Rightarrow> xs | _ \<Rightarrow> [])"

definition counts_at :: "heap_store \<Rightarrow> nat \<Rightarrow> u32 \<rightharpoonup> nat" where
  "counts_at st a = (case st_cells st a of Some (CountsCell m) \<Rightarrow> m | _ \<Rightarrow> Map.empty)"

definition media_at :: "heap_store \<Rightarrow> nat \<Rightarrow> media_info" where
  "media_at st a = (case st_cells st a of Some (MediaCell m) \<Rightarrow> m | _ \<Rightarrow> empty_media)"

definition values_at :: "heap_store \<Rightarrow> nat \<Rightarrow> go_map" where
  "values_at st a = (case st_cells st a of Some (ValuesCell m) \<Rightarrow> m | _ \<Rightarrow> [])"

definition sessions_at :: "heap_store \<Rightarrow> nat \<Rightarrow> session_entry list" where
  "sessions_at st a = (case st_cells st a of Some (SessionsCell xs) \<Rightarrow> xs | _ \<Rightarrow> [])"

definition errors_at :: "heap_store \<Rightarrow> nat \<Rightarrow> acquisition_error list" where
  "errors_at st a = (case st_cells st a of Some (ErrorsCell xs) \<Rightarrow> xs | _ \<Rightarrow> [])"

text \<open>The struct behind the acquisition pointer, and its map of values.\<close>

definition acquisition_at :: "heap_store \<Rightarrow> nat \<Rightarrow> acquisition \<times> nat" where
  "acquisition_at st a = (case st_cells st a of Some (AcquisitionCell acq v) \<Rightarrow> (acq, v) | _ \<Rightarrow> (empty_acquisition, 0))"

text \<open>The metadata one reads through the references.\<close>

definition seen :: "heap_store \<Rightarrow> shared_info \<Rightarrow> info" where
  "seen st m = (sh_plain m)
     \<lparr>inf_sections := sections_at st (sh_sections m),
      inf_type_counts := counts_at st (sh_counts m),
      inf_media := map_option (media_at st) (sh_media m),
      inf_sessions := sessions_at st (sh_sessions m),
      inf_errors := errors_at st (sh_errors m),
      inf_acquisition := map_option (\<lambda>a. (fst (acquisition_at st a))
        \<lparr>acq_values := values_at st (snd (acquisition_at st a))\<rparr>) (sh_acquisition m)\<rparr>"

section \<open>The method\<close>

definition copy_media :: "nat option \<Rightarrow> heap_store \<Rightarrow> nat option \<times> heap_store" where
  "copy_media media st =
     (case media of
        None \<Rightarrow> (None, st)
      | Some a \<Rightarrow> (let (b, st') = alloc (MediaCell (media_at st a)) st in (Some b, st')))"

definition copy_acquisition :: "nat option \<Rightarrow> heap_store \<Rightarrow> nat option \<times> heap_store" where
  "copy_acquisition acq st =
     (case acq of
        None \<Rightarrow> (None, st)
      | Some a \<Rightarrow>
          (let (v, st1) = alloc (ValuesCell (values_at st (snd (acquisition_at st a)))) st;
               (b, st2) = alloc (AcquisitionCell (fst (acquisition_at st a)) v) st1 in
           (Some b, st2)))"

definition metadata_copy :: "shared_info \<Rightarrow> heap_store \<Rightarrow> shared_info \<times> heap_store" where
  "metadata_copy r st =
     (let (secs, st1) = alloc (SectionsCell (sections_at st (sh_sections r))) st;
          (counts, st2) = alloc (CountsCell (counts_at st1 (sh_counts r))) st1;
          (media, st3) = copy_media (sh_media r) st2;
          (acq, st4) = copy_acquisition (sh_acquisition r) st3 in
      (r\<lparr>sh_sections := secs, sh_counts := counts, sh_media := media, sh_acquisition := acq\<rparr>, st4))"

section \<open>What a caller can do\<close>

text \<open>Writing through what was copied: elements, map entries, fields of the two structs.\<close>

inductive caller_step :: "shared_info \<Rightarrow> heap_store \<Rightarrow> heap_store \<Rightarrow> bool" for m where
  write_sections: "caller_step m st (put_cell (sh_sections m) (SectionsCell xs) st)"
| write_counts: "caller_step m st (put_cell (sh_counts m) (CountsCell cs) st)"
| write_media: "sh_media m = Some a \<Longrightarrow> caller_step m st (put_cell a (MediaCell g) st)"
| write_acquisition: "sh_acquisition m = Some a \<Longrightarrow> st_cells st a = Some (AcquisitionCell old v) \<Longrightarrow>
    caller_step m st (put_cell a (AcquisitionCell new v) st)"
| write_values: "sh_acquisition m = Some a \<Longrightarrow> st_cells st a = Some (AcquisitionCell acq v) \<Longrightarrow>
    caller_step m st (put_cell v (ValuesCell kvs) st)"

inductive_cases caller_stepE: "caller_step m st st'"

section \<open>Isolation\<close>

text \<open>Every reference of a reader's metadata was allocated.\<close>

definition shared_ok :: "heap_store \<Rightarrow> shared_info \<Rightarrow> bool" where
  "shared_ok st r \<longleftrightarrow>
     sh_sections r < st_next st \<and> sh_counts r < st_next st \<and> sh_sessions r < st_next st \<and> sh_errors r < st_next st \<and>
     (case sh_media r of None \<Rightarrow> True | Some a \<Rightarrow> a < st_next st) \<and>
     (case sh_acquisition r of None \<Rightarrow> True
      | Some a \<Rightarrow> a < st_next st \<and> snd (acquisition_at st a) < st_next st)"

text \<open>Nothing below an address has changed; what the caller writes to lies above it.\<close>

definition kept_below :: "nat \<Rightarrow> heap_store \<Rightarrow> heap_store \<Rightarrow> bool" where
  "kept_below n st st' \<longleftrightarrow> n \<le> st_next st' \<and> (\<forall>a < n. st_cells st' a = st_cells st a)"

definition apart :: "nat \<Rightarrow> shared_info \<Rightarrow> heap_store \<Rightarrow> bool" where
  "apart n m st \<longleftrightarrow>
     n \<le> sh_sections m \<and> n \<le> sh_counts m \<and> (\<forall>a. sh_media m = Some a \<longrightarrow> n \<le> a) \<and>
     (\<forall>a. sh_acquisition m = Some a \<longrightarrow> n \<le> a \<and>
       (\<forall>acq v. st_cells st a = Some (AcquisitionCell acq v) \<longrightarrow> n \<le> v))"

lemmas cells_at = sections_at_def counts_at_def media_at_def values_at_def sessions_at_def errors_at_def
  acquisition_at_def

lemma kept_at:
  assumes "kept_below n st st'" "a < n"
  shows "sections_at st' a = sections_at st a" "counts_at st' a = counts_at st a" "media_at st' a = media_at st a"
    "values_at st' a = values_at st a" "sessions_at st' a = sessions_at st a" "errors_at st' a = errors_at st a"
    "acquisition_at st' a = acquisition_at st a"
  using assms by (simp_all add: kept_below_def cells_at)

lemma seen_kept:
  assumes "shared_ok st r" "kept_below (st_next st) st st'"
  shows "seen st' r = seen st r"
  using assms(1) kept_at [OF assms(2)]
  by (cases "sh_media r"; cases "sh_acquisition r") (simp_all add: seen_def shared_ok_def)

lemma copy_fresh:
  assumes "metadata_copy r st = (m, st1)"
  shows "kept_below (st_next st) st st1" "apart (st_next st) m st1" "sh_sessions m = sh_sessions r" "sh_errors m = sh_errors r"
  using assms
  by (auto simp: metadata_copy_def copy_media_def copy_acquisition_def alloc_def put_cell_def kept_below_def apart_def
      Let_def split: option.splits prod.splits)

text \<open>A copy of a struct with references, one allocation at a time.\<close>

lemma alloc_kept: "alloc c st = (a, st') \<Longrightarrow> kept_below (st_next st) st st' \<and> a = st_next st \<and> st_cells st' a = Some c \<and> st_next st' = Suc a"
  by (auto simp: alloc_def put_cell_def kept_below_def)

lemma kept_trans: "kept_below n st st1 \<Longrightarrow> kept_below k st1 st2 \<Longrightarrow> n \<le> k \<Longrightarrow> kept_below n st st2"
  by (auto simp: kept_below_def)

lemma copy_media_seen:
  assumes "copy_media media st = (m, st')" "case media of None \<Rightarrow> True | Some a \<Rightarrow> a < st_next st"
  shows "kept_below (st_next st) st st'" "map_option (media_at st') m = map_option (media_at st) media"
    "case m of None \<Rightarrow> True | Some a \<Rightarrow> a < st_next st'"
  using assms by (auto simp: copy_media_def alloc_def put_cell_def kept_below_def media_at_def split: option.splits)

definition acquisition_seen :: "heap_store \<Rightarrow> nat \<Rightarrow> acquisition" where
  "acquisition_seen st a = (fst (acquisition_at st a))\<lparr>acq_values := values_at st (snd (acquisition_at st a))\<rparr>"

lemma copy_acquisition_seen:
  assumes "copy_acquisition acq st = (m, st')"
  shows "kept_below (st_next st) st st' \<and> map_option (acquisition_seen st') m = map_option (acquisition_seen st) acq"
proof (cases acq)
  case None
  then show ?thesis
    using assms by (simp_all add: copy_acquisition_def kept_below_def)
next
  case (Some a)
  obtain v st1 where a1: "alloc (ValuesCell (values_at st (snd (acquisition_at st a)))) st = (v, st1)" by fastforce
  obtain b st2 where a2: "alloc (AcquisitionCell (fst (acquisition_at st a)) v) st1 = (b, st2)" by fastforce
  note k1 = alloc_kept [OF a1] and k2 = alloc_kept [OF a2]
  have m: "m = Some b" "st' = st2"
    using assms Some a1 a2 by (simp_all add: copy_acquisition_def)
  have "kept_below (st_next st) st st'"
    using kept_trans [of "st_next st" st st1 "st_next st1" st2] k1 k2 m by simp
  moreover have "values_at st2 v = values_at st1 v"
    using kept_at(4) [of "st_next st1" st1 st2 v] k1 k2 by simp
  then have "values_at st2 v = values_at st (snd (acquisition_at st a))"
    using k1 by (auto simp: values_at_def [of st1])
  then have "acquisition_seen st2 b = acquisition_seen st a"
    using k2 by (auto simp: acquisition_seen_def acquisition_at_def [of st2])
  ultimately show ?thesis
    using m Some by simp
qed

lemma copy_seen:
  assumes ok: "shared_ok st r" and copy: "metadata_copy r st = (m, st1)"
  shows "seen st1 m = seen st r"
proof -
  obtain secs a1 where a1: "alloc (SectionsCell (sections_at st (sh_sections r))) st = (secs, a1)" by fastforce
  obtain counts a2 where a2: "alloc (CountsCell (counts_at a1 (sh_counts r))) a1 = (counts, a2)" by fastforce
  obtain media a3 where a3: "copy_media (sh_media r) a2 = (media, a3)" by fastforce
  obtain acq a4 where a4: "copy_acquisition (sh_acquisition r) a3 = (acq, a4)" by fastforce
  have m: "m = r\<lparr>sh_sections := secs, sh_counts := counts, sh_media := media, sh_acquisition := acq\<rparr>" "st1 = a4"
    using copy a1 a2 a3 a4 by (simp_all add: metadata_copy_def)
  note k1 = alloc_kept [OF a1] and k2 = alloc_kept [OF a2]
  have b: "case sh_media r of None \<Rightarrow> True | Some a \<Rightarrow> a < st_next a2"
    using ok k1 k2 by (auto simp: shared_ok_def split: option.split)
  note k3 = copy_media_seen [OF a3 b]
  have k4: "kept_below (st_next a3) a3 a4" "map_option (acquisition_seen a4) acq = map_option (acquisition_seen a3) (sh_acquisition r)"
    using copy_acquisition_seen [OF a4] by blast+
  have n: "st_next st \<le> st_next a1" "st_next a1 \<le> st_next a2" "st_next a2 \<le> st_next a3"
    using k1 k2 k3(1) by (simp_all add: kept_below_def)
  have kept: "kept_below (st_next st) st a2" "kept_below (st_next st) st a3" "kept_below (st_next st) st a4"
    "kept_below (st_next a1) a1 a4" "kept_below (st_next a2) a2 a4"
    using k1 k2 k3(1) k4(1) n kept_trans le_trans by meson+
  have "sections_at a4 secs = sections_at st (sh_sections r)"
    using kept_at(1) [OF kept(4), of secs] k1 by (auto simp: sections_at_def [of a1])
  moreover have "counts_at a4 counts = counts_at st (sh_counts r)"
    using kept_at(2) [OF kept(5), of counts] kept_at(2) [of "st_next st" st a1 "sh_counts r"] k1 k2 ok
    by (auto simp: counts_at_def [of a2] shared_ok_def)
  moreover have "map_option (media_at a4) media = map_option (media_at a3) media"
    using kept_at(3) [OF k4(1)] k3(3) by (auto split: option.splits)
  moreover have "map_option (media_at a2) (sh_media r) = map_option (media_at st) (sh_media r)"
    using kept_at(3) [OF kept(1)] ok by (auto simp: shared_ok_def split: option.splits)
  moreover have "map_option (acquisition_seen a3) (sh_acquisition r) = map_option (acquisition_seen st) (sh_acquisition r)"
    using kept_at(4,7) [OF kept(2)] ok by (auto simp: shared_ok_def acquisition_seen_def split: option.splits)
  moreover have "sessions_at a4 (sh_sessions r) = sessions_at st (sh_sessions r)" "errors_at a4 (sh_errors r) = errors_at st (sh_errors r)"
    using kept_at(5,6) [OF kept(3)] ok by (simp_all add: shared_ok_def)
  ultimately show ?thesis
    using k3(2) k4(2) by (simp add: seen_def m acquisition_seen_def [abs_def])
qed

lemma caller_step_apart:
  assumes "caller_step m st st'" "apart n m st" "kept_below n st0 st"
  shows "apart n m st'" "kept_below n st0 st'"
  using assms by (auto simp: apart_def kept_below_def put_cell_def elim!: caller_stepE split: if_splits)

lemma caller_steps_apart:
  assumes "(caller_step m)\<^sup>*\<^sup>* st st'" "apart n m st" "kept_below n st0 st"
  shows "apart n m st' \<and> kept_below n st0 st'"
  using assms by (induction rule: rtranclp_induct) (use caller_step_apart in blast)+

text \<open>
  C14. A caller owns what \<open>Metadata\<close> returns, but for two lists: the copy shows what the
  reader's metadata holds, and after any writes to its sections, counts, geometry and
  acquisition values the reader still shows the same, so that a later call returns it too.
\<close>

theorem metadata_copy_isolated:
  assumes "shared_ok st r" "metadata_copy r st = (m, st1)" "(caller_step m)\<^sup>*\<^sup>* st1 st2"
    and "metadata_copy r st2 = (m', st3)"
  shows "seen st1 m = seen st r \<and> seen st2 r = seen st r \<and> seen st3 m' = seen st r"
proof -
  note fresh = copy_fresh [OF assms(2)]
  have kept: "kept_below (st_next st) st st2"
    using caller_steps_apart [OF assms(3) fresh(2,1)] by blast
  have r: "seen st2 r = seen st r"
    by (rule seen_kept [OF assms(1) kept])
  have "snd (acquisition_at st2 a) = snd (acquisition_at st a)" if "sh_acquisition r = Some a" for a
    using assms(1) kept that by (simp add: shared_ok_def kept_below_def acquisition_at_def)
  then have "shared_ok st2 r"
    using assms(1) kept by (auto simp: shared_ok_def kept_below_def split: option.splits)
  from copy_seen [OF this assms(4)] show ?thesis
    using copy_seen [OF assms(1,2)] r by simp
qed

text \<open>The lists of sessions and errors are those of the reader: a write to them shows in it.\<close>

lemma sessions_shared:
  assumes "metadata_copy r st = (m, st1)"
  shows "seen (put_cell (sh_sessions m) (SessionsCell xs) st1) r =
    (seen (put_cell (sh_sessions r) (SessionsCell xs) st1) r)"
    "inf_sessions (seen (put_cell (sh_sessions m) (SessionsCell xs) st1) r) = xs"
    "inf_errors (seen (put_cell (sh_errors m) (ErrorsCell es) st1) r) = es"
  using copy_fresh(3,4) [OF assms] by (simp_all add: seen_def put_cell_def sessions_at_def errors_at_def)

section \<open>A reader's metadata\<close>

definition sample_store :: heap_store where
  "sample_store = \<lparr>st_cells = [0 \<mapsto> SectionsCell [], 1 \<mapsto> CountsCell [3 \<mapsto> 1], 2 \<mapsto> MediaCell empty_media,
     3 \<mapsto> SessionsCell [], 4 \<mapsto> ErrorsCell [], 5 \<mapsto> ValuesCell [(''c'', ''1'')],
     6 \<mapsto> AcquisitionCell empty_acquisition 5], st_next = 7\<rparr>"

definition sample_shared :: shared_info where
  "sample_shared = \<lparr>sh_plain = initial_info empty_header [], sh_sections = 0, sh_counts = 1, sh_media = Some 2,
     sh_sessions = 3, sh_errors = 4, sh_acquisition = Some 6\<rparr>"

theorem metadata_copy_isolated_witness:
  "\<exists>m st1. metadata_copy sample_shared sample_store = (m, st1) \<and>
     caller_step m st1 (put_cell (sh_counts m) (CountsCell Map.empty) st1) \<and>
     seen (put_cell (sh_counts m) (CountsCell Map.empty) st1) sample_shared = seen sample_store sample_shared"
proof -
  obtain m st1 where copy: "metadata_copy sample_shared sample_store = (m, st1)"
    by (cases "metadata_copy sample_shared sample_store")
  let ?st2 = "put_cell (sh_counts m) (CountsCell Map.empty) st1"
  obtain m' st3 where again: "metadata_copy sample_shared ?st2 = (m', st3)"
    by (cases "metadata_copy sample_shared ?st2")
  have ok: "shared_ok sample_store sample_shared"
    by (simp add: shared_ok_def sample_store_def sample_shared_def acquisition_at_def)
  have step: "caller_step m st1 ?st2"
    by (rule write_counts)
  from metadata_copy_isolated [OF ok copy r_into_rtranclp [of "caller_step m", OF step] again] show ?thesis
    using copy step by blast
qed

end
