(* ===== verification/Spec2Isabelle.thy ===== *)
theory Spec2Isabelle
  imports Example_Properties Metadata_Copy
begin

text \<open>
  \<^bold>\<open>libewf: the Expert Witness Compression Format reader\<close>

  The program is a Go library that opens a forensic disk image stored as one or several EWF
  segment files (\<open>.E01\<close>, \<open>.E02\<close>, \<open>.S01\<close>, \<open>.L01\<close>, version 1, and \<open>.Ex01\<close>, \<open>.Lx01\<close>, version 2)
  and serves the acquired device through \<open>io.ReaderAt\<close>. Opening parses the file header of
  every segment, walks its chain of sections, builds a table of the compressed chunks and
  reads the metadata; the segments are then ordered, validated as a set and merged.
  \<open>ReadAt\<close> finds the chunks a request touches, takes them from a bounded cache or decodes
  them, and copies. \<open>Verify\<close> hashes the whole device; \<open>OpenPath\<close> finds the files of a set by
  their names and owns them; a tool beside the library keeps a corpus of golden images, and
  three example programs report on an image.

  \<^bold>\<open>Theories and sources\<close>

  Each theory opens with the model of its files, in the order of the code, and goes on with
  the lemmas; the properties and their concrete instances come last.

  \<^item> \<open>Prelude\<close>: machine types, the reading of a number as \<open>int64\<close> (\<open>i64\<close>), little-endian
    decoding, slices and \<open>copy\<close>, Adler-32, the type \<open>go\<close> of results of operations that may
    panic; the collections \<open>go_defs\<close> and \<open>len_simps\<close>.
  \<^item> \<open>Ewf_Errors\<close> (\<open>ewferr/errors.go\<close>): sentinels, structured errors, \<open>errors.Is\<close>.
  \<^item> \<open>Go_Text\<close>: the part of \<open>strings\<close>, \<open>utf8\<close>, \<open>utf16\<close> and \<open>strconv\<close> the library uses.
  \<^item> \<open>Source_IO\<close> (\<open>internal/binaryutil/read.go\<close>): an \<open>io.ReaderAt\<close> as a record of its calls and
    the checked reads on it.
  \<^item> \<open>Ewf_Types\<close> (\<open>types\<close>): signatures, constants, on-disk structures.
  \<^item> \<open>Section_Chain\<close> (\<open>reader/sections.go\<close>): descriptors and both walks over the chain.
  \<^item> \<open>File_Header\<close> (\<open>reader/open.go\<close>): signature detection and the two file headers.
  \<^item> \<open>Chunk_Table\<close> (\<open>reader/chunk_table.go\<close>): chunk descriptors, tables with a backup copy.
  \<^item> \<open>Metadata_Model\<close> (\<open>metadata/model.go\<close>, \<open>reader/metadata.go\<close>): the record \<open>info\<close>.
  \<^item> \<open>Compression\<close> (\<open>compression/decompress.go\<close>): the choice of a decompressor.
  \<^item> \<open>Header_Text\<close> (\<open>reader/header.go\<close>, \<open>reader/xhash.go\<close>, \<open>reader/ewf2meta.go\<close>): the textual
    metadata sections.
  \<^item> \<open>Payloads\<close> (\<open>reader/payload_parsing.go\<close>): the other section bodies and the pass over all
    sections of a segment.
  \<^item> \<open>Chunk_Cache\<close> (\<open>reader/cache.go\<close>): the LRU cache, its elements in an explicit store.
  \<^item> \<open>Image_Open\<close> (\<open>reader/open.go\<close>): options, one segment, the set, merging, geometry.
  \<^item> \<open>Image_Read\<close> (\<open>reader/open.go\<close>): pattern chunks, decoding, \<open>ReadAt\<close>, accessors.
  \<^item> \<open>Seg_Names\<close> (\<open>internal/segname/segname.go\<close>): names of segments and the directory scan.
  \<^item> \<open>Device_Verify\<close> (\<open>verify.go\<close>, the interface \<open>Reader\<close> of \<open>api.go\<close>): hashing the device.
  \<^item> \<open>Open_Path\<close> (\<open>api.go\<close>, \<open>openpath.go\<close>, \<open>ewf.go\<close>): constructors, options, the reader that owns
    its files, \<open>Close\<close>, also by several goroutines.
  \<^item> \<open>Metadata_Copy\<close> (\<open>reader/open.go\<close>): the method \<open>Metadata\<close> on an explicit store, with the
    references the returned struct shares with the reader.
  \<^item> \<open>Corpus\<close> (\<open>internal/corpus/manifest.go\<close>, \<open>tools/mkcorpus/main.go\<close>): the manifest and the
    tool that adopts or generates images.
  \<^item> \<open>Examples\<close> (\<open>examples/open\<close>, \<open>examples/readat\<close>, \<open>examples/offsets\<close>): the three programs with
    what they print; \<open>Example_Properties\<close> has their lemmas.
  \<^item> \<open>Written_Image\<close> models no code: it is a specification of EWF-E01 sets as a writer would lay
    them out (header, chain of sections, volume, chunks and their tables over any division into
    segments, digest), against which the composition of all the parsers is proved.

  \<^bold>\<open>Conventions\<close>

  Names follow the source, in lower case with underscores; a Go field \<open>Foo\<close> of a struct is the
  record field with the struct's prefix. Unsigned integers are words of their width. \<open>int\<close> and
  \<open>int64\<close> are HOL integers, with \<open>i64\<close> around every operation of the code that can leave 64 bits,
  so that wrapped values, and the tests the code has against them, are those of the program.
  A fallible function returns \<open>gerr + 'a\<close>; a wrapped error keeps the error it wraps and the fixed
  part of its message. Operations that index or slice return a value of \<open>go\<close>, so that a panic
  is the value \<open>Panics\<close>. The open files of a process are a log of the handles opened and closed,
  and what the operating system answers may depend on it; the tool's log holds all it did.
  A buffer the caller passes is a list that the operation returns as it left it. What a program
  prints is a list of pieces: text and numbers are spelled out, and a float, a quoted string, a
  date or the message of an error is kept as the value that is formatted.

  What lies outside the source is a parameter: \<open>compress/zlib\<close> and \<open>compress/bzip2\<close> (record
  \<open>codecs\<close>), \<open>encoding/xml\<close>, \<open>strings.ToLower\<close>, \<open>time.ParseInLocation\<close> and the order of a \<open>range\<close>
  over a map (record \<open>golib\<close>, which extends it), MD5 and SHA-1 (record \<open>digests\<close>), the file system
  (\<open>file_system\<close>, \<open>os_calls\<close>), the context of \<open>Verify\<close> (what \<open>ctx.Err()\<close> says at each pass), for
  the tool the record \<open>machine\<close>, and for \<open>examples/offsets\<close> the partition tables of the package
  \<open>libtable\<close> (record \<open>libtable\<close>). Nothing is assumed of them but what a property states.

  \<^bold>\<open>Interfaces\<close>

  \<^item> \<open>source_of\<close> and its extension \<open>eager_source\<close> (\<open>Source_IO\<close>) are the contract of
    \<open>io.ReaderAt\<close> on some contents; \<open>bytes_src\<close> interprets them on a byte slice, and the round
    trips of descriptors, headers, tables and section bodies rest on it.
  \<^item> \<open>chunk_store\<close> (\<open>Chunk_Cache\<close>) is what reading relies on in a cache: a hit is what was
    stored last. \<open>lru\<close> interprets it on the cache of the code. The transparency of the cache in
    \<open>ReadAt\<close> and the soundness of concurrent readers are proved from the laws alone.
  \<^item> \<open>device_reader\<close> (\<open>Device_Verify\<close>) is what \<open>Verify\<close> relies on in a \<open>Reader\<close>. \<open>image\<close> interprets
    it on \<open>ImageReader\<close>, with the contract of \<open>ReadAt\<close> discharging the laws, and \<open>path\<close>
    (\<open>Open_Path\<close>) on the reader \<open>OpenPath\<close> returns.

  \<^bold>\<open>What is shown\<close>

  \<^item> Written images (C1, C2, C29). A device written as a set in any of the ways \<open>Written_Image\<close>
    allows is opened with its files in any order, is read back byte for byte at every offset,
    and verifies when the set ends with its MD5; a chain of sections is parsed into exactly
    the sections written.
  \<^item> Reading (C3 to C5, C13, C31). The device is the function \<open>reader_byte\<close>, the byte of an
    image at an offset if the chunk there decodes that far. \<open>ReadAt\<close> returns the longest prefix
    of the request the device has, for every request, and nil exactly when the buffer is full;
    the state of the cache never shows; an opened reader is well typed and stays so; pattern
    chunks are plain repetition. Further theorems, without a number: chunks written in each
    stored form decode to their data, and no image with chunks of at least three bytes makes
    decoding panic.
  \<^item> The cache (C6, C7). The map and the linked list refine a list of pairs in order of use,
    cut at the bound; every interleaving of concurrent lookups and stores is sound.
  \<^item> Opening (C8 to C12, C32). Which sets are accepted, exactly; independence of the order in
    which the sources are given; encrypted images are never opened; the strict policy opens the
    same readers as the default one, but only where the checksums stored with every v1 table
    vouch for a copy of it (v2 tables are checked by nothing in the code); sizes are exact products in the integers or the image is refused.
  \<^item> Metadata (C14). What \<open>Metadata\<close> returns belongs to the caller, but for the two lists that
    stay shared with the reader.
  \<^item> Verification (C15 to C17, C22). \<open>Verify\<close> hashes the device with zeros in exactly the ranges
    it reports, \<open>OK\<close> means an undamaged device with matching digests, and an undamaged image
    verifies to the end. The same holds of a reader from \<open>OpenPath\<close>, over the whole session from
    opening to closing, with the context deciding where it stops.
  \<^item> Files (C18 to C21, C23, C24). Names and numbers of segments correspond one to one; the scan
    finds exactly the files of the set; missing numbers are reported exactly; no path through
    \<open>OpenPath\<close> leaks a handle and \<open>Close\<close> releases each once, however often it is called
    concurrently.
  \<^item> Formats (C25 to C30, C33 to C35). Pairing of tables, the set of section chains that are
    accepted, and round trips of tables and texts; without a number, bounds of tables and round
    trips of descriptors, file headers, lists of sessions and errors and UTF-16 text.
  \<^item> The corpus (C36, C37). What the tool writes is valid and sorted, and every new value in it
    comes from an adopted image or from a raw one; replacing entries through the index of
    names is updating a map, in place.
  \<^item> The examples (C38 to C40). The filesystems found are those whose signatures lie on the device,
    the hex dump decodes to its sectors in both of its columns, and the search for a partition table makes distinct
    attempts in one order.

  \<^bold>\<open>Loops, bounds and termination\<close>

  Every loop of the code is a total function, with a measure where it is not structural:
  the walks over sections count down from the limit of 65536 the code has; the reading
  loop advances by at least a byte; \<open>Verify\<close> advances by its step, which the code makes positive
  (the guard \<open>0 < step\<close> in the model is therefore always true at its calls); eviction shortens
  the list. The exception is the loop of \<open>Missing\<close>, which counts in 32 bits and would not end for
  the number 2^32 - 1: it is a \<open>partial_function\<close>, proved to return for every set that discovery
  can build. No other fuel is used.

  \<^bold>\<open>Not modelled\<close>

  \<^item> Allocation succeeds: a \<open>make\<close> with a size taken from an image does not exhaust memory.
  \<^item> \<open>sort.Slice\<close> is a stable sort. Where the order of equal keys could show, the code refuses
    equal keys (segments of a set) or they cannot occur (names of a directory).
  \<^item> The mutex of the cache makes \<open>get\<close> and \<open>put\<close> atomic steps; the memory model of Go is not
    modelled.
  \<^item> The numbers and texts that a message interpolates, except in the two structured errors
    and the texts they build, and locale-dependent parts of \<open>time\<close>.
  \<^item> \<open>strings.EqualFold\<close> in the scan of a directory is a parameter beside the file system's calls.
  \<^item> In the tool and the examples: the parsing of flags by the package \<open>flag\<close>, and the progress
    lines of the tool.
  \<^item> Tests, benchmarks and fuzz targets.
\<close>

end
